(* ===== verification/Prelude.thy ===== *)
theory Prelude
  imports Main "HOL-Library.Word" "HOL-Library.State_Monad" "HOL-Library.Multiset"
begin

text \<open>
  Shared ground of the development: the Go error values and results, the state monad in
  which the stateful code is written, a small Hoare logic for it (\<open>valid\<close>, \<open>keeps\<close>,
  \<open>leaves\<close>) with the rule collections every component proof draws on, and the laws of
  keyed rows that the database tables obey.
\<close>

named_theorems keeps_rules \<open>rules that split an invariant over a monadic program\<close>
named_theorems atomic_rules \<open>rules that show a failing program changed nothing of a part of the state\<close>
named_theorems leaves_rules \<open>rules that show a part of the state is not written\<close>

section \<open>Go values\<close>

text \<open>
  A Go \<open>string\<close> and a Go \<open>[]byte\<close> are both sequences of bytes; Isabelle's \<^typ>\<open>char\<close>
  is a byte, so both are lists of characters. \<open>uint64\<close> is a 64-bit word, \<open>*big.Int\<close> an
  \<^typ>\<open>int\<close> (an option where the code lets the pointer be nil). \<open>common.Address\<close> is
  20 bytes and \<open>common.Hash\<close> 32 bytes.
\<close>

type_synonym bytes = "char list"
type_synonym uint64 = "64 word"
type_synonym address = "160 word"
type_synonym hash = "256 word"

text \<open>
  Error values: \<open>errors.New\<close>, \<open>fmt.Errorf\<close> with a wrapped error, \<open>errors.Join\<close>, the
  sentinel errors of the packages, and whatever a library hands back (\<open>External\<close>).
  \<open>Panic\<close> is not an error value of the program: it is a run-time panic, which no code
  path of the model treats as an ordinary error.
\<close>

datatype error =
    ErrMsg string
  | Wrap string error
  | Joined "error list"
  | ErrAppNotLoaded
  | ErrChainIDMismatch
  | ErrPastDeadline
  | ErrNotFound
  | ErrInvalidToken
  | ErrAppNotFound
  | EthereumNotFound
  | ErrNoRows
  | ErrUniqueViolation string
  | ErrForeignKey string
  | ErrCheckViolation string
  | ErrBadValue string
  | ContextDone
  | ErrServerClosed
  | External string
  | Panic string

type_synonym 'a res = "error + 'a"

fun errors_Is :: "error \<Rightarrow> error \<Rightarrow> bool" where
  "errors_Is (Wrap m e) t = (Wrap m e = t \<or> errors_Is e t)"
| "errors_Is (Joined es) t = (Joined es = t \<or> list_ex (\<lambda>e. errors_Is e t) es)"
| "errors_Is e t = (e = t)"

fun join_lines :: "string list \<Rightarrow> string" where
  "join_lines [] = []"
| "join_lines [s] = s"
| "join_lines (s # ss) = s @ CHR 0x0A # join_lines ss"

fun Error :: "error \<Rightarrow> string" where
  "Error (ErrMsg m) = m"
| "Error (Wrap m e) = m @ '': '' @ Error e"
| "Error (Joined es) = join_lines (map Error es)"
| "Error ErrAppNotLoaded = ''signer pool: app not loaded''"
| "Error ErrChainIDMismatch = ''chain_id does not match server''"
| "Error ErrPastDeadline = ''deadline is in the past''"
| "Error ErrNotFound = ''relay request not found''"
| "Error ErrInvalidToken = ''invalid token''"
| "Error ErrAppNotFound = ''app not found''"
| "Error EthereumNotFound = ''not found''"
| "Error ErrNoRows = ''no rows in result set''"
| "Error (ErrUniqueViolation m) = m"
| "Error (ErrForeignKey m) = m"
| "Error (ErrCheckViolation m) = m"
| "Error (ErrBadValue m) = m"
| "Error ContextDone = ''context canceled''"
| "Error ErrServerClosed = ''http: Server closed''"
| "Error (External m) = m"
| "Error (Panic m) = m"

fun is_panic :: "error \<Rightarrow> bool" where
  "is_panic (Panic m) = True"
| "is_panic e = False"

text \<open>\<open>fmt.Errorf("m: %w", err)\<close> around a call that may panic: a panic is not wrapped, it goes on.\<close>

definition Errorf :: "string \<Rightarrow> error \<Rightarrow> error" where
  "Errorf m e = (if is_panic e then e else Wrap m e)"

lemma is_panic_Errorf [simp]: "is_panic (Errorf m e) = is_panic e"
  by (simp add: Errorf_def)

lemma of_nat_inj64: "x < 2 ^ 64 \<Longrightarrow> y < 2 ^ 64 \<Longrightarrow> (of_nat x :: uint64) = of_nat y \<Longrightarrow> x = y"
  by (simp add: word_of_nat_eq_iff take_bit_nat_eq_self)

text \<open>A run of nonces without a gap, on the 64-bit counter.\<close>

definition consecutive :: "uint64 \<Rightarrow> uint64 list \<Rightarrow> bool" where
  "consecutive n0 ns \<longleftrightarrow> ns = map (\<lambda>i. n0 + of_nat i) [0..<length ns]"

lemma consecutive_Nil [simp]: "consecutive n []"
  by (simp add: consecutive_def)

lemma consecutive_snoc: "consecutive n ns \<Longrightarrow> consecutive n (ns @ [n + of_nat (length ns)])"
  by (simp add: consecutive_def)

lemma consecutive_Cons: "consecutive (n + 1) ns \<Longrightarrow> consecutive n (n # ns)"
  unfolding consecutive_def
  by (subst length_Cons, subst upt_conv_Cons)
     (simp_all add: map_Suc_upt [symmetric] comp_def add.assoc del: upt_Suc map_Suc_upt)

lemma consecutive_distinct:
  assumes "consecutive n ns" and "length ns \<le> 2 ^ 64"
  shows "distinct ns"
proof -
  have "inj_on (\<lambda>i. n + of_nat i) (set [0..<length ns])"
    using assms(2) by (auto simp: inj_on_def intro!: of_nat_inj64)
  then have "distinct (map (\<lambda>i. n + of_nat i) [0..<length ns])" by (simp add: distinct_map)
  with assms(1) show ?thesis by (metis consecutive_def)
qed

section \<open>Programs over a state\<close>

text \<open>
  A fallible Go call returns a value and an error. \<open>attempt m h k\<close> is the idiom
  \<open>x, err := m; if err != nil { h } ; k\<close>: the handler decides what the enclosing
  function returns on the error path.
\<close>

definition attempt ::
  "('s, 'a res) state \<Rightarrow> (error \<Rightarrow> ('s, 'b) state) \<Rightarrow> ('a \<Rightarrow> ('s, 'b) state) \<Rightarrow> ('s, 'b) state" where
  "attempt m h k = do { r \<leftarrow> m; (case r of Inl e \<Rightarrow> h e | Inr x \<Rightarrow> k x) }"

abbreviation ret :: "'a \<Rightarrow> ('s, 'a) state" where
  "ret \<equiv> State_Monad.return"

abbreviation ok :: "'a \<Rightarrow> ('s, 'a res) state" where
  "ok x \<equiv> ret (Inr x)"

abbreviation fail :: "error \<Rightarrow> ('s, 'a res) state" where
  "fail e \<equiv> ret (Inl e)"

abbreviation fail_wrap :: "string \<Rightarrow> error \<Rightarrow> ('s, 'a res) state" where
  "fail_wrap m e \<equiv> fail (Wrap m e)"

definition reads :: "('s \<Rightarrow> 'a) \<Rightarrow> ('s, 'a) state" where
  "reads f = State (\<lambda>s. (f s, s))"

definition writes :: "('s \<Rightarrow> 's) \<Rightarrow> ('s, unit) state" where
  "writes f = State (\<lambda>s. ((), f s))"

text \<open>A \<open>for ... range\<close> loop whose body is run for its effects.\<close>

fun for_each :: "('a \<Rightarrow> ('s, unit) state) \<Rightarrow> 'a list \<Rightarrow> ('s, unit) state" where
  "for_each f [] = ret ()"
| "for_each f (x # xs) = do { f x; for_each f xs }"

lemma run_reads [simp]: "run_state (reads f) s = (f s, s)"
  by (simp add: reads_def)

lemma run_writes [simp]: "run_state (writes f) s = ((), f s)"
  by (simp add: writes_def)

lemma run_attempt:
  "run_state (attempt m h k) s =
     (case run_state m s of (Inl e, s') \<Rightarrow> run_state (h e) s' | (Inr x, s') \<Rightarrow> run_state (k x) s')"
  by (simp add: attempt_def split: prod.split sum.split)

lemma run_attempt_Inl [simp]:
  "run_state m s = (Inl e, s') \<Longrightarrow> run_state (attempt m h k) s = run_state (h e) s'"
  by (simp add: run_attempt)

lemma run_attempt_Inr [simp]:
  "run_state m s = (Inr x, s') \<Longrightarrow> run_state (attempt m h k) s = run_state (k x) s'"
  by (simp add: run_attempt)

text \<open>A call whose error path only returns an error: what a successful run of the rest tells.\<close>

lemma attempt_failE:
  assumes "run_state (attempt m (\<lambda>e. fail (g e)) k) s = (Inr y, s')"
    and "\<And>x s1. run_state m s = (Inr x, s1) \<Longrightarrow> run_state (k x) s1 = (Inr y, s') \<Longrightarrow> thesis"
  shows thesis
  using assms by (auto simp: run_attempt split: prod.splits sum.splits)

lemma attempt_ret [simp]:
  "attempt (ret (Inr x)) h k = k x"
  "attempt (ret (Inl e)) h k = h e"
  by (simp_all add: attempt_def)

section \<open>A Hoare logic for the monad\<close>

definition valid ::
  "('s \<Rightarrow> bool) \<Rightarrow> ('s, 'a) state \<Rightarrow> ('a \<Rightarrow> 's \<Rightarrow> bool) \<Rightarrow> bool" where
  "valid P m Q \<longleftrightarrow> (\<forall>s. P s \<longrightarrow> (case run_state m s of (a, s') \<Rightarrow> Q a s'))"

definition keeps :: "('s \<Rightarrow> bool) \<Rightarrow> ('s, 'a) state \<Rightarrow> bool" where
  "keeps P m \<longleftrightarrow> (\<forall>s. P s \<longrightarrow> P (snd (run_state m s)))"

definition leaves :: "('s \<Rightarrow> 'b) \<Rightarrow> ('s, 'a) state \<Rightarrow> bool" where
  "leaves f m \<longleftrightarrow> (\<forall>s. f (snd (run_state m s)) = f s)"

lemma validI: "(\<And>s a s'. P s \<Longrightarrow> run_state m s = (a, s') \<Longrightarrow> Q a s') \<Longrightarrow> valid P m Q"
  by (auto simp: valid_def split: prod.splits)

lemma validD: "valid P m Q \<Longrightarrow> P s \<Longrightarrow> run_state m s = (a, s') \<Longrightarrow> Q a s'"
  by (auto simp: valid_def split: prod.splits)

lemma valid_bind:
  assumes "valid P m R" and "\<And>a. valid (R a) (f a) Q"
  shows "valid P (State_Monad.bind m f) Q"
  using assms by (simp add: valid_def case_prod_beta)

lemma valid_pre: "valid P m Q \<Longrightarrow> (\<And>s. P' s \<Longrightarrow> P s) \<Longrightarrow> valid P' m Q"
  by (auto simp: valid_def)

lemma valid_post: "valid P m Q \<Longrightarrow> (\<And>a s. Q a s \<Longrightarrow> Q' a s) \<Longrightarrow> valid P m Q'"
  by (auto simp: valid_def split: prod.splits)

lemma valid_attempt:
  assumes "valid P m R" and "\<And>e. valid (R (Inl e)) (h e) Q" and "\<And>x. valid (R (Inr x)) (k x) Q"
  shows "valid P (attempt m h k) Q"
  unfolding attempt_def
proof (rule valid_bind [OF assms(1)])
  fix a show "valid (R a) (case a of Inl e \<Rightarrow> h e | Inr x \<Rightarrow> k x) Q"
    by (cases a) (simp_all add: assms)
qed

lemma keepsI: "(\<And>s a s'. P s \<Longrightarrow> run_state m s = (a, s') \<Longrightarrow> P s') \<Longrightarrow> keeps P m"
  by (metis keeps_def prod.collapse)

lemma keepsD: "keeps P m \<Longrightarrow> P s \<Longrightarrow> run_state m s = (a, s') \<Longrightarrow> P s'"
  by (metis keeps_def snd_conv)

lemma leavesD: "leaves f m \<Longrightarrow> run_state m s = (a, s') \<Longrightarrow> f s' = f s"
  by (metis leaves_def snd_conv)

lemma leaves_eq: "leaves f m \<Longrightarrow> f (snd (run_state m s)) = f s"
  by (simp add: leaves_def)

lemma leaves_keeps: "leaves f m \<Longrightarrow> keeps (\<lambda>s. P (f s)) m"
  by (simp add: keeps_def leaves_def)

lemma keeps_valid: "keeps P m \<longleftrightarrow> valid P m (\<lambda>_. P)"
  by (simp add: keeps_def valid_def case_prod_beta)

lemma keeps_return [keeps_rules]: "keeps P (ret a)"
  by (simp add: keeps_def)

lemma keeps_bind [keeps_rules]:
  "keeps P m \<Longrightarrow> (\<And>a. keeps P (f a)) \<Longrightarrow> keeps P (State_Monad.bind m f)"
  by (auto simp: keeps_def split: prod.splits)

lemma keeps_attempt [keeps_rules]:
  "keeps P m \<Longrightarrow> (\<And>e. keeps P (h e)) \<Longrightarrow> (\<And>x. keeps P (k x)) \<Longrightarrow> keeps P (attempt m h k)"
  unfolding attempt_def by (rule keeps_bind) (auto split: sum.split)

lemma keeps_reads [keeps_rules]: "keeps P (reads f)"
  by (simp add: keeps_def)

lemma keeps_writes: "(\<And>s. P s \<Longrightarrow> P (f s)) \<Longrightarrow> keeps P (writes f)"
  by (simp add: keeps_def)

lemma keeps_if [keeps_rules]: "keeps P m \<Longrightarrow> keeps P n \<Longrightarrow> keeps P (if b then m else n)"
  by simp

lemma keeps_case_option [keeps_rules]:
  "keeps P m \<Longrightarrow> (\<And>x. keeps P (f x)) \<Longrightarrow> keeps P (case z of None \<Rightarrow> m | Some x \<Rightarrow> f x)"
  by (cases z) auto

lemma keeps_case_sum [keeps_rules]:
  "(\<And>e. keeps P (h e)) \<Longrightarrow> (\<And>x. keeps P (k x)) \<Longrightarrow> keeps P (case z of Inl e \<Rightarrow> h e | Inr x \<Rightarrow> k x)"
  by (cases z) auto

lemma keeps_case_prod [keeps_rules]:
  "(\<And>a b. keeps P (f a b)) \<Longrightarrow> keeps P (case z of (a, b) \<Rightarrow> f a b)"
  by (cases z) auto

lemma keeps_for_each [keeps_rules]: "(\<And>x. keeps P (f x)) \<Longrightarrow> keeps P (for_each f xs)"
  by (induction xs) (simp_all add: keeps_return keeps_bind)

lemma leaves_return [leaves_rules]: "leaves f (ret a)"
  by (simp add: leaves_def)

lemma leaves_bind [leaves_rules]:
  "leaves f m \<Longrightarrow> (\<And>a. leaves f (g a)) \<Longrightarrow> leaves f (State_Monad.bind m g)"
  by (simp add: leaves_def split: prod.splits) (metis snd_conv)

lemma leaves_attempt [leaves_rules]:
  "leaves f m \<Longrightarrow> (\<And>e. leaves f (h e)) \<Longrightarrow> (\<And>x. leaves f (k x)) \<Longrightarrow> leaves f (attempt m h k)"
  unfolding attempt_def by (rule leaves_bind) (auto split: sum.split)

lemma leaves_reads [leaves_rules]: "leaves f (reads g)"
  by (simp add: leaves_def)

lemma leaves_writes: "(\<And>s. f (g s) = f s) \<Longrightarrow> leaves f (writes g)"
  by (simp add: leaves_def)

lemma leaves_if [leaves_rules]: "leaves f m \<Longrightarrow> leaves f n \<Longrightarrow> leaves f (if b then m else n)"
  by simp

lemma leaves_case_option [leaves_rules]:
  "leaves f m \<Longrightarrow> (\<And>x. leaves f (g x)) \<Longrightarrow> leaves f (case z of None \<Rightarrow> m | Some x \<Rightarrow> g x)"
  by (cases z) auto

lemma leaves_case_sum [leaves_rules]:
  "(\<And>e. leaves f (h e)) \<Longrightarrow> (\<And>x. leaves f (k x)) \<Longrightarrow> leaves f (case z of Inl e \<Rightarrow> h e | Inr x \<Rightarrow> k x)"
  by (cases z) auto

lemma leaves_case_prod [leaves_rules]:
  "(\<And>a b. leaves f (g a b)) \<Longrightarrow> leaves f (case z of (a, b) \<Rightarrow> g a b)"
  by (cases z) auto

lemma leaves_for_each [leaves_rules]: "(\<And>x. leaves f (g x)) \<Longrightarrow> leaves f (for_each g xs)"
  by (induction xs) (simp_all add: leaves_return leaves_bind)

text \<open>
  All or nothing: a run that returns an error leaves a part of the state as it was.
\<close>

definition all_or_nothing :: "('s \<Rightarrow> 'b) \<Rightarrow> ('s, 'a res) state \<Rightarrow> bool" where
  "all_or_nothing f m \<longleftrightarrow> (\<forall>s e s'. run_state m s = (Inl e, s') \<longrightarrow> f s' = f s)"

lemma all_or_nothingD: "all_or_nothing f m \<Longrightarrow> run_state m s = (Inl e, s') \<Longrightarrow> f s' = f s"
  by (auto simp: all_or_nothing_def)

lemma aon_leaves: "leaves f m \<Longrightarrow> all_or_nothing f m"
  by (auto simp: all_or_nothing_def dest: leavesD)

lemma aon_attempt [atomic_rules]:
  "leaves f m \<Longrightarrow> (\<And>e. leaves f (h e)) \<Longrightarrow> (\<And>x. all_or_nothing f (k x)) \<Longrightarrow> all_or_nothing f (attempt m h k)"
  by (auto simp: all_or_nothing_def run_attempt split: prod.splits sum.splits) (metis leavesD)+

lemma aon_attempt_last:
  "all_or_nothing f m \<Longrightarrow> (\<And>e. leaves f (h e)) \<Longrightarrow> all_or_nothing f (attempt m h (\<lambda>x. ok (g x)))"
  by (auto simp: all_or_nothing_def run_attempt split: prod.splits sum.splits) (metis leavesD)

lemma aon_if [atomic_rules]:
  "all_or_nothing f m \<Longrightarrow> all_or_nothing f n \<Longrightarrow> all_or_nothing f (if b then m else n)"
  by simp

lemma aon_case_prod [atomic_rules]:
  "(\<And>a b. all_or_nothing f (g a b)) \<Longrightarrow> all_or_nothing f (case z of (a, b) \<Rightarrow> g a b)"
  by (cases z) auto

lemma aon_return [atomic_rules]: "all_or_nothing f (ret a)"
  by (simp add: all_or_nothing_def)

section \<open>Rows with a key\<close>

text \<open>
  A table is the list of its rows in insertion order. \<open>lookup_row\<close> is a \<open>SELECT\<close> by
  primary key and \<open>update_rows\<close> an \<open>UPDATE ... SET ... WHERE key = k\<close>.
\<close>

definition lookup_row :: "('r \<Rightarrow> 'k) \<Rightarrow> 'k \<Rightarrow> 'r list \<Rightarrow> 'r option" where
  "lookup_row key k rs = find (\<lambda>r. key r = k) rs"

definition update_rows :: "('r \<Rightarrow> 'k) \<Rightarrow> 'k \<Rightarrow> ('r \<Rightarrow> 'r) \<Rightarrow> 'r list \<Rightarrow> 'r list" where
  "update_rows key k f rs = map (\<lambda>r. if key r = k then f r else r) rs"

lemma find_SomeD: "find P xs = Some x \<Longrightarrow> x \<in> set xs \<and> P x"
  by (auto simp: find_Some_iff)

lemma lookup_row_Some: "lookup_row key k rs = Some r \<Longrightarrow> r \<in> set rs \<and> key r = k"
  by (auto simp: lookup_row_def find_Some_iff)

lemma lookup_row_None: "lookup_row key k rs = None \<longleftrightarrow> k \<notin> key ` set rs"
  by (auto simp: lookup_row_def find_None_iff)

lemma lookup_row_append:
  "lookup_row key k (rs @ qs) =
     (case lookup_row key k rs of None \<Rightarrow> lookup_row key k qs | Some r \<Rightarrow> Some r)"
  by (induction rs) (auto simp: lookup_row_def)

lemma lookup_new_row:
  "k \<notin> key ` set rs \<Longrightarrow> key r = k \<Longrightarrow> lookup_row key k (rs @ [r]) = Some r"
  by (simp add: lookup_row_append lookup_row_None [THEN iffD2]) (simp add: lookup_row_def)

lemma lookup_row_distinct:
  assumes "distinct (map key rs)" and "r \<in> set rs"
  shows "lookup_row key (key r) rs = Some r"
  using assms
proof (induction rs)
  case (Cons q rs)
  then show ?case by (auto simp: lookup_row_def)
qed simp

lemma length_update_rows [simp]: "length (update_rows key k f rs) = length rs"
  by (simp add: update_rows_def)

lemma update_rows_append [simp]:
  "update_rows key k f (rs @ qs) = update_rows key k f rs @ update_rows key k f qs"
  by (simp add: update_rows_def)

lemma update_rows_absent: "k \<notin> key ` set rs \<Longrightarrow> update_rows key k f rs = rs"
  by (induction rs) (auto simp: update_rows_def)

lemma map_update_rows: "(\<And>r. g (f r) = g r) \<Longrightarrow> map g (update_rows key k f rs) = map g rs"
  by (simp add: update_rows_def)

lemma update_rows_single: "update_rows key k f [r] = [if key r = k then f r else r]"
  by (simp add: update_rows_def)

text \<open>An update that keeps the key column: the contract of every \<open>UPDATE\<close> of the program.\<close>

locale row_update =
  fixes key :: "'r \<Rightarrow> 'k" and f :: "'r \<Rightarrow> 'r"
  assumes key_kept: "key (f r) = key r"
begin

lemma map_key_update: "map key (update_rows key k f rs) = map key rs"
  by (simp add: update_rows_def key_kept)

lemma key_image_update: "key ` set (update_rows key k f rs) = key ` set rs"
  by (metis list.set_map map_key_update)

lemma distinct_update: "distinct (map key rs) \<Longrightarrow> distinct (map key (update_rows key k f rs))"
  by (simp add: map_key_update)

lemma lookup_update:
  "lookup_row key j (update_rows key k f rs) =
     (if j = k then map_option f (lookup_row key k rs) else lookup_row key j rs)"
  by (induction rs) (auto simp: lookup_row_def update_rows_def key_kept)

lemma lookup_update_same:
  "lookup_row key k rs = Some r \<Longrightarrow> lookup_row key k (update_rows key k f rs) = Some (f r)"
  by (simp add: lookup_update)

lemma lookup_update_other:
  "j \<noteq> k \<Longrightarrow> lookup_row key j (update_rows key k f rs) = lookup_row key j rs"
  by (simp add: lookup_update)

end

section \<open>Batch workers\<close>

text \<open>
  The background workers read a batch of rows and then handle its items one after the other,
  each item at most moving its own row along a step relation. \<open>moved\<close> says that the listed
  rows took at most one step and that no other row changed.
\<close>

definition moved :: "('r \<Rightarrow> 'k) \<Rightarrow> ('r \<Rightarrow> 'r \<Rightarrow> bool) \<Rightarrow> 'k set \<Rightarrow> 'r list \<Rightarrow> 'r list \<Rightarrow> bool" where
  "moved key step ids vs vs' \<longleftrightarrow> list_all2 (\<lambda>v v'. v' = v \<or> key v \<in> ids \<and> step v v') vs vs'"

lemma moved_refl [simp]: "moved key step ids vs vs"
  by (simp add: moved_def list_all2_refl)

lemma moved_mono: "moved key step ids vs vs' \<Longrightarrow> ids \<subseteq> ids' \<Longrightarrow> moved key step ids' vs vs'"
  unfolding moved_def by (erule list_all2_mono) auto

lemma moved_column:
  "(\<And>v v'. step v v' \<Longrightarrow> g v' = g v) \<Longrightarrow> moved key step ids vs vs' \<Longrightarrow> map g vs' = map g vs"
  unfolding moved_def by (rotate_tac, induction rule: list_all2_induct) auto

lemma moved_inv:
  "(\<And>v v'. step v v' \<Longrightarrow> P v \<Longrightarrow> P v') \<Longrightarrow> moved key step ids vs vs' \<Longrightarrow> \<forall>v \<in> set vs. P v \<Longrightarrow> \<forall>v \<in> set vs'. P v"
  unfolding moved_def by (rotate_tac, induction rule: list_all2_induct) auto

lemma moved_other:
  assumes "moved key step ids vs vs'" and "v \<in> set vs" and "key v \<notin> ids"
  shows "v \<in> set vs'"
  using assms unfolding moved_def by (induction rule: list_all2_induct) auto

locale row_steps =
  fixes key :: "'r \<Rightarrow> 'k" and step :: "'r \<Rightarrow> 'r \<Rightarrow> bool"
  assumes step_key: "step v v' \<Longrightarrow> key v' = key v"
begin

lemma moved_keys: "moved key step ids vs vs' \<Longrightarrow> map key vs' = map key vs"
  by (rule moved_column [OF step_key])

lemma moved_trans:
  assumes "moved key step ids vs vs'" and "moved key step ids' vs' vs''" and "ids \<inter> ids' = {}"
  shows "moved key step (ids \<union> ids') vs vs''"
proof -
  have "list_all2 (\<lambda>v v'. v' = v \<or> key v \<in> ids \<union> ids' \<and> step v v') vs vs''"
    by (rule list_all2_trans [OF _ assms(1,2) [unfolded moved_def]])
       (use assms(3) step_key in \<open>metis UnCI disjoint_iff\<close>)
  then show ?thesis by (simp add: moved_def)
qed

lemma moved_update:
  assumes "distinct (map key vs)" and "v \<in> set vs" and "step v (f v)"
  shows "moved key step {key v} vs (update_rows key (key v) f vs)"
proof -
  have same: "u = v" if "u \<in> set vs" "key u = key v" for u
    using that assms(1,2) by (metis distinct_map inj_onD)
  show ?thesis
    unfolding moved_def update_rows_def
    by (auto simp: list_all2_map2 list_all2_same dest!: same intro: assms(3))
qed

end

locale batch_worker = row_steps key step
  for key :: "'r \<Rightarrow> 'k" and step :: "'r \<Rightarrow> 'r \<Rightarrow> bool" +
  fixes rows :: "'s \<Rightarrow> 'r list" and item :: "'p \<Rightarrow> 's \<Rightarrow> 's" and pkey :: "'p \<Rightarrow> 'k"
    and matches :: "'p \<Rightarrow> 'r \<Rightarrow> bool"
  assumes match_key: "matches p v \<Longrightarrow> pkey p = key v"
    and item_moved: "distinct (map key (rows s)) \<Longrightarrow> v \<in> set (rows s) \<Longrightarrow> matches p v \<Longrightarrow>
      moved key step {pkey p} (rows s) (rows (item p s))"
begin

lemma batch_moved:
  assumes "distinct (map key (rows s))" and "distinct (map pkey ps)"
    and "\<forall>p \<in> set ps. \<exists>v \<in> set (rows s). matches p v"
  shows "moved key step (pkey ` set ps) (rows s) (rows (fold item ps s))"
  using assms
proof (induction ps arbitrary: s)
  case (Cons p ps)
  then obtain v where v: "v \<in> set (rows s)" "matches p v" by auto
  let ?s = "item p s"
  have mv: "moved key step {pkey p} (rows s) (rows ?s)" using item_moved Cons.prems(1) v by blast
  have d: "distinct (map key (rows ?s))" using moved_keys [OF mv] Cons.prems(1) by simp
  have "\<exists>u \<in> set (rows ?s). matches q u" if q: "q \<in> set ps" for q
  proof -
    from q Cons.prems(3) obtain u where u: "u \<in> set (rows s)" "matches q u" by auto
    from q Cons.prems(2) have "pkey q \<noteq> pkey p" by (metis distinct.simps(2) image_eqI list.set_map list.simps(9))
    with u moved_other [OF mv u(1)] show ?thesis by (auto simp: match_key [OF u(2)])
  qed
  with Cons.IH [OF d] Cons.prems(2) have "moved key step (pkey ` set ps) (rows ?s) (rows (fold item ps ?s))" by auto
  from moved_trans [OF mv this] Cons.prems(2) show ?case by auto
qed simp

end

end
