(* ===== verification/GoLib.thy ===== *)
theory GoLib
  imports Prelude "HOL-Library.Sublist"
begin

text \<open>
  The parts of Go's standard library the program computes with: \<open>strings\<close> (trimming,
  prefixes, search), \<open>math/big\<close> and \<open>strconv\<close> decimal conversion, \<open>encoding/hex\<close> and
  \<open>encoding/base64\<close>. Each function is executable, and the lemmas give the round trips and
  bounds the components use.
\<close>

section \<open>strings\<close>

definition HasPrefix :: "string \<Rightarrow> string \<Rightarrow> bool" where
  "HasPrefix s p = (take (length p) s = p)"

definition TrimPrefix :: "string \<Rightarrow> string \<Rightarrow> string" where
  "TrimPrefix s p = (if HasPrefix s p then drop (length p) s else s)"

definition HasSuffix :: "string \<Rightarrow> string \<Rightarrow> bool" where
  "HasSuffix s p = (length p \<le> length s \<and> drop (length s - length p) s = p)"

definition TrimSuffix :: "string \<Rightarrow> string \<Rightarrow> string" where
  "TrimSuffix s p = (if HasSuffix s p then take (length s - length p) s else s)"

text \<open>\<open>strings.Index\<close>: the first position of a substring, \<open>None\<close> for the code's -1.\<close>

fun Index :: "string \<Rightarrow> string \<Rightarrow> nat option" where
  "Index [] p = (if p = [] then Some 0 else None)"
| "Index (c # s) p = (if HasPrefix (c # s) p then Some 0 else map_option Suc (Index s p))"

text \<open>
  \<open>strings.TrimSpace\<close> removes the Unicode white space at both ends; the UTF-8 encodings of
  those code points are listed here.
\<close>

definition white_space :: "string list" where
  "white_space =
     [[CHR 0x09], [CHR 0x0A], [CHR 0x0B], [CHR 0x0C], [CHR 0x0D], [CHR 0x20],
      [CHR 0xC2, CHR 0x85], [CHR 0xC2, CHR 0xA0], [CHR 0xE1, CHR 0x9A, CHR 0x80],
      [CHR 0xE2, CHR 0x80, CHR 0x80], [CHR 0xE2, CHR 0x80, CHR 0x81], [CHR 0xE2, CHR 0x80, CHR 0x82],
      [CHR 0xE2, CHR 0x80, CHR 0x83], [CHR 0xE2, CHR 0x80, CHR 0x84], [CHR 0xE2, CHR 0x80, CHR 0x85],
      [CHR 0xE2, CHR 0x80, CHR 0x86], [CHR 0xE2, CHR 0x80, CHR 0x87], [CHR 0xE2, CHR 0x80, CHR 0x88],
      [CHR 0xE2, CHR 0x80, CHR 0x89], [CHR 0xE2, CHR 0x80, CHR 0x8A], [CHR 0xE2, CHR 0x80, CHR 0xA8],
      [CHR 0xE2, CHR 0x80, CHR 0xA9], [CHR 0xE2, CHR 0x80, CHR 0xAF], [CHR 0xE2, CHR 0x81, CHR 0x9F],
      [CHR 0xE3, CHR 0x80, CHR 0x80]]"

function trim_left :: "string \<Rightarrow> string" where
  "trim_left s =
     (case find (\<lambda>w. HasPrefix s w \<and> w \<noteq> []) white_space of
        None \<Rightarrow> s
      | Some w \<Rightarrow> if s = [] then s else trim_left (drop (length w) s))"
  by pat_completeness auto
termination
  by (relation "measure length") (auto simp: find_Some_iff)

function trim_right :: "string \<Rightarrow> string" where
  "trim_right s =
     (case find (\<lambda>w. HasSuffix s w \<and> w \<noteq> []) white_space of
        None \<Rightarrow> s
      | Some w \<Rightarrow> if s = [] then s else trim_right (take (length s - length w) s))"
  by pat_completeness auto
termination
  by (relation "measure length") (auto simp: find_Some_iff)

declare trim_left.simps [simp del] trim_right.simps [simp del]

definition TrimSpace :: "string \<Rightarrow> string" where
  "TrimSpace s = trim_right (trim_left s)"

text \<open>\<open>strings.ToLower\<close> and \<open>strings.ToUpper\<close>, which the program applies to ASCII text only.\<close>

definition lower_char :: "char \<Rightarrow> char" where
  "lower_char c = (let n = (of_char c :: nat) in if 65 \<le> n \<and> n \<le> 90 then char_of (n + 32) else c)"

definition upper_char :: "char \<Rightarrow> char" where
  "upper_char c = (let n = (of_char c :: nat) in if 97 \<le> n \<and> n \<le> 122 then char_of (n - 32) else c)"

definition ToLower :: "string \<Rightarrow> string" where
  "ToLower = map lower_char"

definition ToUpper :: "string \<Rightarrow> string" where
  "ToUpper = map upper_char"

section \<open>Decimal numbers\<close>

definition is_digit :: "char \<Rightarrow> bool" where
  "is_digit c = (let n = (of_char c :: nat) in 48 \<le> n \<and> n \<le> 57)"

definition digit_val :: "char \<Rightarrow> nat" where
  "digit_val c = (of_char c :: nat) - 48"

definition digit_char :: "nat \<Rightarrow> char" where
  "digit_char d = char_of (48 + d)"

definition parse_digits :: "string \<Rightarrow> nat option" where
  "parse_digits s =
     (if s \<noteq> [] \<and> list_all is_digit s then Some (foldl (\<lambda>n c. 10 * n + digit_val c) 0 s) else None)"

fun show_nat :: "nat \<Rightarrow> string" where
  "show_nat n = (if n < 10 then [digit_char n] else show_nat (n div 10) @ [digit_char (n mod 10)])"

declare show_nat.simps [simp del]

text \<open>\<open>big.Int.String\<close>, and \<open>big.Int.SetString(s, 10)\<close> with \<open>None\<close> for \<open>ok = false\<close>.\<close>

definition big_String :: "int \<Rightarrow> string" where
  "big_String v = (if v < 0 then ''-'' @ show_nat (nat (- v)) else show_nat (nat v))"

fun SetString10 :: "string \<Rightarrow> int option" where
  "SetString10 [] = None"
| "SetString10 (c # s) =
     (if c = CHR ''-'' then map_option (\<lambda>n. - int n) (parse_digits s)
      else if c = CHR ''+'' then map_option int (parse_digits s)
      else map_option int (parse_digits (c # s)))"

text \<open>\<open>strconv.ParseUint(s, 10, 64)\<close>: digits only, in range.\<close>

definition ParseUint64 :: "string \<Rightarrow> uint64 option" where
  "ParseUint64 s =
     (case parse_digits s of None \<Rightarrow> None | Some n \<Rightarrow> if n < 2 ^ 64 then Some (of_nat n) else None)"

section \<open>Hexadecimal text\<close>

definition hex_digit :: "nat \<Rightarrow> char" where
  "hex_digit d = (if d < 10 then char_of (48 + d) else char_of (87 + d))"

definition hex_val :: "char \<Rightarrow> nat option" where
  "hex_val c =
     (let n = (of_char c :: nat) in
      if 48 \<le> n \<and> n \<le> 57 then Some (n - 48)
      else if 97 \<le> n \<and> n \<le> 102 then Some (n - 87)
      else if 65 \<le> n \<and> n \<le> 70 then Some (n - 55)
      else None)"

definition hex_byte :: "char \<Rightarrow> string" where
  "hex_byte c = (let n = (of_char c :: nat) in [hex_digit (n div 16), hex_digit (n mod 16)])"

text \<open>\<open>hex.EncodeToString\<close>.\<close>

definition hex_EncodeToString :: "bytes \<Rightarrow> string" where
  "hex_EncodeToString bs = concat (map hex_byte bs)"

definition hex_upper :: "nat \<Rightarrow> char" where
  "hex_upper d = upper_char (hex_digit d)"

text \<open>The text of \<open>hex.InvalidByteError\<close>, which prints the byte as a code point (\<open>%#U\<close>).\<close>

definition invalid_byte_text :: "char \<Rightarrow> string" where
  "invalid_byte_text c =
     (let n = (of_char c :: nat);
          code = ''U+00'' @ [hex_upper (n div 16), hex_upper (n mod 16)];
          utf8 = (if n < 128 then [c]
                  else [char_of (192 + n div 64), char_of (128 + n mod 64)]);
          printable = (32 \<le> n \<and> n < 127 \<or> 161 \<le> n \<and> n \<noteq> 173)
      in ''encoding/hex: invalid byte: '' @ code @
         (if printable then '' '' @ [CHR 0x27] @ utf8 @ [CHR 0x27] else []))"

text \<open>\<open>hex.DecodeString\<close>: pairs are decoded left to right, an odd rest is an error.\<close>

fun hex_DecodeString :: "string \<Rightarrow> bytes res" where
  "hex_DecodeString [] = Inr []"
| "hex_DecodeString [c] =
     (case hex_val c of None \<Rightarrow> Inl (ErrMsg (invalid_byte_text c))
      | Some _ \<Rightarrow> Inl (ErrMsg ''encoding/hex: odd length hex string''))"
| "hex_DecodeString (a # b # s) =
     (case hex_val a of None \<Rightarrow> Inl (ErrMsg (invalid_byte_text a))
      | Some h \<Rightarrow> (case hex_val b of None \<Rightarrow> Inl (ErrMsg (invalid_byte_text b))
         | Some l \<Rightarrow> (case hex_DecodeString s of Inl e \<Rightarrow> Inl e
             | Inr bs \<Rightarrow> Inr (char_of (16 * h + l) # bs))))"

section \<open>base64.RawURLEncoding\<close>

definition b64_char :: "nat \<Rightarrow> char" where
  "b64_char n =
     (if n < 26 then char_of (65 + n) else if n < 52 then char_of (71 + n)
      else if n < 62 then char_of (n - 4) else if n = 62 then CHR ''-'' else CHR ''_'')"

fun b64_RawURL :: "bytes \<Rightarrow> string" where
  "b64_RawURL [] = []"
| "b64_RawURL [a] =
     (let n = (of_char a :: nat) * 16 in [b64_char (n div 64), b64_char (n mod 64)])"
| "b64_RawURL [a, b] =
     (let n = ((of_char a :: nat) * 256 + of_char b) * 4
      in [b64_char (n div 4096), b64_char (n div 64 mod 64), b64_char (n mod 64)])"
| "b64_RawURL (a # b # c # s) =
     (let n = ((of_char a :: nat) * 256 + of_char b) * 256 + of_char c
      in b64_char (n div 262144) # b64_char (n div 4096 mod 64) # b64_char (n div 64 mod 64)
         # b64_char (n mod 64) # b64_RawURL s)"

section \<open>Facts about the library\<close>

lemma HasPrefix_iff: "HasPrefix s p \<longleftrightarrow> (\<exists>t. s = p @ t)"
  by (metis HasPrefix_def append_eq_conv_conj append_take_drop_id)

lemma HasPrefix_append [simp]: "HasPrefix (p @ t) p"
  by (simp add: HasPrefix_def)

lemma TrimPrefix_append [simp]: "TrimPrefix (p @ t) p = t"
  by (simp add: TrimPrefix_def)

lemma HasSuffix_iff: "HasSuffix s p \<longleftrightarrow> (\<exists>t. s = t @ p)"
  by (auto simp: HasSuffix_def) (metis append_take_drop_id)

lemma TrimSuffix_append [simp]: "TrimSuffix (t @ p) p = t"
  by (simp add: TrimSuffix_def HasSuffix_def)

lemma Index_Some:
  "Index s p = Some i \<Longrightarrow> \<exists>t. s = take i s @ p @ t \<and> (\<forall>j < i. \<not> HasPrefix (drop j s) p)"
proof (induction s p arbitrary: i rule: Index.induct)
  case (1 p)
  then show ?case by (auto split: if_splits)
next
  case (2 c s p)
  show ?case
  proof (cases "HasPrefix (c # s) p")
    case True
    with "2.prems" show ?thesis by (auto simp: HasPrefix_iff)
  next
    case False
    with "2.prems" obtain k where k: "Index s p = Some k" and i: "i = Suc k" by auto
    from "2.IH" [OF False k] obtain t where t: "s = take k s @ p @ t"
      and none: "\<forall>j < k. \<not> HasPrefix (drop j s) p" by blast
    have "\<forall>j < Suc k. \<not> HasPrefix (drop j (c # s)) p"
      using False none by (auto simp: drop_Cons split: nat.splits)
    with t i show ?thesis by auto
  qed
qed

lemma Index_None: "Index s p = None \<Longrightarrow> \<not> sublist p s"
proof (induction s p rule: Index.induct)
  case (2 c s p)
  then have "\<not> prefix p (c # s)" by (auto simp: HasPrefix_iff prefix_def split: if_splits)
  moreover from 2 have "\<not> sublist p s" by (auto split: if_splits)
  ultimately show ?case by (auto simp: sublist_Cons_right)
qed (auto split: if_splits)

lemma length_TrimSpace: "length (TrimSpace s) \<le> length s"
proof -
  have "length (trim_right s) \<le> length s" for s
  proof (induction s rule: trim_right.induct)
    case (1 s)
    then show ?case
      by (subst trim_right.simps) (auto split: option.splits intro: order.trans)
  qed
  moreover have "length (trim_left s) \<le> length s" for s
  proof (induction s rule: trim_left.induct)
    case (1 s)
    then show ?case
      by (subst trim_left.simps) (auto split: option.splits intro: order.trans)
  qed
  ultimately show ?thesis unfolding TrimSpace_def using order.trans by blast
qed

lemma digit_char_round [simp]: "d < 10 \<Longrightarrow> is_digit (digit_char d) \<and> digit_val (digit_char d) = d"
  by (simp add: is_digit_def digit_val_def digit_char_def Let_def)

lemma show_nat_nonempty [simp]: "show_nat n \<noteq> []"
  by (subst show_nat.simps) simp

lemma show_nat_digits: "list_all is_digit (show_nat n)"
proof (induction n rule: show_nat.induct)
  case (1 n)
  then show ?case by (subst show_nat.simps) auto
qed

lemma foldl_show_nat: "foldl (\<lambda>n c. 10 * n + digit_val c) 0 (show_nat n) = n"
proof (induction n rule: show_nat.induct)
  case (1 n)
  then show ?case by (subst show_nat.simps) auto
qed

lemma parse_show_nat [simp]: "parse_digits (show_nat n) = Some n"
  by (simp add: parse_digits_def show_nat_digits foldl_show_nat)

lemma show_nat_hd_digit: "is_digit (hd (show_nat n))"
  using show_nat_digits [of n] by (cases "show_nat n") auto

lemma SetString_String [simp]: "SetString10 (big_String v) = Some v"
proof (cases "v < 0")
  case True
  then show ?thesis by (simp add: big_String_def)
next
  case False
  obtain c s where cs: "show_nat (nat v) = c # s" by (cases "show_nat (nat v)") auto
  have "is_digit c" using show_nat_hd_digit [of "nat v"] cs by simp
  then have "c \<noteq> CHR ''-'' \<and> c \<noteq> CHR ''+''" by (auto simp: is_digit_def)
  moreover have "parse_digits (c # s) = Some (nat v)" by (metis cs parse_show_nat)
  ultimately show ?thesis using False by (simp add: big_String_def cs)
qed

lemma big_String_nonempty [simp]: "big_String v \<noteq> []"
  by (simp add: big_String_def)

lemma big_String_inj: "big_String a = big_String b \<longleftrightarrow> a = b"
  by (metis SetString_String option.inject)

lemma ParseUint64_bound: "ParseUint64 s = Some w \<Longrightarrow> parse_digits s = Some (unat w)"
  by (auto simp: ParseUint64_def unat_of_nat split: option.splits if_splits)

lemma ParseUint64_show: "ParseUint64 (show_nat (unat w)) = Some w"
proof -
  have "unat w < 2 ^ LENGTH(64)" by (rule unsigned_less)
  then have "unat w < 2 ^ 64" by simp
  then show ?thesis by (simp add: ParseUint64_def)
qed

lemma hex_val_digit [simp]: "d < 16 \<Longrightarrow> hex_val (hex_digit d) = Some d"
  by (simp add: hex_val_def hex_digit_def Let_def)

lemma hex_byte_round:
  "hex_DecodeString (hex_byte c @ s) =
     (case hex_DecodeString s of Inl e \<Rightarrow> Inl e | Inr bs \<Rightarrow> Inr (c # bs))"
proof -
  have n: "(of_char c :: nat) < 256" by simp
  have "(of_char c :: nat) div 16 < 16" using n by linarith
  moreover have "(of_char c :: nat) mod 16 < 16" by simp
  moreover have "16 * ((of_char c :: nat) div 16) + (of_char c :: nat) mod 16 = of_char c" by simp
  ultimately show ?thesis by (simp add: hex_byte_def Let_def split: sum.split)
qed

lemma hex_round [simp]: "hex_DecodeString (hex_EncodeToString bs) = Inr bs"
  by (induction bs) (simp_all add: hex_EncodeToString_def hex_byte_round)

lemma length_hex_Encode [simp]: "length (hex_EncodeToString bs) = 2 * length bs"
  by (induction bs) (simp_all add: hex_EncodeToString_def hex_byte_def Let_def)

lemma length_hex_Decode: "hex_DecodeString s = Inr bs \<Longrightarrow> length s = 2 * length bs"
  by (induction s arbitrary: bs rule: hex_DecodeString.induct) (auto split: option.splits sum.splits)

lemma length_b64: "length (b64_RawURL bs) = (4 * length bs + 2) div 3"
  by (induction bs rule: b64_RawURL.induct) (simp_all add: Let_def)

end
