(* ===== verification/Schema.thy ===== *)
theory Schema
  imports GoLib "HOL-Library.List_Lexorder" "HOL-Library.Char_ord"
    "HOL-Library.Product_Lexorder"
begin

text \<open>
  The Postgres schema of \<open>migrations/*.sql\<close>: one record per table row, a database as the
  lists of its rows, and the \<open>INSERT\<close> of each table with the constraints the migrations
  declare (primary keys, unique indexes, foreign keys and checks). The invariant
  \<open>db_wf\<close> says the constraints hold, and every insert keeps it.
\<close>

section \<open>Column types\<close>

text \<open>
  \<open>NUMERIC(78, 0)\<close> holds an integer or the value \<open>NaN\<close>, which Postgres orders above every
  number. Timestamps are microseconds.
\<close>

datatype numeric = Num int | NaN

fun numeric_positive :: "numeric \<Rightarrow> bool" where
  "numeric_positive (Num v) = (0 < v)"
| "numeric_positive NaN = True"

fun numeric_text :: "numeric \<Rightarrow> string" where
  "numeric_text (Num v) = big_String v"
| "numeric_text NaN = ''NaN''"

datatype request_status = ReqPending | ReqRejected | ReqSubmitted | ReqConfirmed | ReqReverted | ReqFailed

datatype attempt_status = AttSubmitting | AttSubmitted | AttFailed | AttConfirmed | AttReverted

datatype delivery_status = DelPending | DelDelivered | DelDead

datatype gas_status = GasSubmitted | GasConfirmed | GasReverted | GasFailed

text \<open>\<open>NULLIF(x, '')\<close> and \<open>NULLIF(x, 0)\<close>.\<close>

definition nullif_empty :: "string \<Rightarrow> string option" where
  "nullif_empty s = (if s = [] then None else Some s)"

definition nullif_zero :: "int \<Rightarrow> int option" where
  "nullif_zero n = (if n = 0 then None else Some n)"

text \<open>
  A \<open>TEXT\<close> value is valid UTF-8 without the NUL character; the server rejects anything else.
\<close>

definition cont_byte :: "char \<Rightarrow> bool" where
  "cont_byte c = (let n = (of_char c :: nat) in 128 \<le> n \<and> n \<le> 191)"

fun pg_text_ok :: "string \<Rightarrow> bool" where
  "pg_text_ok [] = True"
| "pg_text_ok (a # s) =
     (let n = (of_char a :: nat) in
      if n = 0 then False
      else if n < 128 then pg_text_ok s
      else if 194 \<le> n \<and> n \<le> 223 then (case s of b # s1 \<Rightarrow> cont_byte b \<and> pg_text_ok s1 | _ \<Rightarrow> False)
      else if 224 \<le> n \<and> n \<le> 239 then
        (case s of b # c # s1 \<Rightarrow> cont_byte b \<and> cont_byte c \<and>
             (n = 224 \<longrightarrow> 160 \<le> (of_char b :: nat)) \<and> (n = 237 \<longrightarrow> (of_char b :: nat) < 160) \<and> pg_text_ok s1
         | _ \<Rightarrow> False)
      else if 240 \<le> n \<and> n \<le> 244 then
        (case s of b # c # e # s1 \<Rightarrow> cont_byte b \<and> cont_byte c \<and> cont_byte e \<and>
             (n = 240 \<longrightarrow> 144 \<le> (of_char b :: nat)) \<and> (n = 244 \<longrightarrow> (of_char b :: nat) < 144) \<and> pg_text_ok s1
         | _ \<Rightarrow> False)
      else False)"

definition text_param :: "string \<Rightarrow> 'a res \<Rightarrow> 'a res" where
  "text_param s r = (if pg_text_ok s then r else Inl (ErrBadValue ''invalid byte sequence for encoding UTF8''))"

text \<open>The regular expressions \<open>^0x[0-9a-f]{40}$\<close> and \<open>^0x[0-9a-f]{64}$\<close>.\<close>

definition lower_hex_char :: "char \<Rightarrow> bool" where
  "lower_hex_char c = (let n = (of_char c :: nat) in 48 \<le> n \<and> n \<le> 57 \<or> 97 \<le> n \<and> n \<le> 102)"

definition hex_check :: "nat \<Rightarrow> string \<Rightarrow> bool" where
  "hex_check k s = (HasPrefix s ''0x'' \<and> length s = k + 2 \<and> list_all lower_hex_char (drop 2 s))"

section \<open>Rows\<close>

record apps_row =
  a_id :: string
  a_name :: string
  a_treasury_address :: string
  a_bearer_token_hash :: bytes
  a_pool_size :: int
  a_default_callback_url :: "string option"
  a_default_callback_secret :: "string option"
  a_signer_min_balance :: numeric
  a_signer_refill_amount :: numeric
  a_treasury_min_balance :: numeric
  a_disabled :: bool
  a_created_at :: int

record signers_row =
  s_address :: string
  s_app_id :: string
  s_created_at :: int
  s_last_used_at :: "int option"

record relay_row =
  r_id :: string
  r_app_id :: string
  r_chain_id :: int
  r_to_address :: string
  r_call_data :: bytes
  r_value :: numeric
  r_gas_limit :: "int option"
  r_deadline :: "int option"
  r_callback_url :: "string option"
  r_callback_metadata :: "string option"
  r_status :: request_status
  r_created_at :: int
  r_updated_at :: int

record attempt_row =
  t_id :: string
  t_request_id :: string
  t_signer_address :: string
  t_nonce :: int
  t_tx_hash :: string
  t_gas_price :: numeric
  t_status :: attempt_status
  t_submitted_at :: int
  t_block_number :: "int option"
  t_gas_used :: "int option"
  t_effective_gas_price :: "numeric option"
  t_logs :: "bytes option"
  t_revert_reason :: "string option"

record delivery_row =
  d_id :: string
  d_request_id :: string
  d_url :: string
  d_payload :: bytes
  d_signature :: string
  d_attempt :: int
  d_status :: delivery_status
  d_response_code :: "int option"
  d_last_error :: "string option"
  d_created_at :: int
  d_next_attempt_at :: int

record gas_row =
  g_id :: string
  g_app_id :: string
  g_signer_address :: string
  g_nonce :: int
  g_tx_hash :: string
  g_amount :: numeric
  g_gas_price :: numeric
  g_status :: gas_status
  g_submitted_at :: int

record database =
  apps :: "apps_row list"
  signers :: "signers_row list"
  relay_requests :: "relay_row list"
  tx_attempts :: "attempt_row list"
  webhook_deliveries :: "delivery_row list"
  gas_attempts :: "gas_row list"

definition empty_db :: database where
  "empty_db = \<lparr>apps = [], signers = [], relay_requests = [], tx_attempts = [],
               webhook_deliveries = [], gas_attempts = []\<rparr>"

section \<open>INSERT with its constraints\<close>

definition insert_app_row :: "apps_row \<Rightarrow> database \<Rightarrow> database res" where
  "insert_app_row a d =
     (if \<not> hex_check 40 (a_treasury_address a) then Inl (ErrCheckViolation ''apps_treasury_address_check'')
      else if \<not> 0 < a_pool_size a then Inl (ErrCheckViolation ''apps_pool_size_check'')
      else if a_id a \<in> a_id ` set (apps d) then Inl (ErrUniqueViolation ''apps_pkey'')
      else if a_bearer_token_hash a \<in> a_bearer_token_hash ` set (apps d)
        then Inl (ErrUniqueViolation ''apps_bearer_token_hash_key'')
      else Inr (d\<lparr>apps := apps d @ [a]\<rparr>))"

definition insert_signer_row :: "signers_row \<Rightarrow> database \<Rightarrow> database res" where
  "insert_signer_row s d =
     (if \<not> hex_check 40 (s_address s) then Inl (ErrCheckViolation ''signers_address_check'')
      else if s_address s \<in> s_address ` set (signers d) then Inl (ErrUniqueViolation ''signers_pkey'')
      else if s_app_id s \<notin> a_id ` set (apps d) then Inl (ErrForeignKey ''signers_app_id_fkey'')
      else Inr (d\<lparr>signers := signers d @ [s]\<rparr>))"

definition insert_relay_row :: "relay_row \<Rightarrow> database \<Rightarrow> database res" where
  "insert_relay_row r d =
     (if \<not> hex_check 40 (r_to_address r) then Inl (ErrCheckViolation ''relay_requests_to_address_check'')
      else if r_id r \<in> r_id ` set (relay_requests d) then Inl (ErrUniqueViolation ''relay_requests_pkey'')
      else if r_app_id r \<notin> a_id ` set (apps d) then Inl (ErrForeignKey ''relay_requests_app_id_fkey'')
      else Inr (d\<lparr>relay_requests := relay_requests d @ [r]\<rparr>))"

definition insert_attempt_row :: "attempt_row \<Rightarrow> database \<Rightarrow> database res" where
  "insert_attempt_row t d =
     (if \<not> hex_check 40 (t_signer_address t) then Inl (ErrCheckViolation ''tx_attempts_signer_address_check'')
      else if \<not> hex_check 64 (t_tx_hash t) then Inl (ErrCheckViolation ''tx_attempts_tx_hash_check'')
      else if t_id t \<in> t_id ` set (tx_attempts d) then Inl (ErrUniqueViolation ''tx_attempts_pkey'')
      else if t_tx_hash t \<in> t_tx_hash ` set (tx_attempts d)
        then Inl (ErrUniqueViolation ''tx_attempts_tx_hash_key'')
      else if t_request_id t \<notin> r_id ` set (relay_requests d)
        then Inl (ErrForeignKey ''tx_attempts_request_id_fkey'')
      else Inr (d\<lparr>tx_attempts := tx_attempts d @ [t]\<rparr>))"

definition insert_delivery_row :: "delivery_row \<Rightarrow> database \<Rightarrow> database res" where
  "insert_delivery_row v d =
     (if d_id v \<in> d_id ` set (webhook_deliveries d) then Inl (ErrUniqueViolation ''webhook_deliveries_pkey'')
      else if d_request_id v \<notin> r_id ` set (relay_requests d)
        then Inl (ErrForeignKey ''webhook_deliveries_request_id_fkey'')
      else Inr (d\<lparr>webhook_deliveries := webhook_deliveries d @ [v]\<rparr>))"

definition insert_gas_row :: "gas_row \<Rightarrow> database \<Rightarrow> database res" where
  "insert_gas_row g d =
     (if \<not> hex_check 40 (g_signer_address g) then Inl (ErrCheckViolation ''gas_attempts_signer_address_check'')
      else if \<not> hex_check 64 (g_tx_hash g) then Inl (ErrCheckViolation ''gas_attempts_tx_hash_check'')
      else if g_id g \<in> g_id ` set (gas_attempts d) then Inl (ErrUniqueViolation ''gas_attempts_pkey'')
      else if g_tx_hash g \<in> g_tx_hash ` set (gas_attempts d)
        then Inl (ErrUniqueViolation ''gas_attempts_tx_hash_key'')
      else if g_app_id g \<notin> a_id ` set (apps d) then Inl (ErrForeignKey ''gas_attempts_app_id_fkey'')
      else Inr (d\<lparr>gas_attempts := gas_attempts d @ [g]\<rparr>))"

section \<open>UPDATE statements\<close>

text \<open>
  The trigger \<open>relay_requests_set_updated_at\<close> stamps every update of \<open>relay_requests\<close>
  with \<open>NOW()\<close>.
\<close>

definition set_request_status :: "request_status \<Rightarrow> int \<Rightarrow> relay_row \<Rightarrow> relay_row" where
  "set_request_status st now r = r\<lparr>r_status := st, r_updated_at := now\<rparr>"

definition set_attempt_status :: "attempt_status \<Rightarrow> attempt_row \<Rightarrow> attempt_row" where
  "set_attempt_status st t = t\<lparr>t_status := st\<rparr>"

definition update_request_status :: "request_status \<Rightarrow> int \<Rightarrow> string \<Rightarrow> database \<Rightarrow> database" where
  "update_request_status st now i d =
     d\<lparr>relay_requests := update_rows r_id i (set_request_status st now) (relay_requests d)\<rparr>"

definition update_attempt_status :: "attempt_status \<Rightarrow> string \<Rightarrow> database \<Rightarrow> database" where
  "update_attempt_status st i d =
     d\<lparr>tx_attempts := update_rows t_id i (set_attempt_status st) (tx_attempts d)\<rparr>"

section \<open>Row order\<close>

text \<open>
  \<open>ORDER BY key\<close> as a stable insertion sort over the rows, and \<open>LIMIT n\<close>.
\<close>

definition limit_to :: "int \<Rightarrow> (nat \<Rightarrow> 'a) \<Rightarrow> 'a res" where
  "limit_to n q = (if n < 0 then Inl (ErrBadValue ''LIMIT must not be negative'') else Inr (q (nat n)))"

definition order_by :: "('r \<Rightarrow> 'k::linorder) \<Rightarrow> 'r list \<Rightarrow> 'r list" where
  "order_by key rs = sort_key key rs"

lemma set_order_by [simp]: "set (order_by key rs) = set rs"
  by (simp add: order_by_def)

lemma mset_order_by [simp]: "mset (order_by key rs) = mset rs"
  by (simp add: order_by_def)

lemma length_order_by [simp]: "length (order_by key rs) = length rs"
  by (simp add: order_by_def)

lemma distinct_order_by: "distinct (map f (order_by key rs)) \<longleftrightarrow> distinct (map f rs)"
  by (rule mset_eq_imp_distinct_iff) simp

section \<open>The schema invariant\<close>

definition db_wf :: "database \<Rightarrow> bool" where
  "db_wf d \<longleftrightarrow>
     distinct (map a_id (apps d)) \<and> distinct (map a_bearer_token_hash (apps d)) \<and>
     distinct (map s_address (signers d)) \<and> distinct (map r_id (relay_requests d)) \<and>
     distinct (map t_id (tx_attempts d)) \<and> distinct (map t_tx_hash (tx_attempts d)) \<and>
     distinct (map d_id (webhook_deliveries d)) \<and> distinct (map g_id (gas_attempts d)) \<and>
     distinct (map g_tx_hash (gas_attempts d)) \<and>
     s_app_id ` set (signers d) \<subseteq> a_id ` set (apps d) \<and>
     r_app_id ` set (relay_requests d) \<subseteq> a_id ` set (apps d) \<and>
     t_request_id ` set (tx_attempts d) \<subseteq> r_id ` set (relay_requests d) \<and>
     d_request_id ` set (webhook_deliveries d) \<subseteq> r_id ` set (relay_requests d) \<and>
     g_app_id ` set (gas_attempts d) \<subseteq> a_id ` set (apps d)"

interpretation req: row_update r_id "set_request_status st now"
  by unfold_locales (simp add: set_request_status_def)

interpretation att: row_update t_id "set_attempt_status st"
  by unfold_locales (simp add: set_attempt_status_def)

lemma insert_app_row_Inr:
  "insert_app_row a d = Inr d' \<longleftrightarrow>
     hex_check 40 (a_treasury_address a) \<and> 0 < a_pool_size a \<and> a_id a \<notin> a_id ` set (apps d) \<and>
     a_bearer_token_hash a \<notin> a_bearer_token_hash ` set (apps d) \<and> d' = d\<lparr>apps := apps d @ [a]\<rparr>"
  by (auto simp: insert_app_row_def)

lemma insert_signer_row_Inr:
  "insert_signer_row s d = Inr d' \<longleftrightarrow>
     hex_check 40 (s_address s) \<and> s_address s \<notin> s_address ` set (signers d) \<and>
     s_app_id s \<in> a_id ` set (apps d) \<and> d' = d\<lparr>signers := signers d @ [s]\<rparr>"
  by (auto simp: insert_signer_row_def)

lemma insert_relay_row_Inr:
  "insert_relay_row r d = Inr d' \<longleftrightarrow>
     hex_check 40 (r_to_address r) \<and> r_id r \<notin> r_id ` set (relay_requests d) \<and>
     r_app_id r \<in> a_id ` set (apps d) \<and> d' = d\<lparr>relay_requests := relay_requests d @ [r]\<rparr>"
  by (auto simp: insert_relay_row_def)

lemma insert_attempt_row_Inr:
  "insert_attempt_row t d = Inr d' \<longleftrightarrow>
     hex_check 40 (t_signer_address t) \<and> hex_check 64 (t_tx_hash t) \<and>
     t_id t \<notin> t_id ` set (tx_attempts d) \<and> t_tx_hash t \<notin> t_tx_hash ` set (tx_attempts d) \<and>
     t_request_id t \<in> r_id ` set (relay_requests d) \<and> d' = d\<lparr>tx_attempts := tx_attempts d @ [t]\<rparr>"
  by (auto simp: insert_attempt_row_def)

lemma insert_delivery_row_Inr:
  "insert_delivery_row v d = Inr d' \<longleftrightarrow>
     d_id v \<notin> d_id ` set (webhook_deliveries d) \<and> d_request_id v \<in> r_id ` set (relay_requests d) \<and>
     d' = d\<lparr>webhook_deliveries := webhook_deliveries d @ [v]\<rparr>"
  by (auto simp: insert_delivery_row_def)

lemma insert_gas_row_Inr:
  "insert_gas_row g d = Inr d' \<longleftrightarrow>
     hex_check 40 (g_signer_address g) \<and> hex_check 64 (g_tx_hash g) \<and>
     g_id g \<notin> g_id ` set (gas_attempts d) \<and> g_tx_hash g \<notin> g_tx_hash ` set (gas_attempts d) \<and>
     g_app_id g \<in> a_id ` set (apps d) \<and> d' = d\<lparr>gas_attempts := gas_attempts d @ [g]\<rparr>"
  by (auto simp: insert_gas_row_def)

lemmas insert_Inr = insert_app_row_Inr insert_signer_row_Inr insert_relay_row_Inr
  insert_attempt_row_Inr insert_delivery_row_Inr insert_gas_row_Inr

lemma db_wf_empty [simp]: "db_wf empty_db"
  by (simp add: db_wf_def empty_db_def)

lemma db_wf_insert_app: "db_wf d \<Longrightarrow> insert_app_row a d = Inr d' \<Longrightarrow> db_wf d'"
  by (simp add: insert_app_row_Inr db_wf_def subset_insertI2)

lemma db_wf_insert_signer: "db_wf d \<Longrightarrow> insert_signer_row s d = Inr d' \<Longrightarrow> db_wf d'"
  by (simp add: insert_signer_row_Inr db_wf_def)

lemma db_wf_insert_relay: "db_wf d \<Longrightarrow> insert_relay_row r d = Inr d' \<Longrightarrow> db_wf d'"
  by (simp add: insert_relay_row_Inr db_wf_def subset_insertI2)

lemma db_wf_insert_attempt: "db_wf d \<Longrightarrow> insert_attempt_row t d = Inr d' \<Longrightarrow> db_wf d'"
  by (simp add: insert_attempt_row_Inr db_wf_def)

lemma db_wf_insert_delivery: "db_wf d \<Longrightarrow> insert_delivery_row v d = Inr d' \<Longrightarrow> db_wf d'"
  by (simp add: insert_delivery_row_Inr db_wf_def)

lemma db_wf_insert_gas: "db_wf d \<Longrightarrow> insert_gas_row g d = Inr d' \<Longrightarrow> db_wf d'"
  by (simp add: insert_gas_row_Inr db_wf_def)

lemmas db_wf_inserts = db_wf_insert_app db_wf_insert_signer db_wf_insert_relay
  db_wf_insert_attempt db_wf_insert_delivery db_wf_insert_gas

text \<open>An update that rewrites the rows of one table but none of their key columns keeps the schema.\<close>

lemma db_wf_relay_update:
  assumes "map r_id rs = map r_id (relay_requests d)" and "map r_app_id rs = map r_app_id (relay_requests d)"
    and "db_wf d"
  shows "db_wf (d\<lparr>relay_requests := rs\<rparr>)"
proof -
  have "r_id ` set rs = r_id ` set (relay_requests d)"
    and "r_app_id ` set rs = r_app_id ` set (relay_requests d)"
    using assms(1,2) by (metis list.set_map)+
  with assms show ?thesis by (simp add: db_wf_def)
qed

lemma db_wf_attempt_update:
  assumes "map t_id ts = map t_id (tx_attempts d)" and "map t_tx_hash ts = map t_tx_hash (tx_attempts d)"
    and "map t_request_id ts = map t_request_id (tx_attempts d)" and "db_wf d"
  shows "db_wf (d\<lparr>tx_attempts := ts\<rparr>)"
proof -
  have "t_request_id ` set ts = t_request_id ` set (tx_attempts d)"
    using assms(3) by (metis list.set_map)
  with assms show ?thesis by (simp add: db_wf_def)
qed

lemma db_wf_delivery_update:
  assumes "map d_id vs = map d_id (webhook_deliveries d)"
    and "map d_request_id vs = map d_request_id (webhook_deliveries d)" and "db_wf d"
  shows "db_wf (d\<lparr>webhook_deliveries := vs\<rparr>)"
proof -
  have "d_request_id ` set vs = d_request_id ` set (webhook_deliveries d)"
    using assms(2) by (metis list.set_map)
  with assms show ?thesis by (simp add: db_wf_def)
qed

lemma db_wf_update_request [simp]: "db_wf d \<Longrightarrow> db_wf (update_request_status st now i d)"
  unfolding update_request_status_def
  by (rule db_wf_relay_update)
     (auto simp: req.map_key_update update_rows_def set_request_status_def)

lemma db_wf_update_attempt [simp]: "db_wf d \<Longrightarrow> db_wf (update_attempt_status st i d)"
  unfolding update_attempt_status_def
  by (rule db_wf_attempt_update)
     (auto simp: att.map_key_update update_rows_def set_attempt_status_def)

text \<open>What the two status updates leave alone.\<close>

lemma update_request_status_frame [simp]:
  "apps (update_request_status st now i d) = apps d"
  "signers (update_request_status st now i d) = signers d"
  "tx_attempts (update_request_status st now i d) = tx_attempts d"
  "webhook_deliveries (update_request_status st now i d) = webhook_deliveries d"
  "gas_attempts (update_request_status st now i d) = gas_attempts d"
  by (simp_all add: update_request_status_def)

lemma update_attempt_status_frame [simp]:
  "apps (update_attempt_status st i d) = apps d"
  "signers (update_attempt_status st i d) = signers d"
  "relay_requests (update_attempt_status st i d) = relay_requests d"
  "webhook_deliveries (update_attempt_status st i d) = webhook_deliveries d"
  "gas_attempts (update_attempt_status st i d) = gas_attempts d"
  by (simp_all add: update_attempt_status_def)

lemma lookup_update_request:
  "lookup_row r_id j (relay_requests (update_request_status st now i d)) =
     (if j = i then map_option (set_request_status st now) (lookup_row r_id i (relay_requests d))
      else lookup_row r_id j (relay_requests d))"
  by (simp add: update_request_status_def req.lookup_update)

lemma lookup_update_attempt:
  "lookup_row t_id j (tx_attempts (update_attempt_status st i d)) =
     (if j = i then map_option (set_attempt_status st) (lookup_row t_id i (tx_attempts d))
      else lookup_row t_id j (tx_attempts d))"
  by (simp add: update_attempt_status_def att.lookup_update)

end
