(* ===== verification/Runtime.thy ===== *)
theory Runtime
  imports Schema
begin

text \<open>
  What the program runs on. \<open>'w env\<close> collects the code that is not part of the repository
  (Postgres, the JSON-RPC node behind go-ethereum, go-ethereum's types and hashes, the
  cryptographic primitives, the network, clocks and randomness): every call that can answer
  differently each time takes the outside world \<open>'w\<close> and returns the next one, so a theorem
  over all environments covers every sequence of answers and failures. \<open>'w base\<close> is the
  state every component sees: the world and the database.
\<close>

section \<open>Ethereum data\<close>

datatype PrivateKey = PrivateKey nat

record Transaction =
  tx_nonce :: uint64
  tx_to :: address
  tx_value :: int
  tx_gas :: uint64
  tx_gasPrice :: int
  tx_data :: bytes

record SignedTx =
  payload_tx :: Transaction
  tx_signature :: bytes

text \<open>\<open>types.NewTransaction\<close>, whose nil amount is stored as zero.\<close>

definition NewTransaction ::
  "uint64 \<Rightarrow> address \<Rightarrow> int option \<Rightarrow> uint64 \<Rightarrow> int \<Rightarrow> bytes \<Rightarrow> Transaction" where
  "NewTransaction n to v g p dat =
     \<lparr>tx_nonce = n, tx_to = to, tx_value = (case v of None \<Rightarrow> 0 | Some x \<Rightarrow> x), tx_gas = g,
      tx_gasPrice = p, tx_data = dat\<rparr>"

record CallMsg =
  msg_From :: address
  msg_To :: address
  msg_Value :: "int option"
  msg_Data :: bytes

record Receipt =
  rc_Status :: uint64
  rc_BlockNumber :: int
  rc_GasUsed :: uint64
  rc_EffectiveGasPrice :: "int option"
  rc_Logs :: "bytes list"

text \<open>\<open>relay.Status\<close>, the status document (\<open>internal/relay/get.go\<close>).\<close>

record Status =
  st_RequestID :: string
  st_Status :: request_status
  st_TxHash :: string
  st_Signer :: string
  st_BlockNumber :: "int option"
  st_GasUsed :: "int option"
  st_EffectiveGasPrice :: string
  st_RevertReason :: string
  st_Logs :: bytes
  st_CallbackMetadata :: string
  st_UpdatedAt :: int

text \<open>The keystore's file document (\<open>internal/keystore/keystore.go\<close>).\<close>

record kdfParams =
  kdf_Name :: string
  kdf_Salt :: bytes
  kdf_Time :: "32 word"
  kdf_Memory :: "32 word"
  kdf_Threads :: "8 word"
  kdf_KeyLen :: "32 word"

record cipherBlob =
  cb_Name :: string
  cb_Nonce :: bytes
  cb_Ciphertext :: bytes

record fileFormat =
  ff_Version :: int
  ff_Address :: string
  ff_KDF :: kdfParams
  ff_Cipher :: cipherBlob

record HttpResponse =
  resp_StatusCode :: int
  resp_Body :: bytes

text \<open>
  An operator alert (\<open>internal/alert/alert.go\<close>). The tags are a Go map, read in whatever order
  the runtime iterates it: the list is that order.
\<close>

datatype Level = LevelInfo | LevelWarn | LevelError

record Alert =
  al_Key :: string
  al_Level :: Level
  al_Title :: string
  al_Message :: string
  al_Tags :: "(string \<times> string) list"

section \<open>The environment\<close>

record 'w env =
  dbFault :: "'w \<Rightarrow> error option \<times> 'w"
  dbNow :: "'w \<Rightarrow> int \<times> 'w"
  genUuid :: "'w \<Rightarrow> string \<times> 'w"
  pgNumeric :: "string \<Rightarrow> numeric option"
  pgUuid :: "string \<Rightarrow> string option"
  pgJsonb :: "bytes \<Rightarrow> bytes option"
  timeNow :: "'w \<Rightarrow> int \<times> 'w"
  randRead :: "nat \<Rightarrow> 'w \<Rightarrow> bytes res \<times> 'w"
  selectDone :: "'w \<Rightarrow> bool \<times> 'w"
  sha256 :: "bytes \<Rightarrow> bytes"
  hmacSha256 :: "bytes \<Rightarrow> bytes \<Rightarrow> bytes"
  addrHex :: "address \<Rightarrow> string"
  hexToAddress :: "string \<Rightarrow> address"
  isHexAddress :: "string \<Rightarrow> bool"
  hashHex :: "hash \<Rightarrow> string"
  hexToHash :: "string \<Rightarrow> hash"
  chainID :: int
  estimateGas :: "CallMsg \<Rightarrow> 'w \<Rightarrow> uint64 res \<times> 'w"
  suggestGasPrice :: "'w \<Rightarrow> int res \<times> 'w"
  sendTransaction :: "SignedTx \<Rightarrow> 'w \<Rightarrow> unit res \<times> 'w"
  pendingNonceAt :: "address \<Rightarrow> 'w \<Rightarrow> uint64 res \<times> 'w"
  balanceAt :: "address \<Rightarrow> 'w \<Rightarrow> int res \<times> 'w"
  transactionReceipt :: "hash \<Rightarrow> 'w \<Rightarrow> Receipt res \<times> 'w"
  callContract :: "CallMsg \<Rightarrow> int \<Rightarrow> 'w \<Rightarrow> bytes res \<times> 'w"
  signTx :: "int \<Rightarrow> Transaction \<Rightarrow> PrivateKey \<Rightarrow> bytes res"
  txHash :: "SignedTx \<Rightarrow> hash"
  marshalLogs :: "bytes list \<Rightarrow> bytes res"
  marshalStatus :: "Status \<Rightarrow> bytes res"
  generateKey :: "'w \<Rightarrow> PrivateKey res \<times> 'w"
  pubkeyToAddress :: "PrivateKey \<Rightarrow> address"
  fromECDSA :: "PrivateKey \<Rightarrow> bytes"
  toECDSA :: "bytes \<Rightarrow> PrivateKey res"
  argon2IDKey :: "bytes \<Rightarrow> bytes \<Rightarrow> 32 word \<Rightarrow> 32 word \<Rightarrow> 8 word \<Rightarrow> 32 word \<Rightarrow> bytes"
  gcmSeal :: "bytes \<Rightarrow> bytes \<Rightarrow> bytes \<Rightarrow> bytes"
  gcmOpen :: "bytes \<Rightarrow> bytes \<Rightarrow> bytes \<Rightarrow> bytes res"
  marshalAlert :: "Alert \<Rightarrow> int \<Rightarrow> bytes res"
  formEncode :: "(string \<times> string) list \<Rightarrow> bytes"
  marshalKeyFile :: "fileFormat \<Rightarrow> bytes res"
  unmarshalKeyFile :: "bytes \<Rightarrow> fileFormat res"
  fsFault :: "'w \<Rightarrow> error option \<times> 'w"
  fsPartial :: "'w \<Rightarrow> nat option \<times> 'w"
  newRequest :: "string \<Rightarrow> unit res"
  httpDo :: "string \<Rightarrow> (string \<times> string) list \<Rightarrow> bytes \<Rightarrow> 'w \<Rightarrow> HttpResponse res \<times> 'w"

text \<open>The text form in which addresses and hashes are stored: \<open>strings.ToLower(x.Hex())\<close>.\<close>

definition lowerHex :: "'w env \<Rightarrow> address \<Rightarrow> string" where
  "lowerHex E a = ToLower (addrHex E a)"

definition lowerHash :: "'w env \<Rightarrow> hash \<Rightarrow> string" where
  "lowerHash E h = ToLower (hashHex E h)"

text \<open>
  Documented behaviour of the libraries, as named hypotheses: go-ethereum reads back an
  address or a hash it printed, in any letter case, and prints 20 or 32 bytes of hex with
  the \<open>0x\<close> prefix; Postgres reads a decimal integer of at most 78 digits as that number.
\<close>

definition hex_roundtrip :: "'w env \<Rightarrow> bool" where
  "hex_roundtrip E \<longleftrightarrow>
     (\<forall>a. hexToAddress E (lowerHex E a) = a) \<and> (\<forall>h. hexToHash E (lowerHash E h) = h) \<and>
     (\<forall>a. hex_check 40 (lowerHex E a)) \<and> (\<forall>h. hex_check 64 (lowerHash E h))"

definition pg_decimal :: "'w env \<Rightarrow> bool" where
  "pg_decimal E \<longleftrightarrow>
     (\<forall>v. pgNumeric E (big_String v) = (if \<bar>v\<bar> < 10 ^ 78 then Some (Num v) else None))"

text \<open>The database driver reports failures as error values: no call of it panics.\<close>

definition ordinary_faults :: "'w env \<Rightarrow> bool" where
  "ordinary_faults E \<longleftrightarrow> (\<forall>w e. fst (dbFault E w) = Some e \<longrightarrow> \<not> is_panic e)"

definition no_faults :: "'w env \<Rightarrow> bool" where
  "no_faults E \<longleftrightarrow> (\<forall>w. fst (dbFault E w) = None)"

section \<open>The base state and calls to the outside\<close>

record 'w base =
  world :: 'w
  db :: database

text \<open>Updates of the state are written in the order of its fields.\<close>

lemma db_world_order [simp]: "s\<lparr>db := d, world := w\<rparr> = s\<lparr>world := w, db := d\<rparr>"
  by simp

type_synonym ('w, 'z, 'a) op = "(('w, 'z) base_scheme, 'a) state"

definition ext :: "('w \<Rightarrow> 'a \<times> 'w) \<Rightarrow> ('w, 'z, 'a) op" where
  "ext f = State (\<lambda>s. case f (world s) of (a, w) \<Rightarrow> (a, s\<lparr>world := w\<rparr>))"

lemma run_ext: "run_state (ext f) s = (fst (f (world s)), s\<lparr>world := snd (f (world s))\<rparr>)"
  by (simp add: ext_def split: prod.split)

text \<open>The world outside answered a call with this value at some time.\<close>

definition answers :: "('w \<Rightarrow> 'a res \<times> 'w) \<Rightarrow> 'a \<Rightarrow> bool" where
  "answers f x \<longleftrightarrow> (\<exists>w. fst (f w) = Inr x)"

lemma answersI [intro]: "fst (f w) = Inr x \<Longrightarrow> answers f x"
  unfolding answers_def by blast

lemma attempt_ext_failE:
  assumes "run_state (attempt (ext f) (fail_wrap m) k) s = (Inr y, s')"
  obtains x s1 where "answers f x" "run_state (k x) s1 = (Inr y, s')"
  using assms by (cases "fst (f (world s))") (auto simp: run_attempt run_ext split: prod.splits intro!: that)

lemma ext_leaves_db [leaves_rules]: "leaves db (ext f)"
  by (simp add: leaves_def run_ext)

text \<open>
  A statement outside a transaction: it either fails in the server or the connection
  (\<open>dbFault\<close>), or runs with the current \<open>NOW()\<close>. A failed statement changes nothing.
\<close>

definition db_query :: "'w env \<Rightarrow> (int \<Rightarrow> database \<Rightarrow> 'a res) \<Rightarrow> ('w, 'z, 'a res) op" where
  "db_query E q = do {
     f \<leftarrow> ext (dbFault E);
     (case f of
        Some e \<Rightarrow> fail e
      | None \<Rightarrow> do { now \<leftarrow> ext (dbNow E); d \<leftarrow> reads db; ret (q now d) }) }"

definition db_exec :: "'w env \<Rightarrow> (int \<Rightarrow> database \<Rightarrow> database res) \<Rightarrow> ('w, 'z, unit res) op" where
  "db_exec E f = attempt (db_query E f) fail (\<lambda>d. do { writes (\<lambda>s. s\<lparr>db := d\<rparr>); ok () })"

text \<open>\<open>INSERT ... RETURNING id\<close>: the server draws the id from \<open>gen_random_uuid()\<close>.\<close>

definition db_insert :: "'w env \<Rightarrow> (string \<Rightarrow> int \<Rightarrow> database \<Rightarrow> database res) \<Rightarrow> ('w, 'z, string res) op" where
  "db_insert E f = do {
     i \<leftarrow> ext (genUuid E);
     attempt (db_exec E (f i)) fail (\<lambda>_. ok i) }"

text \<open>
  A transaction works on its own copy of the database, with \<open>NOW()\<close> fixed when it begins;
  \<open>tx_commit\<close> installs the copy, and every other way out (the deferred \<open>Rollback\<close>) drops it.
\<close>

definition tx_begin :: "'w env \<Rightarrow> ('w, 'z, (int \<times> database) res) op" where
  "tx_begin E = db_query E (\<lambda>now d. Inr (now, d))"

definition tx_exec :: "'w env \<Rightarrow> (database \<Rightarrow> database res) \<Rightarrow> database \<Rightarrow> ('w, 'z, database res) op" where
  "tx_exec E f d = do { x \<leftarrow> ext (dbFault E); ret (case x of Some e \<Rightarrow> Inl e | None \<Rightarrow> f d) }"

definition tx_commit :: "'w env \<Rightarrow> database \<Rightarrow> ('w, 'z, unit res) op" where
  "tx_commit E d = do {
     x \<leftarrow> ext (dbFault E);
     (case x of Some e \<Rightarrow> fail e | None \<Rightarrow> do { writes (\<lambda>s. s\<lparr>db := d\<rparr>); ok () }) }"

text \<open>The body of the program's transactions: two statements, then the commit.\<close>

definition tx_two ::
  "'w env \<Rightarrow> (database \<Rightarrow> database res) \<Rightarrow> (database \<Rightarrow> database res) \<Rightarrow> database \<Rightarrow> ('w, 'z, unit res) op" where
  "tx_two E f g d =
     attempt (tx_exec E f d) fail (\<lambda>d1. attempt (tx_exec E g d1) fail (\<lambda>d2. tx_commit E d2))"

section \<open>The chain client\<close>

text \<open>
  The methods of \<open>chain.Client\<close>: each forwards to the node's connection, whose answers are fields
  of the environment (\<open>balanceAt\<close> at the latest block, the nil block number of the call).
\<close>

abbreviation BalanceAt :: "'w env \<Rightarrow> address \<Rightarrow> ('w, 'z, int res) op" where
  "BalanceAt E addr \<equiv> ext (balanceAt E addr)"

abbreviation PendingNonceAt :: "'w env \<Rightarrow> address \<Rightarrow> ('w, 'z, uint64 res) op" where
  "PendingNonceAt E addr \<equiv> ext (pendingNonceAt E addr)"

abbreviation SuggestGasPrice :: "'w env \<Rightarrow> ('w, 'z, int res) op" where
  "SuggestGasPrice E \<equiv> ext (suggestGasPrice E)"

abbreviation EstimateGas :: "'w env \<Rightarrow> CallMsg \<Rightarrow> ('w, 'z, uint64 res) op" where
  "EstimateGas E msg \<equiv> ext (estimateGas E msg)"

abbreviation SendTransaction :: "'w env \<Rightarrow> SignedTx \<Rightarrow> ('w, 'z, unit res) op" where
  "SendTransaction E tx \<equiv> ext (sendTransaction E tx)"

abbreviation TransactionReceipt :: "'w env \<Rightarrow> hash \<Rightarrow> ('w, 'z, Receipt res) op" where
  "TransactionReceipt E h \<equiv> ext (transactionReceipt E h)"

abbreviation CallContract :: "'w env \<Rightarrow> CallMsg \<Rightarrow> int \<Rightarrow> ('w, 'z, bytes res) op" where
  "CallContract E msg blockNumber \<equiv> ext (callContract E msg blockNumber)"

section \<open>Rules for the primitive calls\<close>

text \<open>
  The behaviour of each primitive, as a case distinction on what the outside answered:
  either an error and the same database, or the effect.
\<close>

lemma run_db_query:
  obtains (fault) e w where "run_state (db_query E q) s = (Inl e, s\<lparr>world := w\<rparr>)"
  | (ran) now w where "run_state (db_query E q) s = (q now (db s), s\<lparr>world := w\<rparr>)"
proof (cases "fst (dbFault E (world s))")
  case None
  then have "run_state (db_query E q) s =
      (q (fst (dbNow E (snd (dbFault E (world s))))) (db s),
       s\<lparr>world := snd (dbNow E (snd (dbFault E (world s))))\<rparr>)"
    by (simp add: db_query_def run_ext)
  then show ?thesis by (rule ran)
next
  case (Some e)
  then have "run_state (db_query E q) s = (Inl e, s\<lparr>world := snd (dbFault E (world s))\<rparr>)"
    by (simp add: db_query_def run_ext)
  then show ?thesis by (rule fault)
qed

lemma db_query_leaves_db [leaves_rules]: "leaves db (db_query E q)"
  unfolding db_query_def by (intro leaves_rules)

lemma leaves_db_keeps: "leaves db m \<Longrightarrow> keeps (\<lambda>s. P (db s)) m"
  by (rule leaves_keeps)

lemma keeps_ext:
  assumes "\<And>s w. P s \<Longrightarrow> P (s\<lparr>world := w\<rparr>)"
  shows "keeps P (ext f)"
  using assms by (simp add: keeps_def run_ext)

lemma keeps_db_query:
  assumes "\<And>s w. P s \<Longrightarrow> P (s\<lparr>world := w\<rparr>)"
  shows "keeps P (db_query E q)"
  unfolding db_query_def by (intro keeps_rules keeps_ext assms)

lemma valid_db_exec:
  assumes w: "\<And>s w. P s \<Longrightarrow> P (s\<lparr>world := w\<rparr>)"
    and ok: "\<And>s now d'. P s \<Longrightarrow> f now (db s) = Inr d' \<Longrightarrow> P (s\<lparr>db := d'\<rparr>)"
  shows "keeps P (db_exec E f)"
  unfolding keeps_def
proof (intro allI impI)
  fix s assume P: "P s"
  show "P (snd (run_state (db_exec E f) s))"
  proof (cases rule: run_db_query [of E f s])
    case (fault e w)
    with w [OF P] show ?thesis by (simp add: db_exec_def)
  next
    case (ran now w)
    show ?thesis
    proof (cases "f now (db s)")
      case (Inl e)
      with ran w [OF P] show ?thesis by (simp add: db_exec_def)
    next
      case (Inr d')
      from w [OF P] have "P (s\<lparr>world := w\<rparr>)" .
      from ok [OF this, of now d'] Inr ran show ?thesis by (simp add: db_exec_def)
    qed
  qed
qed

lemma keeps_db_insert:
  assumes w: "\<And>s w. P s \<Longrightarrow> P (s\<lparr>world := w\<rparr>)"
    and ok: "\<And>s i now d'. P s \<Longrightarrow> f i now (db s) = Inr d' \<Longrightarrow> P (s\<lparr>db := d'\<rparr>)"
  shows "keeps P (db_insert E f)"
  unfolding db_insert_def
  by (intro keeps_rules keeps_ext w valid_db_exec) (auto intro: ok)

lemma run_db_exec:
  obtains (failed) e w where "run_state (db_exec E f) s = (Inl e, s\<lparr>world := w\<rparr>)"
  | (applied) now d' w where "f now (db s) = Inr d'"
      "run_state (db_exec E f) s = (Inr (), s\<lparr>world := w, db := d'\<rparr>)"
proof (cases rule: run_db_query [of E f s])
  case (fault e w)
  then have "run_state (db_exec E f) s = (Inl e, s\<lparr>world := w\<rparr>)" by (simp add: db_exec_def)
  then show ?thesis by (rule failed)
next
  case (ran now w)
  show ?thesis
  proof (cases "f now (db s)")
    case (Inl e)
    with ran have "run_state (db_exec E f) s = (Inl e, s\<lparr>world := w\<rparr>)" by (simp add: db_exec_def)
    then show ?thesis by (rule failed)
  next
    case (Inr d')
    with ran have "run_state (db_exec E f) s = (Inr (), s\<lparr>world := w, db := d'\<rparr>)"
      by (simp add: db_exec_def)
    with Inr show ?thesis by (rule applied)
  qed
qed

lemma run_db_insert:
  obtains (failed) e w where "run_state (db_insert E f) s = (Inl e, s\<lparr>world := w\<rparr>)"
  | (applied) i now d' w where "f i now (db s) = Inr d'"
      "run_state (db_insert E f) s = (Inr i, s\<lparr>world := w, db := d'\<rparr>)"
proof -
  define i where "i = fst (genUuid E (world s))"
  define s1 where "s1 = s\<lparr>world := snd (genUuid E (world s))\<rparr>"
  have run: "run_state (db_insert E f) s = run_state (attempt (db_exec E (f i)) fail (\<lambda>_. ok i)) s1"
    by (simp add: db_insert_def run_ext i_def s1_def)
  show ?thesis
  proof (cases rule: run_db_exec [of E "f i" s1])
    case (failed e w)
    with run have "run_state (db_insert E f) s = (Inl e, s\<lparr>world := w\<rparr>)" by (simp add: s1_def)
    then show ?thesis by (rule that(1))
  next
    case (applied now d' w)
    with run have "run_state (db_insert E f) s = (Inr i, s\<lparr>world := w, db := d'\<rparr>)" by (simp add: s1_def)
    with applied(1) show ?thesis by (intro that(2)) (simp_all add: s1_def)
  qed
qed

lemma run_tx_begin:
  obtains (failed) e w where "run_state (tx_begin E) s = (Inl e, s\<lparr>world := w\<rparr>)"
  | (begun) now w where "run_state (tx_begin E) s = (Inr (now, db s), s\<lparr>world := w\<rparr>)"
  unfolding tx_begin_def by (cases rule: run_db_query [of E "\<lambda>now d. Inr (now, d)" s]) auto

lemma run_tx_exec:
  obtains (failed) e w where "run_state (tx_exec E f d) s = (Inl e, s\<lparr>world := w\<rparr>)"
  | (applied) w where "run_state (tx_exec E f d) s = (f d, s\<lparr>world := w\<rparr>)"
  by (cases "fst (dbFault E (world s))") (auto simp: tx_exec_def run_ext)

lemma run_tx_commit:
  obtains (failed) e w where "run_state (tx_commit E d) s = (Inl e, s\<lparr>world := w\<rparr>)"
  | (applied) w where "run_state (tx_commit E d) s = (Inr (), s\<lparr>world := w, db := d\<rparr>)"
  by (cases "fst (dbFault E (world s))") (auto simp: tx_commit_def run_ext)

lemma run_tx_two:
  obtains (failed) e w where "run_state (tx_two E f g d) s = (Inl e, s\<lparr>world := w\<rparr>)"
  | (committed) d1 d2 w where "f d = Inr d1" "g d1 = Inr d2"
      "run_state (tx_two E f g d) s = (Inr (), s\<lparr>world := w, db := d2\<rparr>)"
proof (cases "\<exists>e w. run_state (tx_two E f g d) s = (Inl e, s\<lparr>world := w\<rparr>)")
  case True
  then show ?thesis by (auto intro: failed)
next
  case False
  then obtain d1 w1 where f: "f d = Inr d1" and run1: "run_state (tx_exec E f d) s = (Inr d1, s\<lparr>world := w1\<rparr>)"
    by (cases rule: run_tx_exec [of E f d s]; cases "f d") (auto simp: tx_two_def)
  let ?s1 = "s\<lparr>world := w1\<rparr>"
  from False f run1 obtain d2 w2 where g: "g d1 = Inr d2"
    and run2: "run_state (tx_exec E g d1) ?s1 = (Inr d2, s\<lparr>world := w2\<rparr>)"
    by (cases rule: run_tx_exec [of E g d1 ?s1]; cases "g d1") (auto simp: tx_two_def)
  let ?s2 = "s\<lparr>world := w2\<rparr>"
  from False f g run1 run2 obtain w where "run_state (tx_commit E d2) ?s2 = (Inr (), s\<lparr>world := w, db := d2\<rparr>)"
    by (cases rule: run_tx_commit [of E d2 ?s2]) (auto simp: tx_two_def)
  with f g run1 run2 show ?thesis by (intro committed) (simp_all add: tx_two_def)
qed

text \<open>Without faults every statement runs.\<close>

lemma run_db_query_now:
  "no_faults E \<Longrightarrow> \<exists>v w. run_state (db_query E q) s = (q (fst (dbNow E v)) (db s), s\<lparr>world := w\<rparr>)"
  by (auto simp: db_query_def run_ext no_faults_def)

lemma run_db_query_ok:
  "no_faults E \<Longrightarrow> \<exists>now w. run_state (db_query E q) s = (q now (db s), s\<lparr>world := w\<rparr>)"
  by (auto simp: db_query_def run_ext no_faults_def)

lemma tx_begin_ok: "no_faults E \<Longrightarrow> \<exists>now w. run_state (tx_begin E) s = (Inr (now, db s), s\<lparr>world := w\<rparr>)"
  by (simp add: tx_begin_def db_query_def run_ext no_faults_def) blast

lemma tx_two_ok:
  "no_faults E \<Longrightarrow> f d = Inr d1 \<Longrightarrow> g d1 = Inr d2 \<Longrightarrow>
     \<exists>w. run_state (tx_two E f g d) s = (Inr (), s\<lparr>world := w, db := d2\<rparr>)"
  by (simp add: tx_two_def tx_exec_def tx_commit_def run_ext no_faults_def) blast

text \<open>Where the error of a failed statement comes from.\<close>

lemma db_query_error:
  "run_state (db_query E q) s = (Inl e, s') \<Longrightarrow> (\<exists>w. fst (dbFault E w) = Some e) \<or> (\<exists>now. q now (db s) = Inl e)"
  by (auto simp: db_query_def run_ext split: option.splits)

lemma db_exec_error:
  "run_state (db_exec E f) s = (Inl e, s') \<Longrightarrow> (\<exists>w. fst (dbFault E w) = Some e) \<or> (\<exists>now. f now (db s) = Inl e)"
  by (auto simp: db_exec_def run_attempt split: prod.splits sum.splits dest!: db_query_error)

end
