(* ===== verification/Keystore.thy ===== *)
theory Keystore
  imports Runtime
begin

text \<open>
  \<open>internal/keystore\<close>: one encrypted file per key, written through a temporary file and a
  rename. The state adds the contents of the keystore directory, by entry name.
\<close>

section \<open>The directory\<close>

datatype dirent = Regular bytes | Directory

record 'w ks_state = "'w base" +
  files :: "(string \<times> dirent) list"

type_synonym ('w, 'z, 'a) ks_op = "(('w, 'z) ks_state_scheme, 'a) state"

definition fs_put :: "string \<Rightarrow> dirent \<Rightarrow> (string \<times> dirent) list \<Rightarrow> (string \<times> dirent) list" where
  "fs_put n e fs = (n, e) # filter (\<lambda>p. fst p \<noteq> n) fs"

definition fs_del :: "string \<Rightarrow> (string \<times> dirent) list \<Rightarrow> (string \<times> dirent) list" where
  "fs_del n fs = filter (\<lambda>p. fst p \<noteq> n) fs"

lemma map_of_fs_del [simp]: "map_of (fs_del n fs) = (map_of fs)(n := None)"
  by (induction fs) (auto simp: fs_del_def fun_eq_iff)

lemma map_of_fs_put [simp]: "map_of (fs_put n e fs) = (map_of fs)(n \<mapsto> e)"
  using map_of_fs_del [of n fs] by (simp add: fs_put_def fs_del_def)

text \<open>
  \<open>os.ReadFile\<close>, \<open>os.WriteFile\<close> (which may fail before it opened the file, or half way), \<open>os.Rename\<close>
  and \<open>os.Remove\<close>.
\<close>

definition os_ReadFile :: "'w env \<Rightarrow> string \<Rightarrow> ('w, 'z, bytes res) ks_op" where
  "os_ReadFile E n = do {
     f \<leftarrow> ext (fsFault E);
     fs \<leftarrow> reads files;
     ret (case f of Some e \<Rightarrow> Inl e
          | None \<Rightarrow> (case map_of fs n of
               None \<Rightarrow> Inl (External ''no such file or directory'')
             | Some Directory \<Rightarrow> Inl (External ''is a directory'')
             | Some (Regular dat) \<Rightarrow> Inr dat)) }"

definition os_WriteFile :: "'w env \<Rightarrow> string \<Rightarrow> bytes \<Rightarrow> ('w, 'z, unit res) ks_op" where
  "os_WriteFile E n dat = do {
     f \<leftarrow> ext (fsFault E);
     k \<leftarrow> ext (fsPartial E);
     fs \<leftarrow> reads files;
     (if map_of fs n = Some Directory then fail (External ''is a directory'')
      else (case f of
         Some e \<Rightarrow> (case k of
             None \<Rightarrow> fail e
           | Some j \<Rightarrow> do { writes (\<lambda>s. s\<lparr>files := fs_put n (Regular (take j dat)) (files s)\<rparr>); fail e })
       | None \<Rightarrow> do { writes (\<lambda>s. s\<lparr>files := fs_put n (Regular dat) (files s)\<rparr>); ok () })) }"

definition os_Rename :: "'w env \<Rightarrow> string \<Rightarrow> string \<Rightarrow> ('w, 'z, unit res) ks_op" where
  "os_Rename E old new = do {
     f \<leftarrow> ext (fsFault E);
     fs \<leftarrow> reads files;
     (case f of
        Some e \<Rightarrow> fail e
      | None \<Rightarrow> (case map_of fs old of
           None \<Rightarrow> fail (External ''no such file or directory'')
         | Some x \<Rightarrow> if map_of fs new = Some Directory then fail (External ''file exists'')
             else do { writes (\<lambda>s. s\<lparr>files := fs_put new x (fs_del old (files s))\<rparr>); ok () })) }"

definition os_Remove :: "'w env \<Rightarrow> string \<Rightarrow> ('w, 'z, unit res) ks_op" where
  "os_Remove E n = do {
     f \<leftarrow> ext (fsFault E);
     (case f of Some e \<Rightarrow> fail e
      | None \<Rightarrow> do { writes (\<lambda>s. s\<lparr>files := fs_del n (files s)\<rparr>); ok () }) }"

section \<open>The keystore\<close>

definition fileVersion :: int where "fileVersion = 1"
definition keyLen :: "32 word" where "keyLen = 32"
definition saltLen :: nat where "saltLen = 16"
definition kdfArgon2id :: string where "kdfArgon2id = ''argon2id''"
definition cipherAESGCM :: string where "cipherAESGCM = ''aes-256-gcm''"

definition defaultKDF :: kdfParams where
  "defaultKDF = \<lparr>kdf_Name = kdfArgon2id, kdf_Salt = [], kdf_Time = 1, kdf_Memory = 64 * 1024,
                 kdf_Threads = 4, kdf_KeyLen = keyLen\<rparr>"

record Keystore =
  ks_dir :: string
  ks_password :: bytes

text \<open>\<open>New\<close>; \<open>mkdirAll\<close> is the outcome of \<open>os.MkdirAll(dir, 0o700)\<close>.\<close>

definition New :: "unit res \<Rightarrow> string \<Rightarrow> string \<Rightarrow> Keystore res" where
  "New mkdirAll dir password =
     (if password = [] then Inl (ErrMsg ''keystore: password is required'')
      else (case mkdirAll of Inl e \<Rightarrow> Inl (Wrap ''keystore: mkdir'' e)
            | Inr _ \<Rightarrow> Inr \<lparr>ks_dir = dir, ks_password = password\<rparr>))"

text \<open>The entry name of an address: \<open>strings.ToLower(addr.Hex()) + ".json"\<close>.\<close>

definition path :: "'w env \<Rightarrow> address \<Rightarrow> string" where
  "path E addr = lowerHex E addr @ ''.json''"

text \<open>
  \<open>argon2.IDKey\<close> panics without a round or a thread, \<open>aes.NewCipher\<close> wants a key of
  16, 24 or 32 bytes, and \<open>gcm.Open\<close> panics on a nonce that is not 12 bytes.
\<close>

definition IDKey :: "'w env \<Rightarrow> bytes \<Rightarrow> bytes \<Rightarrow> kdfParams \<Rightarrow> bytes res" where
  "IDKey E pw salt k =
     (if kdf_Time k < 1 then Inl (Panic ''argon2: number of rounds too small'')
      else if kdf_Threads k < 1 then Inl (Panic ''argon2: parallelism degree too low'')
      else Inr (argon2IDKey E pw salt (kdf_Time k) (kdf_Memory k) (kdf_Threads k) (kdf_KeyLen k)))"

definition newGCM :: "bytes \<Rightarrow> bytes res" where
  "newGCM key =
     (if length key \<in> {16, 24, 32} then Inr key
      else Inl (Wrap ''keystore: aes'' (External ''crypto/aes: invalid key size'')))"

definition gcmNonceSize :: nat where "gcmNonceSize = 12"

definition gcm_Open :: "'w env \<Rightarrow> bytes \<Rightarrow> bytes \<Rightarrow> bytes \<Rightarrow> bytes res" where
  "gcm_Open E key n ct =
     (if length n \<noteq> gcmNonceSize then Inl (Panic ''crypto/cipher: incorrect nonce length given to GCM'')
      else gcmOpen E key n ct)"

text \<open>The part of \<open>Load\<close> after the file is read: parse, check, decrypt, compare the address.\<close>

definition decode_key :: "'w env \<Rightarrow> Keystore \<Rightarrow> address \<Rightarrow> bytes \<Rightarrow> PrivateKey res" where
  "decode_key E K addr dat =
     (case unmarshalKeyFile E dat of Inl e \<Rightarrow> Inl (Wrap ''keystore: parse'' e)
      | Inr f \<Rightarrow>
       if ff_Version f \<noteq> fileVersion
         then Inl (ErrMsg (''keystore: unsupported version '' @ big_String (ff_Version f)))
       else if kdf_Name (ff_KDF f) \<noteq> kdfArgon2id
         then Inl (Wrap ''keystore: unsupported kdf'' (ErrMsg (kdf_Name (ff_KDF f))))
       else if cb_Name (ff_Cipher f) \<noteq> cipherAESGCM
         then Inl (Wrap ''keystore: unsupported cipher'' (ErrMsg (cb_Name (ff_Cipher f))))
       else (case IDKey E (ks_password K) (kdf_Salt (ff_KDF f)) (ff_KDF f) of Inl e \<Rightarrow> Inl e
        | Inr dk \<Rightarrow> (case newGCM dk of Inl e \<Rightarrow> Inl e
        | Inr gcm \<Rightarrow> (case gcm_Open E gcm (cb_Nonce (ff_Cipher f)) (cb_Ciphertext (ff_Cipher f)) of
            Inl e \<Rightarrow> if is_panic e then Inl e else Inl (Wrap ''keystore: decrypt'' e)
        | Inr pt \<Rightarrow> (case toECDSA E pt of Inl e \<Rightarrow> Inl (Wrap ''keystore: parse key'' e)
        | Inr priv \<Rightarrow>
            if pubkeyToAddress E priv \<noteq> addr
            then Inl (ErrMsg (''keystore: address mismatch: file='' @ addrHex E (pubkeyToAddress E priv)
                               @ '' want='' @ addrHex E addr))
            else Inr priv)))))"

definition Keystore_Load :: "'w env \<Rightarrow> Keystore \<Rightarrow> address \<Rightarrow> ('w, 'z, PrivateKey res) ks_op" where
  "Keystore_Load E K addr =
     attempt (os_ReadFile E (path E addr)) (fail_wrap ''keystore: read'')
       (\<lambda>dat. ret (decode_key E K addr dat))"

text \<open>The document \<open>write\<close> builds, and \<open>write\<close> itself.\<close>

definition key_document :: "'w env \<Rightarrow> address \<Rightarrow> kdfParams \<Rightarrow> bytes \<Rightarrow> bytes \<Rightarrow> fileFormat" where
  "key_document E addr kdf n ct =
     \<lparr>ff_Version = fileVersion, ff_Address = addrHex E addr, ff_KDF = kdf,
      ff_Cipher = \<lparr>cb_Name = cipherAESGCM, cb_Nonce = n, cb_Ciphertext = ct\<rparr>\<rparr>"

definition replace_file :: "'w env \<Rightarrow> string \<Rightarrow> bytes \<Rightarrow> ('w, 'z, unit res) ks_op" where
  "replace_file E p dat =
     (let tmp = p @ ''.tmp'' in
      attempt (os_WriteFile E tmp dat) (fail_wrap ''keystore: write'') (\<lambda>_.
      attempt (os_Rename E tmp p)
        (\<lambda>e. do { os_Remove E tmp; fail_wrap ''keystore: rename'' e }) (\<lambda>_. ok ())))"

definition Keystore_write :: "'w env \<Rightarrow> Keystore \<Rightarrow> address \<Rightarrow> PrivateKey \<Rightarrow> ('w, 'z, unit res) ks_op" where
  "Keystore_write E K addr priv =
     attempt (ext (randRead E saltLen)) (fail_wrap ''keystore: salt'') (\<lambda>salt.
     let kdf = defaultKDF\<lparr>kdf_Salt := salt\<rparr> in
     attempt (ret (IDKey E (ks_password K) salt kdf)) fail (\<lambda>dk.
     attempt (ret (newGCM dk)) fail (\<lambda>gcm.
     attempt (ext (randRead E gcmNonceSize)) (fail_wrap ''keystore: nonce'') (\<lambda>n.
     let doc = key_document E addr kdf n (gcmSeal E gcm n (fromECDSA E priv)) in
     attempt (ret (marshalKeyFile E doc)) (fail_wrap ''keystore: marshal'') (\<lambda>dat.
     replace_file E (path E addr) dat)))))"

definition Generate :: "'w env \<Rightarrow> Keystore \<Rightarrow> ('w, 'z, address res) ks_op" where
  "Generate E K =
     attempt (ext (generateKey E)) (fail_wrap ''keystore: generate key'') (\<lambda>priv.
     let addr = pubkeyToAddress E priv in
     attempt (Keystore_write E K addr priv) fail (\<lambda>_. ok addr))"

text \<open>\<open>List\<close>: \<open>os.ReadDir\<close> returns the entries sorted by name.\<close>

definition list_entry :: "'w env \<Rightarrow> string \<times> dirent \<Rightarrow> address option" where
  "list_entry E p =
     (case p of (name, e) \<Rightarrow>
        if e = Directory then None
        else if \<not> HasSuffix name ''.json'' then None
        else (let hexAddr = TrimSuffix name ''.json'' in
              if \<not> isHexAddress E hexAddr then None else Some (hexToAddress E hexAddr)))"

definition Keystore_List :: "'w env \<Rightarrow> ('w, 'z, address list res) ks_op" where
  "Keystore_List E = do {
     f \<leftarrow> ext (fsFault E);
     fs \<leftarrow> reads files;
     (case f of Some e \<Rightarrow> fail_wrap ''keystore: readdir'' e
      | None \<Rightarrow> ok (List.map_filter (list_entry E) (order_by fst fs))) }"

section \<open>Facts about the keystore\<close>

lemma path_tmp_neq [simp]: "p @ ''.tmp'' \<noteq> p"
  by simp

lemma Load_leaves_files [leaves_rules]: "leaves files (Keystore_Load E K addr)"
  unfolding Keystore_Load_def os_ReadFile_def
  by (intro leaves_rules) (simp_all add: leaves_def run_ext)

lemmas os_defs = os_ReadFile_def os_WriteFile_def os_Rename_def os_Remove_def

lemma os_leaves_db [leaves_rules]:
  "leaves db (os_ReadFile E n)" "leaves db (os_WriteFile E n dat)"
  "leaves db (os_Rename E n n')" "leaves db (os_Remove E n)"
  unfolding os_defs by ((intro leaves_rules leaves_writes; simp)+)

lemma Load_leaves_db [leaves_rules]: "leaves db (Keystore_Load E K addr)"
  unfolding Keystore_Load_def by (intro leaves_rules)

lemma write_leaves_db [leaves_rules]: "leaves db (Keystore_write E K addr priv)"
  unfolding Keystore_write_def replace_file_def Let_def by (intro leaves_rules)

lemma Generate_leaves_db [leaves_rules]: "leaves db (Generate E K)"
  unfolding Generate_def Let_def by (intro leaves_rules)

lemma decode_key_address: "decode_key E K addr dat = Inr priv \<Longrightarrow> pubkeyToAddress E priv = addr"
  by (auto simp: decode_key_def Let_def split: sum.splits if_splits)

lemma run_ReadFile:
  assumes "fst (fsFault E (world s)) = None" and "map_of (files s) n = Some (Regular dat)"
  shows "fst (run_state (os_ReadFile E n) s) = Inr dat"
  using assms by (simp add: os_ReadFile_def run_ext)

text \<open>\<open>replace_file\<close> either installs the new contents, or leaves the named entry as it was.\<close>

lemma replace_file_effect:
  assumes "run_state (replace_file E p dat) s = (r, s')"
  shows "(r = Inr () \<and> map_of (files s') = (map_of (files s))(p @ ''.tmp'' := None, p \<mapsto> Regular dat))
    \<or> (\<exists>e. r = Inl e \<and> map_of (files s') p = map_of (files s) p \<and>
         (\<forall>n. n \<noteq> p @ ''.tmp'' \<longrightarrow> map_of (files s') n = map_of (files s) n))"
  using assms
  by (auto simp: replace_file_def Let_def os_WriteFile_def os_Rename_def os_Remove_def run_attempt run_ext
      split: option.splits if_splits prod.splits sum.splits)

text \<open>
  Documented behaviour of the libraries the keystore rests on: AES-GCM opens what it sealed
  under the same key and nonce, an ECDSA key survives its byte form, JSON decoding inverts
  encoding of the file document, and \<open>rand.Read\<close> fills the whole buffer.
\<close>

definition keystore_laws :: "'w env \<Rightarrow> bool" where
  "keystore_laws E \<longleftrightarrow>
     (\<forall>key n pt. gcmOpen E key n (gcmSeal E key n pt) = Inr pt) \<and>
     (\<forall>k. toECDSA E (fromECDSA E k) = Inr k) \<and>
     (\<forall>f dat. marshalKeyFile E f = Inr dat \<longrightarrow> unmarshalKeyFile E dat = Inr f) \<and>
     (\<forall>n w bs. fst (randRead E n w) = Inr bs \<longrightarrow> length bs = n)"

lemma decode_key_document:
  assumes laws: "keystore_laws E" and n: "length n = gcmNonceSize"
    and dk: "IDKey E (ks_password K) salt (defaultKDF\<lparr>kdf_Salt := salt\<rparr>) = Inr dk" and gcm: "newGCM dk = Inr gcm"
    and doc: "marshalKeyFile E (key_document E (pubkeyToAddress E priv) (defaultKDF\<lparr>kdf_Salt := salt\<rparr>) n
                (gcmSeal E gcm n (fromECDSA E priv))) = Inr dat"
  shows "decode_key E K (pubkeyToAddress E priv) dat = Inr priv"
proof -
  from laws doc have "unmarshalKeyFile E dat =
      Inr (key_document E (pubkeyToAddress E priv) (defaultKDF\<lparr>kdf_Salt := salt\<rparr>) n
        (gcmSeal E gcm n (fromECDSA E priv)))"
    by (auto simp: keystore_laws_def)
  moreover have "gcm_Open E gcm n (gcmSeal E gcm n (fromECDSA E priv)) = Inr (fromECDSA E priv)"
    and "toECDSA E (fromECDSA E priv) = Inr priv"
    using laws n by (auto simp: keystore_laws_def gcm_Open_def)
  ultimately show ?thesis
    using dk gcm by (simp add: decode_key_def key_document_def defaultKDF_def)
qed

text \<open>A successful \<open>write\<close> leaves a file that decodes to the key.\<close>

lemma write_decodes:
  assumes "keystore_laws E"
    and "run_state (Keystore_write E K (pubkeyToAddress E priv) priv) s = (Inr (), s')"
  shows "\<exists>dat. map_of (files s') (path E (pubkeyToAddress E priv)) = Some (Regular dat) \<and>
    decode_key E K (pubkeyToAddress E priv) dat = Inr priv"
proof -
  let ?p = "path E (pubkeyToAddress E priv)"
  from assms(2) obtain salt dk gcm n dat s1 where
      dk: "IDKey E (ks_password K) salt (defaultKDF\<lparr>kdf_Salt := salt\<rparr>) = Inr dk" and gcm: "newGCM dk = Inr gcm"
    and n: "fst (randRead E gcmNonceSize (snd (randRead E saltLen (world s)))) = Inr n"
    and doc: "marshalKeyFile E (key_document E (pubkeyToAddress E priv) (defaultKDF\<lparr>kdf_Salt := salt\<rparr>) n
                (gcmSeal E gcm n (fromECDSA E priv))) = Inr dat"
    and run: "run_state (replace_file E ?p dat) s1 = (Inr (), s')"
    by (auto simp: Keystore_write_def Let_def run_attempt run_ext split: sum.splits prod.splits)
  from assms(1) n have "length n = gcmNonceSize" by (auto simp: keystore_laws_def)
  then have "decode_key E K (pubkeyToAddress E priv) dat = Inr priv"
    by (rule decode_key_document [OF assms(1) _ dk gcm doc])
  moreover from replace_file_effect [OF run] have "map_of (files s') ?p = Some (Regular dat)" by auto
  ultimately show ?thesis by blast
qed

lemma write_effect:
  assumes "run_state (Keystore_write E K addr priv) s = (r, s')"
  shows "(\<forall>n. n \<noteq> path E addr \<longrightarrow> n \<noteq> path E addr @ ''.tmp'' \<longrightarrow> map_of (files s') n = map_of (files s) n) \<and>
    (\<forall>e. r = Inl e \<longrightarrow> map_of (files s') (path E addr) = map_of (files s) (path E addr))"
  using assms
  by (auto simp: Keystore_write_def Let_def run_attempt run_ext
      split: sum.splits prod.splits dest!: replace_file_effect)

lemma write_then_load:
  assumes "keystore_laws E" and "run_state (Keystore_write E K (pubkeyToAddress E priv) priv) s = (Inr (), s')"
    and "\<And>w. fst (fsFault E w) = None"
  shows "fst (run_state (Keystore_Load E K (pubkeyToAddress E priv)) s') = Inr priv"
proof -
  from write_decodes [OF assms(1,2)] obtain dat where
    "map_of (files s') (path E (pubkeyToAddress E priv)) = Some (Regular dat)"
    "decode_key E K (pubkeyToAddress E priv) dat = Inr priv" by blast
  with assms(3) show ?thesis by (simp add: Keystore_Load_def os_ReadFile_def run_attempt run_ext)
qed

lemma Load_address:
  assumes "run_state (Keystore_Load E K a) s = (Inr priv, s')"
  shows "pubkeyToAddress E priv = a \<and> (\<exists>dat. map_of (files s) (path E a) = Some (Regular dat))"
  using assms
  by (auto simp: Keystore_Load_def os_ReadFile_def run_attempt run_ext split: option.splits dirent.splits
      dest: decode_key_address)

end
