(* ===== verification/App.thy ===== *)
theory App
  imports Keystore
begin

text \<open>
  \<open>internal/app\<close>: creating an app with its treasury, its signer pool, its bearer token and
  its gas policy; authenticating a token; listing an app's accounts.
\<close>

section \<open>Types and small helpers\<close>

definition minPoolSize :: int where "minPoolSize = 1"
definition maxPoolSize :: int where "maxPoolSize = 1024"
definition bearerTokenLen :: nat where "bearerTokenLen = 32"
definition bearerTokenTag :: string where "bearerTokenTag = ''tk_''"

record App_Service =
  as_ks :: Keystore

definition App_NewService :: "Keystore \<Rightarrow> App_Service" where
  "App_NewService ks = \<lparr>as_ks = ks\<rparr>"

record CreateInput =
  ci_Name :: string
  ci_PoolSize :: int
  ci_DefaultCallbackURL :: string
  ci_SignerMinBalance :: string
  ci_SignerRefillAmount :: string
  ci_TreasuryMinBalance :: string

record CreateResult =
  cr_AppID :: string
  cr_BearerToken :: string
  cr_DefaultCallbackSecret :: string
  cr_TreasuryAddress :: address
  cr_SignerAddresses :: "address list"

definition nonEmptyOrZero :: "string \<Rightarrow> string" where
  "nonEmptyOrZero s = (if s = [] then ''0'' else s)"

definition parseUintOrZero :: "string \<Rightarrow> int" where
  "parseUintOrZero s =
     (if s = [] then 0
      else (case SetString10 s of None \<Rightarrow> 0 | Some v \<Rightarrow> if v < 0 then 0 else v))"

definition validateGasPolicy :: "string \<Rightarrow> string \<Rightarrow> unit res" where
  "validateGasPolicy signerMin signerRefill =
     (let mn = parseUintOrZero signerMin; refill = parseUintOrZero signerRefill in
      if mn = 0 \<and> refill = 0 then Inr ()
      else if mn = 0 \<or> refill = 0
        then Inl (ErrMsg ''signer_min_balance and signer_refill_amount must be set together (or both zero)'')
      else if refill \<le> mn
        then Inl (ErrMsg ''signer_refill_amount must be greater than signer_min_balance'')
      else Inr ())"

definition newBearerToken :: "'w env \<Rightarrow> ('w, 'z, (string \<times> bytes) res) op" where
  "newBearerToken E =
     attempt (ext (randRead E bearerTokenLen)) (fail_wrap ''token rand'') (\<lambda>raw.
     let token = bearerTokenTag @ b64_RawURL raw in ok (token, sha256 E token))"

definition newCallbackSecret :: "'w env \<Rightarrow> ('w, 'z, string res) op" where
  "newCallbackSecret E =
     attempt (ext (randRead E 32)) (fail_wrap ''callback secret rand'') (\<lambda>raw.
     ok (''whsec_'' @ b64_RawURL raw))"

section \<open>Create\<close>

fun generate_signers :: "'w env \<Rightarrow> Keystore \<Rightarrow> nat \<Rightarrow> nat \<Rightarrow> ('w, 'z, address list res) ks_op" where
  "generate_signers E K i 0 = ok []"
| "generate_signers E K i (Suc n) =
     attempt (Generate E K) (fail_wrap (''generate signer '' @ show_nat i)) (\<lambda>a.
     attempt (generate_signers E K (Suc i) n) fail (\<lambda>as. ok (a # as)))"

text \<open>
  The \<open>INSERT INTO apps\<close>: the name and the URL have to be storable texts, the three thresholds
  are texts that the server reads as \<open>NUMERIC(78, 0)\<close>.
\<close>

definition insert_app ::
  "'w env \<Rightarrow> string \<Rightarrow> int \<Rightarrow> string \<Rightarrow> int \<Rightarrow> string \<Rightarrow> string \<Rightarrow> address \<Rightarrow> bytes
   \<Rightarrow> string \<Rightarrow> string \<Rightarrow> string \<Rightarrow> database \<Rightarrow> database res" where
  "insert_app E i now name poolSize url secret treasury hash smin sref tmin d =
     text_param name (text_param url
     (case (pgNumeric E smin, pgNumeric E sref, pgNumeric E tmin) of
        (Some a, Some b, Some c) \<Rightarrow>
          insert_app_row
            \<lparr>a_id = i, a_name = name, a_treasury_address = lowerHex E treasury,
             a_bearer_token_hash = hash, a_pool_size = poolSize,
             a_default_callback_url = nullif_empty url, a_default_callback_secret = nullif_empty secret,
             a_signer_min_balance = a, a_signer_refill_amount = b, a_treasury_min_balance = c,
             a_disabled = False, a_created_at = now\<rparr> d
      | _ \<Rightarrow> Inl (ErrBadValue ''invalid input syntax for type numeric'')))"

text \<open>\<open>CopyFrom\<close> into \<open>signers\<close>: all rows or none.\<close>

fun copy_signers :: "'w env \<Rightarrow> string \<Rightarrow> int \<Rightarrow> address list \<Rightarrow> database \<Rightarrow> database res" where
  "copy_signers E i now [] d = Inr d"
| "copy_signers E i now (a # as) d =
     (case insert_signer_row \<lparr>s_address = lowerHex E a, s_app_id = i, s_created_at = now,
                              s_last_used_at = None\<rparr> d of
        Inl e \<Rightarrow> Inl e | Inr d' \<Rightarrow> copy_signers E i now as d')"

definition App_insert ::
  "'w env \<Rightarrow> string \<Rightarrow> int \<Rightarrow> string \<Rightarrow> string \<Rightarrow> address \<Rightarrow> address list \<Rightarrow> bytes
   \<Rightarrow> string \<Rightarrow> string \<Rightarrow> string \<Rightarrow> ('w, 'z, string res) op" where
  "App_insert E name poolSize url secret treasury addrs hash smin sref tmin =
     attempt (tx_begin E) fail (\<lambda>(now, d). do {
     i \<leftarrow> ext (genUuid E);
     attempt (tx_two E (insert_app E i now name poolSize url secret treasury hash smin sref tmin)
                (copy_signers E i now addrs) d) fail (\<lambda>_. ok i) })"

definition Create :: "'w env \<Rightarrow> Keystore \<Rightarrow> CreateInput \<Rightarrow> ('w, 'z, CreateResult res) ks_op" where
  "Create E K inp =
     (let name = TrimSpace (ci_Name inp) in
      if name = [] then fail (ErrMsg ''name is required'')
      else if ci_PoolSize inp < minPoolSize \<or> maxPoolSize < ci_PoolSize inp
        then fail (ErrMsg (''pool_size must be between '' @ big_String minPoolSize @ '' and '' @ big_String maxPoolSize))
      else
      attempt (ret (validateGasPolicy (ci_SignerMinBalance inp) (ci_SignerRefillAmount inp))) fail (\<lambda>_.
      attempt (Generate E K) (fail_wrap ''generate treasury'') (\<lambda>treasury.
      attempt (generate_signers E K 0 (nat (ci_PoolSize inp))) fail (\<lambda>addrs.
      attempt (newBearerToken E) fail (\<lambda>(token, hash).
      attempt (if ci_DefaultCallbackURL inp \<noteq> [] then newCallbackSecret E else ok []) fail (\<lambda>secret.
      attempt (App_insert E name (ci_PoolSize inp) (ci_DefaultCallbackURL inp) secret treasury addrs hash
                 (nonEmptyOrZero (ci_SignerMinBalance inp)) (nonEmptyOrZero (ci_SignerRefillAmount inp))
                 (nonEmptyOrZero (ci_TreasuryMinBalance inp)))
        (fail_wrap ''insert'') (\<lambda>appID.
      ok \<lparr>cr_AppID = appID, cr_BearerToken = token, cr_DefaultCallbackSecret = secret,
          cr_TreasuryAddress = treasury, cr_SignerAddresses = addrs\<rparr>)))))))"

section \<open>Authenticate and accounts\<close>

record Identity =
  id_AppID :: string
  id_PoolSize :: int
  id_Disabled :: bool

definition Authenticate :: "'w env \<Rightarrow> string \<Rightarrow> ('w, 'z, Identity res) op" where
  "Authenticate E bearerToken =
     (if bearerToken = [] then fail ErrInvalidToken
      else (let sum = sha256 E bearerToken in
        attempt (db_query E (\<lambda>now d. case lookup_row a_bearer_token_hash sum (apps d) of
             None \<Rightarrow> Inl ErrNoRows
           | Some a \<Rightarrow> Inr \<lparr>id_AppID = a_id a, id_PoolSize = a_pool_size a, id_Disabled = a_disabled a\<rparr>))
        (\<lambda>e. if errors_Is e ErrNoRows then fail ErrInvalidToken else fail_wrap ''authenticate'' e)
        ok))"

record SignerInfo =
  si_Address :: address
  si_LastUsedAt :: "int option"

record AppAccounts =
  aa_Treasury :: address
  aa_Signers :: "SignerInfo list"

text \<open>\<open>SELECT ... FROM signers WHERE app_id = $1 ORDER BY created_at, address\<close>.\<close>

definition signers_of :: "string \<Rightarrow> database \<Rightarrow> signers_row list" where
  "signers_of appID d =
     order_by (\<lambda>r. (s_created_at r, s_address r)) (filter (\<lambda>r. s_app_id r = appID) (signers d))"

definition Accounts :: "'w env \<Rightarrow> string \<Rightarrow> ('w, 'z, AppAccounts res) op" where
  "Accounts E appID =
     attempt (db_query E (\<lambda>now d. case lookup_row a_id appID (apps d) of
           None \<Rightarrow> Inl ErrNoRows | Some a \<Rightarrow> Inr (a_treasury_address a)))
       (fail_wrap ''treasury'') (\<lambda>treasuryHex.
     attempt (db_query E (\<lambda>now d. Inr (signers_of appID d))) (fail_wrap ''signers'') (\<lambda>rows.
     ok \<lparr>aa_Treasury = hexToAddress E treasuryHex,
         aa_Signers = map (\<lambda>r. \<lparr>si_Address = hexToAddress E (s_address r),
                                si_LastUsedAt = s_last_used_at r\<rparr>) rows\<rparr>))"

definition ListSigners :: "'w env \<Rightarrow> string \<Rightarrow> ('w, 'z, address list res) op" where
  "ListSigners E appID =
     attempt (db_query E (\<lambda>now d. Inr (signers_of appID d))) (fail_wrap ''list signers'') (\<lambda>rows.
     ok (map (\<lambda>r. hexToAddress E (s_address r)) rows))"

section \<open>Facts about app creation\<close>

lemma generate_signers_leaves_db [leaves_rules]: "leaves db (generate_signers E K i n)"
  by (induction n arbitrary: i) (auto intro!: leaves_rules)

lemma newBearerToken_leaves_db [leaves_rules]: "leaves db (newBearerToken E)"
  unfolding newBearerToken_def Let_def by (intro leaves_rules)

lemma newCallbackSecret_leaves_db [leaves_rules]: "leaves db (newCallbackSecret E)"
  unfolding newCallbackSecret_def by (intro leaves_rules)

lemma generate_signers_length:
  "run_state (generate_signers E K i n) s = (Inr as, s') \<Longrightarrow> length as = n"
proof (induction n arbitrary: i s as)
  case (Suc n)
  then show ?case by (auto elim!: attempt_failE)
qed simp

definition new_signer_rows :: "'w env \<Rightarrow> string \<Rightarrow> int \<Rightarrow> address list \<Rightarrow> signers_row list" where
  "new_signer_rows E i now as =
     map (\<lambda>a. \<lparr>s_address = lowerHex E a, s_app_id = i, s_created_at = now, s_last_used_at = None\<rparr>) as"

lemma copy_signers_Inr:
  "copy_signers E i now as d = Inr d' \<Longrightarrow> d' = d\<lparr>signers := signers d @ new_signer_rows E i now as\<rparr>"
proof (induction as arbitrary: d)
  case (Cons a as)
  let ?r = "\<lparr>s_address = lowerHex E a, s_app_id = i, s_created_at = now, s_last_used_at = None\<rparr>"
  from Cons.prems obtain d1 where d1: "insert_signer_row ?r d = Inr d1" and rest: "copy_signers E i now as d1 = Inr d'"
    by (auto split: sum.splits)
  from d1 have "d1 = d\<lparr>signers := signers d @ [?r]\<rparr>" by (simp add: insert_signer_row_Inr)
  with Cons.IH [OF rest] show ?case by (simp add: new_signer_rows_def)
qed (simp add: new_signer_rows_def)

lemma db_wf_copy_signers: "db_wf d \<Longrightarrow> copy_signers E i now as d = Inr d' \<Longrightarrow> db_wf d'"
  by (induction as arbitrary: d) (auto split: sum.splits dest: db_wf_insert_signer)

text \<open>The app row a successful insert adds.\<close>

definition new_app_row ::
  "'w env \<Rightarrow> string \<Rightarrow> int \<Rightarrow> string \<Rightarrow> int \<Rightarrow> string \<Rightarrow> string \<Rightarrow> address \<Rightarrow> bytes
   \<Rightarrow> numeric \<Rightarrow> numeric \<Rightarrow> numeric \<Rightarrow> apps_row" where
  "new_app_row E i now name poolSize url secret treasury hash a b c =
     \<lparr>a_id = i, a_name = name, a_treasury_address = lowerHex E treasury,
      a_bearer_token_hash = hash, a_pool_size = poolSize,
      a_default_callback_url = nullif_empty url, a_default_callback_secret = nullif_empty secret,
      a_signer_min_balance = a, a_signer_refill_amount = b, a_treasury_min_balance = c,
      a_disabled = False, a_created_at = now\<rparr>"

lemma insert_app_Inr:
  assumes "insert_app E i now name poolSize url secret treasury hash smin sref tmin d = Inr d'"
  obtains a b c where "pgNumeric E smin = Some a" "pgNumeric E sref = Some b" "pgNumeric E tmin = Some c"
    "i \<notin> a_id ` set (apps d)" "hash \<notin> a_bearer_token_hash ` set (apps d)"
    "d' = d\<lparr>apps := apps d @ [new_app_row E i now name poolSize url secret treasury hash a b c]\<rparr>"
  using assms
  by (auto simp: insert_app_def text_param_def new_app_row_def insert_app_row_Inr split: option.splits if_splits)

lemma db_wf_insert_app_stmt:
  "db_wf d \<Longrightarrow> insert_app E i now name poolSize url secret treasury hash smin sref tmin d = Inr d' \<Longrightarrow> db_wf d'"
  by (auto simp: insert_app_def text_param_def split: option.splits if_splits intro: db_wf_insert_app)

text \<open>The transaction of \<open>insert\<close>: all of it or nothing.\<close>

lemma App_insert_run:
  obtains (failed) e w where
    "run_state (App_insert E name poolSize url secret treasury addrs hash smin sref tmin) s = (Inl e, s\<lparr>world := w\<rparr>)"
  | (committed) i now d1 d2 w where
    "insert_app E i now name poolSize url secret treasury hash smin sref tmin (db s) = Inr d1"
    "copy_signers E i now addrs d1 = Inr d2"
    "run_state (App_insert E name poolSize url secret treasury addrs hash smin sref tmin) s
       = (Inr i, s\<lparr>world := w, db := d2\<rparr>)"
proof (cases rule: run_tx_begin [of E s])
  case (failed e w)
  then show ?thesis by (intro that(1)) (simp add: App_insert_def)
next
  case (begun now w)
  define i where "i = fst (genUuid E w)"
  define s1 where "s1 = s\<lparr>world := snd (genUuid E w)\<rparr>"
  let ?f = "insert_app E i now name poolSize url secret treasury hash smin sref tmin"
  let ?g = "copy_signers E i now addrs"
  from begun have run: "run_state (App_insert E name poolSize url secret treasury addrs hash smin sref tmin) s =
      run_state (attempt (tx_two E ?f ?g (db s)) fail (\<lambda>_. ok i)) s1"
    by (simp add: App_insert_def run_ext i_def s1_def)
  show ?thesis
  proof (cases rule: run_tx_two [of E ?f ?g "db s" s1])
    case (failed e w)
    with run show ?thesis by (intro that(1)) (simp add: s1_def)
  next
    case (committed d1 d2 w)
    with run show ?thesis by (intro that(2)) (simp_all add: s1_def)
  qed
qed

lemma Create_success:
  assumes "run_state (Create E K inp) s = (Inr r, s')"
  obtains now a b c hash where
    "TrimSpace (ci_Name inp) \<noteq> []" "1 \<le> ci_PoolSize inp" "ci_PoolSize inp \<le> 1024"
    "validateGasPolicy (ci_SignerMinBalance inp) (ci_SignerRefillAmount inp) = Inr ()"
    "length (cr_SignerAddresses r) = nat (ci_PoolSize inp)"
    "(cr_DefaultCallbackSecret r = []) = (ci_DefaultCallbackURL inp = [])"
    "pgNumeric E (nonEmptyOrZero (ci_SignerMinBalance inp)) = Some a"
    "pgNumeric E (nonEmptyOrZero (ci_SignerRefillAmount inp)) = Some b"
    "pgNumeric E (nonEmptyOrZero (ci_TreasuryMinBalance inp)) = Some c"
    "hash = sha256 E (cr_BearerToken r)"
    "cr_AppID r \<notin> a_id ` set (apps (db s))" "hash \<notin> a_bearer_token_hash ` set (apps (db s))"
    "db s' = (db s)
       \<lparr>apps := apps (db s) @ [new_app_row E (cr_AppID r) now (TrimSpace (ci_Name inp)) (ci_PoolSize inp)
            (ci_DefaultCallbackURL inp) (cr_DefaultCallbackSecret r) (cr_TreasuryAddress r) hash a b c],
        signers := signers (db s) @ new_signer_rows E (cr_AppID r) now (cr_SignerAddresses r)\<rparr>"
    "HasPrefix (cr_BearerToken r) ''tk_''"
proof -
  let ?name = "TrimSpace (ci_Name inp)"
  let ?smin = "nonEmptyOrZero (ci_SignerMinBalance inp)"
  let ?sref = "nonEmptyOrZero (ci_SignerRefillAmount inp)"
  let ?tmin = "nonEmptyOrZero (ci_TreasuryMinBalance inp)"
  from assms have name: "?name \<noteq> []" and size: "1 \<le> ci_PoolSize inp" "ci_PoolSize inp \<le> 1024"
    by (auto simp: Create_def Let_def minPoolSize_def maxPoolSize_def split: if_splits)
  with assms obtain treasury s1 addrs s2 token hash s3 secret s4 i where
      pol: "validateGasPolicy (ci_SignerMinBalance inp) (ci_SignerRefillAmount inp) = Inr ()"
    and g: "run_state (Generate E K) s = (Inr treasury, s1)"
    and gs: "run_state (generate_signers E K 0 (nat (ci_PoolSize inp))) s1 = (Inr addrs, s2)"
    and tk: "run_state (newBearerToken E) s2 = (Inr (token, hash), s3)"
    and sc: "run_state (if ci_DefaultCallbackURL inp \<noteq> [] then newCallbackSecret E else ok []) s3 = (Inr secret, s4)"
    and ins: "run_state (App_insert E ?name (ci_PoolSize inp) (ci_DefaultCallbackURL inp) secret treasury addrs hash
         ?smin ?sref ?tmin) s4 = (Inr i, s')"
    and r: "r = \<lparr>cr_AppID = i, cr_BearerToken = token, cr_DefaultCallbackSecret = secret,
          cr_TreasuryAddress = treasury, cr_SignerAddresses = addrs\<rparr>"
    by (auto simp: Create_def Let_def minPoolSize_def maxPoolSize_def elim!: attempt_failE)
  have sec: "(secret = []) = (ci_DefaultCallbackURL inp = [])"
    using sc by (auto simp: newCallbackSecret_def split: if_splits elim!: attempt_failE)
  have hash: "hash = sha256 E token" and tag: "HasPrefix token ''tk_''"
    using tk by (auto simp: newBearerToken_def Let_def bearerTokenTag_def HasPrefix_def elim!: attempt_failE)
  have "db s4 = db s"
    using leavesD [OF Generate_leaves_db g] leavesD [OF generate_signers_leaves_db gs]
      leavesD [OF newBearerToken_leaves_db tk]
      leavesD [OF leaves_if [OF newCallbackSecret_leaves_db leaves_return] sc]
    by simp
  from ins obtain now d1 d2 w where
      i1: "insert_app E i now ?name (ci_PoolSize inp) (ci_DefaultCallbackURL inp) secret treasury hash ?smin ?sref ?tmin (db s4) = Inr d1"
    and i2: "copy_signers E i now addrs d1 = Inr d2" and s': "s' = s4\<lparr>world := w, db := d2\<rparr>"
    by (cases rule: App_insert_run [of E ?name "ci_PoolSize inp" "ci_DefaultCallbackURL inp" secret treasury addrs hash
          ?smin ?sref ?tmin s4]) auto
  from i1 show ?thesis
  proof (rule insert_app_Inr)
    fix a b c
    assume *: "pgNumeric E ?smin = Some a" "pgNumeric E ?sref = Some b" "pgNumeric E ?tmin = Some c"
      "i \<notin> a_id ` set (apps (db s4))" "hash \<notin> a_bearer_token_hash ` set (apps (db s4))"
      "d1 = (db s4)\<lparr>apps := apps (db s4) @ [new_app_row E i now ?name (ci_PoolSize inp)
          (ci_DefaultCallbackURL inp) secret treasury hash a b c]\<rparr>"
    with copy_signers_Inr [OF i2] \<open>db s4 = db s\<close> s' r name size pol sec hash tag generate_signers_length [OF gs]
    show ?thesis by (intro that) simp_all
  qed
qed


lemma App_insert_keeps_wf: "keeps (\<lambda>s. db_wf (db s)) (App_insert E n p u sc t as h x y z)"
proof (rule keepsI)
  fix s r s' assume wf: "db_wf (db s)" and run: "run_state (App_insert E n p u sc t as h x y z) s = (r, s')"
  show "db_wf (db s')"
    by (cases rule: App_insert_run [of E n p u sc t as h x y z s])
       (use wf run in \<open>auto dest: db_wf_insert_app_stmt db_wf_copy_signers\<close>)
qed

lemma App_insert_all_or_nothing: "all_or_nothing db (App_insert E n p u sc t as h x y z)"
  unfolding all_or_nothing_def
proof (intro allI impI)
  fix s :: "('a, 'b) base_scheme" and e s'
  assume "run_state (App_insert E n p u sc t as h x y z) s = (Inl e, s')"
  then show "db s' = db s"
    by (cases rule: App_insert_run [of E n p u sc t as h x y z s]) auto
qed

lemma Create_keeps_wf: "keeps (\<lambda>s. db_wf (db s)) (Create E K inp)"
  unfolding Create_def Let_def
  by (intro keeps_rules App_insert_keeps_wf Generate_leaves_db [THEN leaves_db_keeps]
      generate_signers_leaves_db [THEN leaves_db_keeps] newBearerToken_leaves_db [THEN leaves_db_keeps]
      newCallbackSecret_leaves_db [THEN leaves_db_keeps])

lemma Create_all_or_nothing: "all_or_nothing db (Create E K inp)"
  unfolding Create_def Let_def
  by (intro aon_attempt_last App_insert_all_or_nothing atomic_rules leaves_rules)

section \<open>Reading a created app back\<close>

text \<open>A created app can use its token, and its accounts read back as they were created.\<close>

lemma Create_then_Authenticate:
  assumes "run_state (Create E K inp) s = (Inr r, s')" and "no_faults E"
  shows "fst (run_state (Authenticate E (cr_BearerToken r)) s') =
    Inr \<lparr>id_AppID = cr_AppID r, id_PoolSize = ci_PoolSize inp, id_Disabled = False\<rparr>"
proof (rule Create_success [OF assms(1)])
  fix now a b c hash
  let ?row = "new_app_row E (cr_AppID r) now (TrimSpace (ci_Name inp)) (ci_PoolSize inp)
            (ci_DefaultCallbackURL inp) (cr_DefaultCallbackSecret r) (cr_TreasuryAddress r) hash a b c"
  let ?q = "\<lambda>now d. case lookup_row a_bearer_token_hash hash (apps d) of
             None \<Rightarrow> Inl ErrNoRows
           | Some a \<Rightarrow> Inr \<lparr>id_AppID = a_id a, id_PoolSize = a_pool_size a, id_Disabled = a_disabled a\<rparr>"
  assume hash: "hash = sha256 E (cr_BearerToken r)" and fresh: "hash \<notin> a_bearer_token_hash ` set (apps (db s))"
    and db': "db s' = (db s)\<lparr>apps := apps (db s) @ [?row],
        signers := signers (db s) @ new_signer_rows E (cr_AppID r) now (cr_SignerAddresses r)\<rparr>"
    and tag: "HasPrefix (cr_BearerToken r) ''tk_''"
  have l: "lookup_row a_bearer_token_hash hash (apps (db s')) = Some ?row"
    using fresh db' by (simp add: lookup_new_row new_app_row_def)
  obtain t w where "run_state (db_query E ?q) s' = (?q t (db s'), s'\<lparr>world := w\<rparr>)"
    using run_db_query_ok [OF assms(2), of ?q s'] by blast
  moreover have "cr_BearerToken r \<noteq> []" using tag by (auto simp: HasPrefix_def)
  ultimately show ?thesis
    using l hash by (simp add: Authenticate_def Let_def new_app_row_def)
qed

lemma signers_of_new:
  assumes "i \<notin> s_app_id ` set (signers d)"
  shows "mset (signers_of i (d\<lparr>apps := as, signers := signers d @ new_signer_rows E i now addrs\<rparr>)) = mset (new_signer_rows E i now addrs)"
proof -
  have "filter (\<lambda>r. s_app_id r = i) (signers d) = []" using assms by (auto simp: filter_empty_conv)
  moreover have "filter (\<lambda>r. s_app_id r = i) (new_signer_rows E i now addrs) = new_signer_rows E i now addrs"
    by (simp add: new_signer_rows_def filter_map comp_def)
  ultimately show ?thesis by (simp add: signers_of_def)
qed

lemma Create_then_Accounts:
  assumes "run_state (Create E K inp) s = (Inr r, s')" and "no_faults E" and "hex_roundtrip E" and "db_wf (db s)"
  shows "\<exists>acc s2. run_state (Accounts E (cr_AppID r)) s' = (Inr acc, s2) \<and> aa_Treasury acc = cr_TreasuryAddress r \<and>
    mset (map si_Address (aa_Signers acc)) = mset (cr_SignerAddresses r) \<and> length (aa_Signers acc) = nat (ci_PoolSize inp)"
proof (rule Create_success [OF assms(1)])
  fix now a b c hash
  let ?i = "cr_AppID r"
  let ?row = "new_app_row E ?i now (TrimSpace (ci_Name inp)) (ci_PoolSize inp)
            (ci_DefaultCallbackURL inp) (cr_DefaultCallbackSecret r) (cr_TreasuryAddress r) hash a b c"
  assume len: "length (cr_SignerAddresses r) = nat (ci_PoolSize inp)" and fresh: "?i \<notin> a_id ` set (apps (db s))"
    and db': "db s' = (db s)\<lparr>apps := apps (db s) @ [?row],
        signers := signers (db s) @ new_signer_rows E ?i now (cr_SignerAddresses r)\<rparr>"
  let ?q = "\<lambda>now d. case lookup_row a_id ?i (apps d) of None \<Rightarrow> Inl ErrNoRows | Some a \<Rightarrow> Inr (a_treasury_address a)"
  let ?p = "\<lambda>now d. Inr (signers_of ?i d)"
  have l: "lookup_row a_id ?i (apps (db s')) = Some ?row" using fresh db' by (simp add: lookup_new_row new_app_row_def)
  obtain t1 w1 where q: "run_state (db_query E ?q) s' = (?q t1 (db s'), s'\<lparr>world := w1\<rparr>)"
    using run_db_query_ok [OF assms(2), of ?q s'] by blast
  obtain t2 w2 where p: "run_state (db_query E ?p) (s'\<lparr>world := w1\<rparr>) = (?p t2 (db s'), s'\<lparr>world := w2\<rparr>)"
    using run_db_query_ok [OF assms(2), of ?p "s'\<lparr>world := w1\<rparr>"] by auto
  have "?i \<notin> s_app_id ` set (signers (db s))" using assms(4) fresh by (auto simp: db_wf_def)
  from signers_of_new [OF this] db'
  have m: "mset (signers_of ?i (db s')) = mset (new_signer_rows E ?i now (cr_SignerAddresses r))" by simp
  have "mset (map (\<lambda>x. hexToAddress E (s_address x)) (signers_of ?i (db s'))) = mset (cr_SignerAddresses r)"
    using arg_cong [OF m, of "image_mset (\<lambda>x. hexToAddress E (s_address x))"] assms(3)
    by (simp add: new_signer_rows_def hex_roundtrip_def multiset.map_comp comp_def)
  moreover have "length (signers_of ?i (db s')) = nat (ci_PoolSize inp)"
    using m len by (metis length_map new_signer_rows_def size_mset)
  ultimately show ?thesis
    using q p l assms(3) by (simp add: Accounts_def new_app_row_def hex_roundtrip_def multiset.map_comp comp_def)
qed

end
