(* ===== verification/Signer_Pool.thy ===== *)
theory Signer_Pool
  imports App
begin

text \<open>
  \<open>internal/signer\<close>: the in-memory signers with their atomic nonce counters, and the
  per-app pool with its channel of idle signers. A \<open>*Signer\<close> is a reference into a heap, so
  the pool's slice and its channel share the same objects. The channel is a queue with a
  capacity; receiving from an empty channel and sending to a full one block.
\<close>

section \<open>Signers\<close>

record Signer =
  sg_AppID :: string
  sg_Address :: address
  sg_Key :: PrivateKey
  sg_nonce :: uint64

definition Nonce :: "Signer \<Rightarrow> uint64" where
  "Nonce s = sg_nonce s"

text \<open>\<open>nonce.Add(1) - 1\<close>, \<open>nonce.Add(^uint64(0))\<close> and \<open>nonce.Store\<close> on the 64-bit counter.\<close>

definition UseNonce :: "Signer \<Rightarrow> uint64 \<times> Signer" where
  "UseNonce s = (let s' = s\<lparr>sg_nonce := sg_nonce s + 1\<rparr> in (sg_nonce s' - 1, s'))"

definition RewindNonce :: "Signer \<Rightarrow> Signer" where
  "RewindNonce s = s\<lparr>sg_nonce := sg_nonce s + (- 1)\<rparr>"

definition ResetNonce :: "uint64 \<Rightarrow> Signer \<Rightarrow> Signer" where
  "ResetNonce n s = s\<lparr>sg_nonce := n\<rparr>"

text \<open>
  The contract of a nonce source: using a nonce hands out the current one and moves on, and
  rewinding right after undoes it.
\<close>

locale nonce_source =
  fixes current :: "'s \<Rightarrow> uint64" and draw :: "'s \<Rightarrow> uint64 \<times> 's" and rewind :: "'s \<Rightarrow> 's"
  assumes draw_current: "fst (draw s) = current s"
    and draw_next: "current (snd (draw s)) = current s + 1"
    and rewind_draw: "rewind (snd (draw s)) = s"
begin

fun draws :: "nat \<Rightarrow> 's \<Rightarrow> uint64 list \<times> 's" where
  "draws 0 s = ([], s)"
| "draws (Suc k) s = (case draw s of (n, s1) \<Rightarrow> case draws k s1 of (ns, s2) \<Rightarrow> (n # ns, s2))"

lemma draws_consecutive: "fst (draws k s) = map (\<lambda>i. current s + of_nat i) [0..<k]"
proof (induction k arbitrary: s)
  case (Suc k)
  obtain n s1 where d: "draw s = (n, s1)" by fastforce
  obtain ns s2 where ds: "draws k s1 = (ns, s2)" by fastforce
  have n: "n = current s" and c: "current s1 = current s + 1"
    using draw_current [of s] draw_next [of s] d by simp_all
  have "ns = map (\<lambda>i. current s + 1 + of_nat i) [0..<k]" using Suc.IH [of s1] ds c by simp
  moreover have "map (\<lambda>i. current s + of_nat i) [0..<Suc k] =
      current s # map (\<lambda>i. current s + 1 + of_nat i) [0..<k]"
    by (subst upt_conv_Cons) (simp_all add: map_Suc_upt [symmetric] comp_def add.assoc del: upt_Suc map_Suc_upt)
  ultimately show ?case using d ds n by simp
qed simp

lemma draws_distinct:
  assumes "k \<le> 2 ^ 64"
  shows "distinct (fst (draws k s))"
proof -
  have "inj_on (\<lambda>i. current s + of_nat i) (set [0..<k])"
    using assms by (auto simp: inj_on_def intro!: of_nat_inj64)
  then show ?thesis by (simp add: draws_consecutive distinct_map)
qed

end

interpretation signer_nonce: nonce_source Nonce UseNonce RewindNonce
  by unfold_locales (simp_all add: Nonce_def UseNonce_def RewindNonce_def Let_def)

section \<open>The pool\<close>

type_synonym ref = nat

record appPool =
  ap_signers :: "ref list"
  ap_idle :: "ref list"
  ap_cap :: nat

record Pool =
  heap :: "Signer list"
  pool_apps :: "string \<rightharpoonup> appPool"

definition NewPool :: Pool where
  "NewPool = \<lparr>heap = [], pool_apps = Map.empty\<rparr>"

record 'w pool_state = "'w ks_state" +
  pools :: Pool

lemma pools_order [simp]:
  "s\<lparr>pools := p, world := w\<rparr> = s\<lparr>world := w, pools := p\<rparr>"
  "s\<lparr>pools := p, db := d\<rparr> = s\<lparr>db := d, pools := p\<rparr>"
  by simp_all

type_synonym ('w, 'z, 'a) pool_op = "(('w, 'z) pool_state_scheme, 'a) state"

text \<open>
  The loop of \<open>Load\<close> over the listed addresses: decrypt the key, ask the chain for the
  pending nonce, build the signer. The first failure ends it.
\<close>

fun load_signers ::
  "(address \<Rightarrow> ('s, PrivateKey res) state) \<Rightarrow> (address \<Rightarrow> ('s, uint64 res) state) \<Rightarrow> ('w env) \<Rightarrow> string
   \<Rightarrow> address list \<Rightarrow> ('s, Signer list res) state" where
  "load_signers ks noncer E appID [] = ok []"
| "load_signers ks noncer E appID (addr # addrs) =
     attempt (ks addr) (\<lambda>e. fail (Errorf (''load key '' @ addrHex E addr) e)) (\<lambda>key.
     attempt (noncer addr) (fail_wrap (''nonce '' @ addrHex E addr)) (\<lambda>n.
     attempt (load_signers ks noncer E appID addrs) fail (\<lambda>ss.
     ok (\<lparr>sg_AppID = appID, sg_Address = addr, sg_Key = key, sg_nonce = n\<rparr> # ss))))"

text \<open>Installing the freshly loaded signers, unless another loader was first.\<close>

definition install :: "string \<Rightarrow> Signer list \<Rightarrow> Pool \<Rightarrow> Pool" where
  "install appID ss p =
     (if pool_apps p appID \<noteq> None then p
      else (let refs = [length (heap p)..<length (heap p) + length ss] in
        p\<lparr>heap := heap p @ ss,
          pool_apps := (pool_apps p)(appID \<mapsto> \<lparr>ap_signers = refs, ap_idle = refs, ap_cap = length ss\<rparr>)\<rparr>))"

text \<open>
  \<open>Load\<close> holds the mutex twice: once to look whether the app is there, and once to install what
  it read in between. \<open>Load_fetch\<close> is everything before the second lock (no signers when the app
  was there already), \<open>load_with\<close> continues with the second.
\<close>

definition Load_fetch ::
  "(address \<Rightarrow> ('w, 'z, PrivateKey res) pool_op) \<Rightarrow> (address \<Rightarrow> ('w, 'z, uint64 res) pool_op)
   \<Rightarrow> (string \<Rightarrow> ('w, 'z, address list res) pool_op) \<Rightarrow> 'w env \<Rightarrow> string \<Rightarrow> ('w, 'z, Signer list option res) pool_op" where
  "Load_fetch ks noncer lister E appID = do {
     p \<leftarrow> reads pools;
     (if pool_apps p appID \<noteq> None then ok None
      else attempt (lister appID) (fail_wrap ''list signers'') (\<lambda>addrs.
        if addrs = [] then fail (ErrMsg (''no signers for app '' @ appID))
        else attempt (load_signers ks noncer E appID addrs) fail (\<lambda>ss. ok (Some ss)))) }"

definition Load_install :: "string \<Rightarrow> Signer list \<Rightarrow> ('w, 'z, unit) pool_op" where
  "Load_install appID ss = writes (\<lambda>s. s\<lparr>pools := install appID ss (pools s)\<rparr>)"

definition load_with ::
  "(string \<Rightarrow> ('w, 'z, Signer list option res) pool_op) \<Rightarrow> string \<Rightarrow> ('w, 'z, unit res) pool_op" where
  "load_with fetch appID = attempt (fetch appID) fail (\<lambda>x. case x of
       None \<Rightarrow> ok ()
     | Some ss \<Rightarrow> do { Load_install appID ss; ok () })"

definition Pool_Load ::
  "(address \<Rightarrow> ('w, 'z, PrivateKey res) pool_op) \<Rightarrow> (address \<Rightarrow> ('w, 'z, uint64 res) pool_op)
   \<Rightarrow> (string \<Rightarrow> ('w, 'z, address list res) pool_op) \<Rightarrow> 'w env \<Rightarrow> string \<Rightarrow> ('w, 'z, unit res) pool_op" where
  "Pool_Load ks noncer lister E = load_with (Load_fetch ks noncer lister E)"

text \<open>
  \<open>Checkout\<close>: the \<open>select\<close> takes the head of the idle channel or gives up with the
  context. \<open>done\<close> says whether the context branch is chosen; with an empty channel it is
  the only branch that can ever be.
\<close>

definition checkout :: "bool \<Rightarrow> string \<Rightarrow> Pool \<Rightarrow> ref res \<times> Pool" where
  "checkout gaveUp appID p =
     (case pool_apps p appID of
        None \<Rightarrow> (Inl ErrAppNotLoaded, p)
      | Some ap \<Rightarrow> (case ap_idle ap of
           [] \<Rightarrow> (Inl ContextDone, p)
         | r # rs \<Rightarrow> if gaveUp then (Inl ContextDone, p)
             else (Inr r, p\<lparr>pool_apps := (pool_apps p)(appID \<mapsto> ap\<lparr>ap_idle := rs\<rparr>)\<rparr>)))"

definition Pool_Checkout :: "'w env \<Rightarrow> string \<Rightarrow> ('w, 'z, ref res) pool_op" where
  "Pool_Checkout E appID = do {
     gaveUp \<leftarrow> ext (selectDone E);
     p \<leftarrow> reads pools;
     writes (\<lambda>s. s\<lparr>pools := snd (checkout gaveUp appID (pools s))\<rparr>);
     ret (fst (checkout gaveUp appID p)) }"

text \<open>\<open>Release\<close> sends the signer back to its app's channel.\<close>

definition release :: "ref \<Rightarrow> Pool \<Rightarrow> Pool" where
  "release r p =
     (case pool_apps p (sg_AppID (heap p ! r)) of
        None \<Rightarrow> p
      | Some ap \<Rightarrow> p\<lparr>pool_apps := (pool_apps p)(sg_AppID (heap p ! r) \<mapsto> ap\<lparr>ap_idle := ap_idle ap @ [r]\<rparr>)\<rparr>)"

definition Pool_Release :: "ref \<Rightarrow> ('w, 'z, unit) pool_op" where
  "Pool_Release r = writes (\<lambda>s. s\<lparr>pools := release r (pools s)\<rparr>)"

definition Pool_Size :: "string \<Rightarrow> Pool \<Rightarrow> nat" where
  "Pool_Size appID p = (case pool_apps p appID of None \<Rightarrow> 0 | Some ap \<Rightarrow> length (ap_signers ap))"

text \<open>Whether the send in \<open>Release\<close> would block: the buffer of the channel is full.\<close>

definition release_blocks :: "ref \<Rightarrow> Pool \<Rightarrow> bool" where
  "release_blocks r p =
     (case pool_apps p (sg_AppID (heap p ! r)) of
        None \<Rightarrow> False | Some ap \<Rightarrow> ap_cap ap \<le> length (ap_idle ap))"

text \<open>The nonce operations on a signer of the heap.\<close>

definition useNonce :: "ref \<Rightarrow> Pool \<Rightarrow> Pool" where
  "useNonce r p = p\<lparr>heap := (heap p)[r := snd (UseNonce (heap p ! r))]\<rparr>"

definition rewindNonce :: "ref \<Rightarrow> Pool \<Rightarrow> Pool" where
  "rewindNonce r p = p\<lparr>heap := (heap p)[r := RewindNonce (heap p ! r)]\<rparr>"

section \<open>The pool invariant\<close>

text \<open>
  The signers of an app are distinct references to heap objects that carry the app's id,
  the channel has room for all of them, and the idle and the held signers together are
  exactly the pool's signers, each once. \<open>held\<close> lists the signers checked out.
\<close>

definition app_inv :: "Pool \<Rightarrow> ref multiset \<Rightarrow> string \<Rightarrow> appPool \<Rightarrow> bool" where
  "app_inv p held appID ap \<longleftrightarrow>
     ap_signers ap \<noteq> [] \<and> distinct (ap_signers ap) \<and> ap_cap ap = length (ap_signers ap) \<and>
     (\<forall>r \<in> set (ap_signers ap). r < length (heap p) \<and> sg_AppID (heap p ! r) = appID) \<and>
     mset (ap_idle ap) + filter_mset (\<lambda>r. sg_AppID (heap p ! r) = appID) held = mset (ap_signers ap)"

definition pool_inv :: "ref multiset \<Rightarrow> Pool \<Rightarrow> bool" where
  "pool_inv held p \<longleftrightarrow>
     (\<forall>appID ap. pool_apps p appID = Some ap \<longrightarrow> app_inv p held appID ap) \<and>
     (\<forall>r \<in># held. r < length (heap p) \<and> pool_apps p (sg_AppID (heap p ! r)) \<noteq> None)"

text \<open>The contract between the pool and its client, the relay service.\<close>

locale signer_pool =
  fixes inv :: "ref multiset \<Rightarrow> 'p \<Rightarrow> bool"
    and take :: "bool \<Rightarrow> string \<Rightarrow> 'p \<Rightarrow> ref res \<times> 'p"
    and give :: "ref \<Rightarrow> 'p \<Rightarrow> 'p" and blocks :: "ref \<Rightarrow> 'p \<Rightarrow> bool"
  assumes take_inv: "inv held p \<Longrightarrow> take b a p = (Inr r, p') \<Longrightarrow> inv (add_mset r held) p'"
    and take_fail: "take b a p = (Inl e, p') \<Longrightarrow> p' = p"
    and give_inv: "inv (add_mset r held) p \<Longrightarrow> inv held (give r p)"
    and give_ready: "inv (add_mset r held) p \<Longrightarrow> \<not> blocks r p"
    and once: "inv held p \<Longrightarrow> count held r \<le> 1"
begin

lemma take_fresh: "inv held p \<Longrightarrow> take b a p = (Inr r, p') \<Longrightarrow> r \<notin># held"
  using once [OF take_inv, of held p b a r p' r] by (auto simp: not_in_iff)

text \<open>
  A client that takes a signer, works on the pool without touching the ownership, and gives
  the signer back: whatever the work did, everybody else's signers are as they were, and
  the last step does not block.
\<close>

lemma borrow:
  assumes "inv held p" and "take b a p = (Inr r, p1)"
    and work: "inv (add_mset r held) p1 \<Longrightarrow> inv (add_mset r held) p2"
  shows "inv held (give r p2) \<and> \<not> blocks r p2"
  using give_inv give_ready work [OF take_inv [OF assms(1,2)]] by blast

end

lemma pool_inv_NewPool [simp]: "pool_inv {#} NewPool"
  by (simp add: pool_inv_def NewPool_def)

lemma pool_inv_appD: "pool_inv held p \<Longrightarrow> pool_apps p appID = Some ap \<Longrightarrow> app_inv p held appID ap"
  by (simp add: pool_inv_def)

lemma pool_inv_heldD:
  "pool_inv held p \<Longrightarrow> r \<in># held \<Longrightarrow>
     r < length (heap p) \<and> (\<exists>ap. pool_apps p (sg_AppID (heap p ! r)) = Some ap)"
  by (auto simp: pool_inv_def)

lemma pool_inv_once:
  assumes "pool_inv held p"
  shows "count held r \<le> 1"
proof (cases "r \<in># held")
  case True
  with assms obtain ap where ap: "pool_apps p (sg_AppID (heap p ! r)) = Some ap"
    using pool_inv_heldD by blast
  from pool_inv_appD [OF assms ap]
  have eq: "mset (ap_idle ap) + filter_mset (\<lambda>q. sg_AppID (heap p ! q) = sg_AppID (heap p ! r)) held
      = mset (ap_signers ap)" and d: "distinct (ap_signers ap)" by (auto simp: app_inv_def)
  have "count held r \<le> count (mset (ap_signers ap)) r" by (simp flip: eq)
  also from d have "\<dots> \<le> 1" by (simp add: distinct_count_atmost_1)
  finally show ?thesis .
qed (simp add: not_in_iff)

lemma checkout_cases:
  obtains (fails) e where "checkout b appID p = (Inl e, p)"
  | (takes) ap r rs where "pool_apps p appID = Some ap" "ap_idle ap = r # rs"
      "checkout b appID p = (Inr r, p\<lparr>pool_apps := (pool_apps p)(appID \<mapsto> ap\<lparr>ap_idle := rs\<rparr>)\<rparr>)"
proof (cases "pool_apps p appID")
  case None
  then show ?thesis by (intro fails) (simp add: checkout_def)
next
  case (Some ap)
  then show ?thesis
    by (cases "ap_idle ap"; cases b) (auto simp: checkout_def intro: fails takes)
qed

lemma pool_inv_checkout:
  assumes inv: "pool_inv held p" and run: "checkout b appID p = (Inr r, p')"
  shows "pool_inv (add_mset r held) p'"
proof (cases rule: checkout_cases [of b appID p])
  case (takes ap r' rs)
  with run have r: "r' = r" and p': "p' = p\<lparr>pool_apps := (pool_apps p)(appID \<mapsto> ap\<lparr>ap_idle := rs\<rparr>)\<rparr>" by auto
  from pool_inv_appD [OF inv takes(1)] have a: "app_inv p held appID ap" .
  then have "r \<in> set (ap_signers ap)"
    using takes(2) r by (metis app_inv_def list.set_intros(1) set_mset_mset union_iff)
  with a have r_ok: "r < length (heap p)" "sg_AppID (heap p ! r) = appID" by (auto simp: app_inv_def)
  have "app_inv p' (add_mset r held) appID (ap\<lparr>ap_idle := rs\<rparr>)"
    using a takes(2) r r_ok by (simp add: app_inv_def p')
  moreover have "app_inv p' (add_mset r held) i q" if "pool_apps p i = Some q" "i \<noteq> appID" for i q
    using pool_inv_appD [OF inv that(1)] that(2) r_ok by (auto simp: app_inv_def p')
  ultimately show ?thesis
    using inv r_ok takes(1) by (auto simp: pool_inv_def p')
qed (use run in simp)

lemma pool_inv_release:
  assumes inv: "pool_inv (add_mset r held) p"
  shows "pool_inv held (release r p) \<and> \<not> release_blocks r p"
proof -
  let ?i = "sg_AppID (heap p ! r)"
  from pool_inv_heldD [OF inv, of r] obtain ap where ap: "pool_apps p ?i = Some ap" by auto
  let ?p' = "p\<lparr>pool_apps := (pool_apps p)(?i \<mapsto> ap\<lparr>ap_idle := ap_idle ap @ [r]\<rparr>)\<rparr>"
  from pool_inv_appD [OF inv ap] have a: "app_inv p (add_mset r held) ?i ap" .
  then have "size (mset (ap_idle ap)) < size (mset (ap_signers ap))"
    by (simp add: app_inv_def) (metis add_mset_add_single less_add_Suc1 size_add_mset size_mset size_union)
  with a have room: "length (ap_idle ap) < ap_cap ap" by (simp add: app_inv_def)
  have "app_inv ?p' held ?i (ap\<lparr>ap_idle := ap_idle ap @ [r]\<rparr>)" using a by (simp add: app_inv_def)
  moreover have "app_inv ?p' held i q" if "pool_apps p i = Some q" "i \<noteq> ?i" for i q
    using pool_inv_appD [OF inv that(1)] that(2) by (auto simp: app_inv_def)
  ultimately have "pool_inv held ?p'" using inv by (auto simp: pool_inv_def)
  with ap room show ?thesis by (simp add: release_def release_blocks_def)
qed

interpretation sp: signer_pool pool_inv checkout release release_blocks
proof
  show "checkout b a p = (Inl e, p') \<Longrightarrow> p' = p" for b a p e p'
    by (cases rule: checkout_cases [of b a p]) auto
qed (simp_all only: pool_inv_checkout pool_inv_release pool_inv_once simp_thms)

text \<open>The nonce counters are no part of the ownership.\<close>

lemma pool_inv_heap_update:
  assumes "pool_inv held p" and "sg_AppID x = sg_AppID (heap p ! r)"
  shows "pool_inv held (p\<lparr>heap := (heap p)[r := x]\<rparr>)"
proof -
  have same: "sg_AppID ((heap p)[r := x] ! q) = sg_AppID (heap p ! q)" for q
    using assms(2) by (cases "q = r"; cases "r < length (heap p)") (auto simp: list_update_beyond)
  with assms(1) show ?thesis by (simp add: pool_inv_def app_inv_def)
qed

lemma pool_inv_useNonce: "pool_inv held p \<Longrightarrow> pool_inv held (useNonce r p)"
  unfolding useNonce_def by (rule pool_inv_heap_update) (simp_all add: UseNonce_def Let_def)

lemma pool_inv_rewindNonce: "pool_inv held p \<Longrightarrow> pool_inv held (rewindNonce r p)"
  unfolding rewindNonce_def by (rule pool_inv_heap_update) (simp_all add: RewindNonce_def)

lemma rewind_useNonce: "r < length (heap p) \<Longrightarrow> rewindNonce r (useNonce r p) = p"
  using signer_nonce.rewind_draw [of "heap p ! r"] by (simp add: useNonce_def rewindNonce_def)

lemma pool_inv_install:
  assumes "pool_inv held p" and "\<forall>s \<in> set ss. sg_AppID s = appID" and "ss \<noteq> []"
  shows "pool_inv held (install appID ss p)"
proof (cases "pool_apps p appID")
  case None
  let ?refs = "[length (heap p)..<length (heap p) + length ss]"
  let ?ap = "\<lparr>ap_signers = ?refs, ap_idle = ?refs, ap_cap = length ss\<rparr>"
  let ?p' = "p\<lparr>heap := heap p @ ss, pool_apps := (pool_apps p)(appID \<mapsto> ?ap)\<rparr>"
  have held: "r < length (heap p)" "sg_AppID (heap p ! r) \<noteq> appID" if "r \<in># held" for r
    using pool_inv_heldD [OF assms(1) that] None by auto
  have "filter_mset (\<lambda>r. sg_AppID ((heap p @ ss) ! r) = appID) held = {#}"
    using held by (auto simp: filter_mset_eq_mempty_iff nth_append)
  then have "app_inv ?p' held appID ?ap"
    using assms(2,3) by (auto simp: app_inv_def nth_append)
  moreover have "app_inv ?p' held i q" if q: "pool_apps p i = Some q" and "i \<noteq> appID" for i q
  proof -
    have "filter_mset (\<lambda>r. sg_AppID ((heap p @ ss) ! r) = i) held = filter_mset (\<lambda>r. sg_AppID (heap p ! r) = i) held"
      using held by (intro filter_mset_cong) (auto simp: nth_append)
    with pool_inv_appD [OF assms(1) q] show ?thesis by (auto simp: app_inv_def nth_append)
  qed
  ultimately show ?thesis
    using None held assms(1)
    by (auto simp: install_def Let_def pool_inv_def nth_append intro: trans_less_add1)
qed (simp add: install_def assms(1))

lemma install_heap: "q < length (heap p) \<Longrightarrow> q < length (heap (install a ss p)) \<and> heap (install a ss p) ! q = heap p ! q"
  by (simp add: install_def Let_def nth_append)

section \<open>A pool is loaded once\<close>

text \<open>
  A later state of the pools: what was loaded is still there with the same signers, and a signer
  keeps its app, address and key.
\<close>

definition identity :: "Signer \<Rightarrow> string \<times> address \<times> PrivateKey" where
  "identity s = (sg_AppID s, sg_Address s, sg_Key s)"

definition extends :: "Pool \<Rightarrow> Pool \<Rightarrow> bool" where
  "extends p p' \<longleftrightarrow>
     (\<forall>a ap. pool_apps p a = Some ap \<longrightarrow> (\<exists>ap'. pool_apps p' a = Some ap' \<and> ap_signers ap' = ap_signers ap)) \<and>
     length (heap p) \<le> length (heap p') \<and> (\<forall>q < length (heap p). identity (heap p' ! q) = identity (heap p ! q))"

lemma extends_refl [simp]: "extends p p"
  by (simp add: extends_def)

lemma extends_trans: "extends p q \<Longrightarrow> extends q r \<Longrightarrow> extends p r"
  by (fastforce simp: extends_def)

lemma extends_install: "extends p (install a ss p)"
  by (simp add: extends_def install_def Let_def nth_append)

lemma extends_idle: "pool_apps p a = Some ap \<Longrightarrow> extends p (p\<lparr>pool_apps := (pool_apps p)(a \<mapsto> ap\<lparr>ap_idle := rs\<rparr>)\<rparr>)"
  by (simp add: extends_def)

lemma extends_checkout: "checkout b a p = (x, p') \<Longrightarrow> extends p p'"
  by (cases rule: checkout_cases [of b a p]) (auto intro: extends_idle)

lemma extends_release: "extends p (release r p)"
  by (auto simp: release_def intro: extends_idle split: option.split)

lemma extends_heap_update: "identity x = identity (heap p ! r) \<Longrightarrow> extends p (p\<lparr>heap := (heap p)[r := x]\<rparr>)"
  unfolding extends_def by (auto) (metis nth_list_update_eq nth_list_update_neq)

lemma extends_nonce: "extends p (useNonce r p)" "extends p (rewindNonce r p)"
  unfolding useNonce_def rewindNonce_def
  by (rule extends_heap_update; simp add: UseNonce_def RewindNonce_def Let_def identity_def)+

lemmas extends_rules = extends_install extends_checkout extends_release extends_nonce

section \<open>The pool as a component of the program\<close>

lemma load_signers_result:
  "run_state (load_signers ks noncer E appID addrs) s = (Inr ss, s') \<Longrightarrow>
     map sg_Address ss = addrs \<and> (\<forall>x \<in> set ss. sg_AppID x = appID)"
proof (induction addrs arbitrary: s ss s')
  case (Cons addr addrs)
  then show ?case by (auto elim!: attempt_failE)
qed simp

lemma load_signers_leaves [leaves_rules]:
  "(\<And>a. leaves f (ks a)) \<Longrightarrow> (\<And>a. leaves f (noncer a)) \<Longrightarrow> leaves f (load_signers ks noncer E appID addrs)"
  by (induction addrs) (auto intro!: leaves_rules)

lemma ext_leaves_pools [leaves_rules]: "leaves pools (ext f)"
  by (simp add: leaves_def run_ext)

lemma Load_fetch_leaves [leaves_rules]:
  assumes "\<And>a. leaves f (ks a)" "\<And>a. leaves f (noncer a)" "\<And>a. leaves f (lister a)"
  shows "leaves f (Load_fetch ks noncer lister E appID)"
  unfolding Load_fetch_def by (intro leaves_rules assms)

lemma Load_fetch_result:
  assumes "run_state (Load_fetch ks noncer lister E appID) s = (Inr (Some ss), s')"
  shows "ss \<noteq> [] \<and> (\<forall>x \<in> set ss. sg_AppID x = appID)"
  using assms
  by (auto simp: Load_fetch_def split: if_splits elim!: attempt_failE dest!: load_signers_result)

lemma Pool_Checkout_run:
  "\<exists>b w. run_state (Pool_Checkout E appID) s =
     (fst (checkout b appID (pools s)), s\<lparr>world := w, pools := snd (checkout b appID (pools s))\<rparr>)"
  by (simp add: Pool_Checkout_def run_ext) blast

end
