(* ===== verification/Relay_Status.thy ===== *)
theory Relay_Status
  imports Runtime
begin

text \<open>
  \<open>internal/relay/get.go\<close>: the status document of a request, as the polling endpoint
  returns it (\<open>Get\<close>, restricted to the caller's app) and as a webhook carries it
  (\<open>GetRaw\<close>, with the callback URL and secret in force).
\<close>

section \<open>The query\<close>

text \<open>The lateral join: the newest attempt of a request, if it has one.\<close>

definition latest_attempt :: "string \<Rightarrow> database \<Rightarrow> attempt_row option" where
  "latest_attempt rid d =
     (case order_by (\<lambda>t. - t_submitted_at t) (filter (\<lambda>t. t_request_id t = rid) (tx_attempts d)) of
        [] \<Rightarrow> None | t # _ \<Rightarrow> Some t)"

definition or_empty :: "string option \<Rightarrow> string" where
  "or_empty x = (case x of None \<Rightarrow> [] | Some s \<Rightarrow> s)"

text \<open>Filling the \<open>Status\<close> struct from the joined row; NULL columns leave the zero value.\<close>

definition status_document :: "relay_row \<Rightarrow> attempt_row option \<Rightarrow> Status" where
  "status_document r a =
     \<lparr>st_RequestID = r_id r,
      st_Status = r_status r,
      st_TxHash = (case a of None \<Rightarrow> [] | Some t \<Rightarrow> t_tx_hash t),
      st_Signer = (case a of None \<Rightarrow> [] | Some t \<Rightarrow> t_signer_address t),
      st_BlockNumber = Option.bind a t_block_number,
      st_GasUsed = Option.bind a t_gas_used,
      st_EffectiveGasPrice = or_empty (map_option numeric_text (Option.bind a t_effective_gas_price)),
      st_RevertReason = or_empty (Option.bind a t_revert_reason),
      st_Logs = or_empty (Option.bind a t_logs),
      st_CallbackMetadata = or_empty (r_callback_metadata r),
      st_UpdatedAt = r_updated_at r\<rparr>"

definition effective_url :: "relay_row \<Rightarrow> apps_row \<Rightarrow> string" where
  "effective_url r a =
     (case Option.bind (r_callback_url r) nullif_empty of
        Some u \<Rightarrow> u
      | None \<Rightarrow> or_empty (a_default_callback_url a))"

definition effective_secret :: "apps_row \<Rightarrow> string" where
  "effective_secret a = or_empty (a_default_callback_secret a)"

section \<open>GetRaw and Get\<close>

definition raw_row :: "string \<Rightarrow> database \<Rightarrow> (Status \<times> string \<times> string) res" where
  "raw_row rid d =
     (case lookup_row r_id rid (relay_requests d) of
        None \<Rightarrow> Inl ErrNoRows
      | Some r \<Rightarrow> (case lookup_row a_id (r_app_id r) (apps d) of
           None \<Rightarrow> Inl ErrNoRows
         | Some a \<Rightarrow> Inr (status_document r (latest_attempt rid d), effective_url r a, effective_secret a)))"

definition GetRaw :: "'w env \<Rightarrow> string \<Rightarrow> ('w, 'z, (bytes \<times> string \<times> string) res) op" where
  "GetRaw E requestID =
     attempt (db_query E (\<lambda>now d. raw_row requestID d))
       (\<lambda>e. if errors_Is e ErrNoRows then fail ErrNotFound else fail_wrap ''get raw'' e)
       (\<lambda>(out, url, secret).
          attempt (ret (marshalStatus E out)) (fail_wrap ''get raw marshal'') (\<lambda>body. ok (body, url, secret)))"

definition own_row :: "'w env \<Rightarrow> string \<Rightarrow> string \<Rightarrow> database \<Rightarrow> Status res" where
  "own_row E requestID appID d =
     (case pgUuid E requestID of
        None \<Rightarrow> Inl (ErrBadValue ''invalid input syntax for type uuid'')
      | Some rid \<Rightarrow>
         (case find (\<lambda>r. r_id r = rid \<and> r_app_id r = appID) (relay_requests d) of
            None \<Rightarrow> Inl ErrNoRows
          | Some r \<Rightarrow> Inr (status_document r (latest_attempt rid d))))"

definition Get :: "'w env \<Rightarrow> string \<Rightarrow> string \<Rightarrow> ('w, 'z, Status res) op" where
  "Get E requestID appID =
     attempt (db_query E (\<lambda>now d. own_row E requestID appID d))
       (\<lambda>e. if errors_Is e ErrNoRows then fail ErrNotFound else fail_wrap ''get relay'' e)
       ok"

section \<open>Facts about the status document\<close>

lemma GetRaw_leaves_db [leaves_rules]: "leaves db (GetRaw E i)"
  unfolding GetRaw_def by (intro leaves_rules)

lemma Get_leaves_db [leaves_rules]: "leaves db (Get E i a)"
  unfolding Get_def by (intro leaves_rules)

lemma own_row_Inr:
  assumes "own_row E requestID appID d = Inr st"
  obtains r where "r \<in> set (relay_requests d)" "pgUuid E requestID = Some (r_id r)" "r_app_id r = appID"
    "st = status_document r (latest_attempt (r_id r) d)"
  using assms by (auto simp: own_row_def split: option.splits dest!: find_SomeD)

lemma latest_attempt_Some:
  assumes "latest_attempt rid d = Some t"
  shows "t \<in> set (tx_attempts d) \<and> t_request_id t = rid \<and>
    (\<forall>u \<in> set (tx_attempts d). t_request_id u = rid \<longrightarrow> t_submitted_at u \<le> t_submitted_at t)"
proof -
  let ?ts = "filter (\<lambda>t. t_request_id t = rid) (tx_attempts d)"
  let ?key = "\<lambda>t. - t_submitted_at t"
  from assms obtain us where us: "order_by ?key ?ts = t # us"
    by (auto simp: latest_attempt_def split: list.splits)
  have sorted: "sorted (map ?key (t # us))" using us by (metis order_by_def sorted_sort_key)
  have mem: "set (t # us) = set ?ts" using us set_order_by by metis
  have "t_submitted_at u \<le> t_submitted_at t" if "u \<in> set (tx_attempts d)" "t_request_id u = rid" for u
  proof -
    from that have "u \<in> set (t # us)" using mem by auto
    with sorted show ?thesis by auto
  qed
  moreover have "t \<in> set ?ts" using mem by auto
  ultimately show ?thesis by auto
qed

lemma latest_attempt_None:
  "latest_attempt rid d = None \<longleftrightarrow> (\<forall>t \<in> set (tx_attempts d). t_request_id t \<noteq> rid)"
proof -
  let ?ts = "filter (\<lambda>t. t_request_id t = rid) (tx_attempts d)"
  have "latest_attempt rid d = None \<longleftrightarrow> order_by (\<lambda>t. - t_submitted_at t) ?ts = []"
    by (auto simp: latest_attempt_def split: list.splits)
  also have "\<dots> \<longleftrightarrow> ?ts = []" by (metis length_0_conv length_order_by)
  finally show ?thesis by (simp add: filter_empty_conv)
qed

text \<open>The newest attempt as a promise: there is none only if the request has none, and none is newer.\<close>

definition newest_attempt :: "string \<Rightarrow> database \<Rightarrow> attempt_row option \<Rightarrow> bool" where
  "newest_attempt rid d a \<longleftrightarrow>
     (case a of
        None \<Rightarrow> \<forall>t \<in> set (tx_attempts d). t_request_id t \<noteq> rid
      | Some t \<Rightarrow> t \<in> set (tx_attempts d) \<and> t_request_id t = rid \<and>
          (\<forall>u \<in> set (tx_attempts d). t_request_id u = rid \<longrightarrow> t_submitted_at u \<le> t_submitted_at t))"

lemma latest_is_newest: "newest_attempt rid d (latest_attempt rid d)"
  using latest_attempt_Some [of rid d] latest_attempt_None [of rid d]
  by (cases "latest_attempt rid d") (simp_all add: newest_attempt_def)

lemma run_GetRaw:
  obtains (failed) e w where "run_state (GetRaw E i) s = (Inl e, s\<lparr>world := w\<rparr>)"
  | (found) st url secret body w where "raw_row i (db s) = Inr (st, url, secret)" "marshalStatus E st = Inr body"
      "run_state (GetRaw E i) s = (Inr (body, url, secret), s\<lparr>world := w\<rparr>)"
proof -
  let ?q = "\<lambda>now d. raw_row i d"
  have none: ?thesis if "run_state (db_query E ?q) s = (Inl e, s\<lparr>world := w\<rparr>)" for e w
    using that by (intro failed [of "if errors_Is e ErrNoRows then ErrNotFound else Wrap ''get raw'' e" w])
      (simp add: GetRaw_def)
  show ?thesis
  proof (cases rule: run_db_query [of E ?q s])
    case (ran now w)
    show ?thesis
    proof (cases "raw_row i (db s)")
      case (Inr x)
      obtain st url secret where x: "x = (st, url, secret)" by (cases x)
      show ?thesis
        using ran Inr x by (cases "marshalStatus E st") (auto intro: failed found simp: GetRaw_def)
    qed (use ran none in auto)
  qed (rule none)
qed

end
