(* ===== verification/Workers.thy ===== *)
theory Workers
  imports Runtime
begin

text \<open>
  What the background workers have in common: the loop around \<open>time.NewTicker\<close>, and batches that
  close the oldest open rows of a table.
\<close>

section \<open>Tickers\<close>

text \<open>\<open>time.NewTicker\<close> panics on a duration that is not positive.\<close>

definition NewTicker :: "int \<Rightarrow> int res" where
  "NewTicker d = (if d \<le> 0 then Inl (Panic ''non-positive interval for NewTicker'') else Inr d)"

text \<open>
  The loop that the workers share: a tick each time the ticker fires, until the context ends. The
  number of ticks before that is an argument. An error of a tick is logged, a panic ends the
  process.
\<close>

fun tick_loop :: "('s, 'a res) state \<Rightarrow> nat \<Rightarrow> ('s, unit res) state" where
  "tick_loop m 0 = ok ()"
| "tick_loop m (Suc n) = attempt m (\<lambda>e. if is_panic e then fail e else tick_loop m n) (\<lambda>_. tick_loop m n)"

definition run_ticker :: "int \<Rightarrow> ('s, 'a res) state \<Rightarrow> nat \<Rightarrow> ('s, unit res) state" where
  "run_ticker interval m n = attempt (ret (NewTicker interval)) fail (\<lambda>_. tick_loop m n)"

lemma tick_loop_step:
  assumes "run_state (tick_loop m (Suc n)) s = (r, s')"
  obtains t s1 where "run_state m s = (t, s1)" "s' = s1 \<or> run_state (tick_loop m n) s1 = (r, s')"
proof -
  obtain t s1 where t: "run_state m s = (t, s1)" by fastforce
  with assms show ?thesis by (intro that [OF t]) (cases t; auto split: if_splits)
qed

lemma run_ticker_cases:
  assumes "run_state (run_ticker d m n) s = (r, s')"
  obtains (panics) msg where "d \<le> 0" "r = Inl (Panic msg)" "s' = s"
  | (runs) "0 < d" "run_state (tick_loop m n) s = (r, s')"
  using assms by (cases "d \<le> 0") (auto simp: run_ticker_def NewTicker_def)

text \<open>What every tick keeps, any number of ticks keeps; and without panics the loop goes on.\<close>

lemma run_ticker_inv:
  assumes tick: "\<And>s r s'. P s \<Longrightarrow> run_state m s = (r, s') \<Longrightarrow> P s'" and "P s" and run: "run_state (run_ticker d m n) s = (r, s')"
  shows "P s'"
proof -
  have "P s'" if "P s" "run_state (tick_loop m n) s = (r, s')" for s
    using that
  proof (induction n arbitrary: s)
    case (Suc n)
    from Suc.prems(2) obtain t s1 where t: "run_state m s = (t, s1)"
      and rest: "s' = s1 \<or> run_state (tick_loop m n) s1 = (r, s')" by (rule tick_loop_step)
    have "P s1" using tick [OF Suc.prems(1) t] .
    with rest Suc.IH show ?case by blast
  qed simp
  with run assms(2) show ?thesis by (auto elim: run_ticker_cases)
qed

text \<open>
  A tick that changes some value by \<open>g\<close>: after \<open>n\<close> ticks it has changed \<open>n\<close> times. A count that
  loses \<open>k\<close> with every tick has lost \<open>n * k\<close>, one that gains one has gained \<open>n\<close>; with a constant
  this is that the loop goes on.
\<close>

lemma run_ticker_iterates:
  assumes "0 < d" and "P s"
    and tick: "\<And>s r s'. P s \<Longrightarrow> run_state m s = (r, s') \<Longrightarrow> P s' \<and> (\<forall>e. r = Inl e \<longrightarrow> \<not> is_panic e) \<and> val s' = g (val s)"
  shows "\<exists>s'. run_state (run_ticker d m n) s = (Inr (), s') \<and> P s' \<and> val s' = (g ^^ n) (val s)"
proof -
  have "\<exists>s'. run_state (tick_loop m n) s = (Inr (), s') \<and> P s' \<and> val s' = (g ^^ n) (val s)"
    using assms(2)
  proof (induction n arbitrary: s)
    case (Suc n)
    obtain t s1 where t: "run_state m s = (t, s1)" by fastforce
    with tick [OF Suc.prems t] Suc.IH [of s1] show ?case by (cases t) (auto simp: funpow_swap1)
  qed simp
  with assms(1) show ?thesis by (simp add: run_ticker_def NewTicker_def)
qed

lemma funpow_minus: "((\<lambda>c. c - k) ^^ n) c = c - n * k" for k c :: nat
  by (induction n) (auto simp: algebra_simps)

lemma run_ticker_drains:
  fixes count :: "'s \<Rightarrow> nat"
  assumes "0 < d" and "P s"
    and "\<And>s r s'. P s \<Longrightarrow> run_state m s = (r, s') \<Longrightarrow> P s' \<and> (\<forall>e. r = Inl e \<longrightarrow> \<not> is_panic e) \<and> count s' = count s - k"
  shows "\<exists>s'. run_state (run_ticker d m n) s = (Inr (), s') \<and> P s' \<and> count s' = count s - n * k"
  using run_ticker_iterates [where val = count and g = "\<lambda>c. c - k" and P = P and m = m and s = s and n = n, OF assms] by (simp add: funpow_minus)

lemma run_ticker_counts:
  fixes count :: "'s \<Rightarrow> nat"
  assumes "0 < d" and "P s"
    and "\<And>s r s'. P s \<Longrightarrow> run_state m s = (r, s') \<Longrightarrow> P s' \<and> (\<forall>e. r = Inl e \<longrightarrow> \<not> is_panic e) \<and> count s' = Suc (count s)"
  shows "\<exists>s'. run_state (run_ticker d m n) s = (Inr (), s') \<and> P s' \<and> count s' = count s + n"
  using run_ticker_iterates [where val = count and g = Suc and P = P and m = m and s = s and n = n, OF assms] by (simp add: add.commute)

lemma run_ticker_total:
  assumes "0 < d" and "P s" and "\<And>s r s'. P s \<Longrightarrow> run_state m s = (r, s') \<Longrightarrow> P s' \<and> (\<forall>e. r = Inl e \<longrightarrow> \<not> is_panic e)"
  shows "\<exists>s'. run_state (run_ticker d m n) s = (Inr (), s') \<and> P s'"
  using run_ticker_drains [where count = "\<lambda>_. 0" and k = 0 and P = P and s = s and d = d and m = m and n = n] assms by simp

section \<open>Workers that finish rows\<close>

text \<open>
  A worker takes the oldest open rows, at most a batch, and closes each. \<open>settled\<close> says that rows
  are as they were, or were open and are closed.
\<close>

definition settled :: "('r \<Rightarrow> bool) \<Rightarrow> ('r \<Rightarrow> bool) \<Rightarrow> 'r list \<Rightarrow> 'r list \<Rightarrow> bool" where
  "settled opened closed vs vs' \<longleftrightarrow> list_all2 (\<lambda>v v'. v' = v \<or> opened v \<and> closed v') vs vs'"

lemma settled_refl [simp]: "settled opened closed vs vs"
  by (simp add: settled_def list_all2_refl)

lemma settled_trans:
  assumes "\<And>v. closed v \<Longrightarrow> \<not> opened v" and "settled opened closed us vs" and "settled opened closed vs ws"
  shows "settled opened closed us ws"
  unfolding settled_def
  by (rule list_all2_trans [OF _ assms(2,3) [unfolded settled_def]]) (use assms(1) in blast)

text \<open>What is closed is no younger than what stays open.\<close>

definition oldest_first :: "('r \<Rightarrow> 'k::linorder) \<Rightarrow> ('r \<Rightarrow> bool) \<Rightarrow> 'r list \<Rightarrow> 'r list \<Rightarrow> bool" where
  "oldest_first age opened vs vs' \<longleftrightarrow>
     (\<forall>v \<in> set vs. \<forall>u \<in> set vs'. opened v \<and> v \<notin> set vs' \<and> opened u \<longrightarrow> age v \<le> age u)"

lemma oldest_first_refl [simp]: "oldest_first age opened vs vs"
  by (simp add: oldest_first_def)

lemma settled_open:
  assumes "\<And>v. closed v \<Longrightarrow> \<not> opened v" and "settled opened closed vs vs'" and "u \<in> set vs'" and "opened u"
  shows "u \<in> set vs"
  using assms(2-4) unfolding settled_def by (induction rule: list_all2_induct) (auto dest: assms(1))

lemma oldest_first_trans:
  assumes c: "\<And>v. closed v \<Longrightarrow> \<not> opened v" and "settled opened closed vs ws"
    and "oldest_first age opened us vs" and "oldest_first age opened vs ws"
  shows "oldest_first age opened us ws"
  unfolding oldest_first_def
proof (intro ballI impI, elim conjE)
  fix v u assume vu: "v \<in> set us" "u \<in> set ws" "opened v" "v \<notin> set ws" "opened u"
  then have "u \<in> set vs" using settled_open [OF c assms(2)] by blast
  with vu assms(3,4) show "age v \<le> age u" unfolding oldest_first_def by (cases "v \<in> set vs") auto
qed

lemma moved_source:
  assumes "moved key step ids vs vs'" and "\<And>v v'. step v v' \<Longrightarrow> key v' = key v" and "v' \<in> set vs'" and "key v' \<notin> ids"
  shows "v' \<in> set vs"
  using assms(1,3,4) unfolding moved_def by (induction rule: list_all2_induct) (auto simp: assms(2))

text \<open>Closing the first \<open>b\<close> of the open rows takes \<open>b\<close> off their number, or all.\<close>

lemma closed_count:
  assumes d: "distinct (map key vs)" and ids: "ids = key ` set (List.take b (order_by f (filter opened vs)))"
    and closed: "list_all2 (\<lambda>v v'. if key v \<in> ids then \<not> opened v' else v' = v) vs vs'"
  shows "length (filter opened vs') = length (filter opened vs) - b"
proof -
  let ?L = "order_by f (filter opened vs)" and ?Q = "\<lambda>v. key v \<notin> ids"
  have "length (filter opened vs') = length (filter ?Q (filter opened vs))"
    using closed by (induction rule: list_all2_induct) (auto split: if_splits)
  also have "\<dots> = size (filter_mset ?Q (mset ?L))" by (metis mset_filter mset_order_by size_mset)
  also have "\<dots> = length (filter ?Q ?L)" by (metis mset_filter size_mset)
  also have "filter ?Q ?L = filter ?Q (List.take b ?L) @ filter ?Q (drop b ?L)" by (metis append_take_drop_id filter_append)
  also have "filter ?Q (List.take b ?L) = []" by (simp add: filter_empty_conv ids)
  also have "filter ?Q (drop b ?L) = drop b ?L"
  proof -
    have "distinct (map key ?L)" using d by (simp add: distinct_order_by distinct_map_filter)
    then have "distinct (map key (List.take b ?L) @ map key (drop b ?L))" by (metis append_take_drop_id map_append)
    then show ?thesis by (auto simp: filter_id_conv ids)
  qed
  finally show ?thesis by simp
qed

text \<open>And the rows it takes are the oldest of the open ones.\<close>

lemma order_by_split:
  assumes "v \<in> set (List.take b (order_by f xs))" and "u \<in> set (drop b (order_by f xs))"
  shows "f v \<le> f u"
proof -
  let ?L = "order_by f xs"
  have "sorted (map f (List.take b ?L @ drop b ?L))" by (simp add: order_by_def)
  with assms show ?thesis by (simp only: map_append sorted_append) auto
qed

lemma closed_oldest:
  assumes d: "distinct (map key vs)" and ids: "ids = key ` set (List.take b (order_by f (filter opened vs)))"
    and closed: "list_all2 (\<lambda>v v'. if key v \<in> ids then \<not> opened v' else v' = v) vs vs'"
  shows "oldest_first f opened vs vs'"
  unfolding oldest_first_def
proof (intro ballI impI, elim conjE)
  fix v u assume vu: "v \<in> set vs" "u \<in> set vs'" "opened v" "v \<notin> set vs'" "opened u"
  let ?L = "order_by f (filter opened vs)"
  have "key v \<in> ids" using closed vu(1,4) by (induction rule: list_all2_induct) (auto split: if_splits)
  then obtain x where x: "x \<in> set (List.take b ?L)" "key x = key v" using ids by auto
  then have "x \<in> set vs" by (auto dest: in_set_takeD)
  with x d vu(1) have v: "v \<in> set (List.take b ?L)" by (metis distinct_map inj_onD)
  have u: "u \<in> set vs" "key u \<notin> ids" using closed vu(2,5) by (induction rule: list_all2_induct) (auto split: if_splits)
  have "u \<in> set (List.take b ?L @ drop b ?L)" using u(1) vu(5) by simp
  then have "u \<in> set (drop b ?L)" using u(2) ids unfolding set_append by blast
  then show "f v \<le> f u" by (rule order_by_split [OF v])
qed

locale finishing_worker = batch_worker key step rows item pkey matches
  for key :: "'r \<Rightarrow> 'k" and step and rows :: "'s \<Rightarrow> 'r list" and item :: "'p \<Rightarrow> 's \<Rightarrow> 's" and pkey and matches +
  fixes opened :: "'r \<Rightarrow> bool" and closed :: "'r \<Rightarrow> bool" and good :: "'p \<Rightarrow> bool"
  assumes closed_not_opened: "closed v \<Longrightarrow> \<not> opened v"
    and match_opened: "matches p v \<Longrightarrow> opened v"
    and item_closes: "good p \<Longrightarrow> v \<in> set (rows (item p s)) \<Longrightarrow> key v = pkey p \<Longrightarrow> closed v"
begin

lemma batch_closes:
  assumes "distinct (map key (rows s))" and "distinct (map pkey ps)"
    and "\<forall>p \<in> set ps. \<exists>v \<in> set (rows s). matches p v" and "\<forall>p \<in> set ps. good p"
    and "v \<in> set (rows (fold item ps s))" and "key v \<in> pkey ` set ps"
  shows "closed v"
  using assms
proof (induction ps arbitrary: s)
  case (Cons p ps)
  then obtain u where u: "u \<in> set (rows s)" "matches p u" by auto
  let ?s = "item p s"
  have mv: "moved key step {pkey p} (rows s) (rows ?s)" using item_moved Cons.prems(1) u by blast
  have d: "distinct (map key (rows ?s))" using moved_keys [OF mv] Cons.prems(1) by simp
  have m: "\<forall>q \<in> set ps. \<exists>u \<in> set (rows ?s). matches q u"
  proof
    fix q assume q: "q \<in> set ps"
    with Cons.prems(3) obtain x where x: "x \<in> set (rows s)" "matches q x" by auto
    from q Cons.prems(2) have "pkey q \<noteq> pkey p" by (metis distinct.simps(2) image_eqI list.set_map list.simps(9))
    with x moved_other [OF mv x(1)] show "\<exists>u \<in> set (rows ?s). matches q u" by (auto simp: match_key [OF x(2)])
  qed
  show ?case
  proof (cases "key v \<in> pkey ` set ps")
    case True
    with Cons.IH [OF d] Cons.prems m show ?thesis by simp
  next
    case False
    have "v \<in> set (rows ?s)"
      by (rule moved_source [OF batch_moved [OF d _ m]]) (use Cons.prems False step_key in auto)
    with item_closes [of p v s] Cons.prems(4,6) False show ?thesis by simp
  qed
qed simp

lemma batch_finishes:
  assumes d: "distinct (map key (rows s))" and ids: "map pkey ps = map key (List.take b (order_by f (filter opened (rows s))))"
    and m: "\<forall>p \<in> set ps. \<exists>v \<in> set (rows s). matches p v" and g: "\<forall>p \<in> set ps. good p"
  shows "settled opened closed (rows s) (rows (fold item ps s))"
    and "length (filter opened (rows (fold item ps s))) = length (filter opened (rows s)) - b"
    and "oldest_first f opened (rows s) (rows (fold item ps s))"
proof -
  let ?ids = "pkey ` set ps" and ?s = "fold item ps s"
  have i: "?ids = key ` set (List.take b (order_by f (filter opened (rows s))))" using ids by (metis list.set_map)
  have p: "distinct (map pkey ps)"
    unfolding ids using d by (simp add: take_map [symmetric] distinct_order_by distinct_map_filter)
  have mv: "list_all2 (\<lambda>v v'. v' = v \<or> key v \<in> ?ids \<and> step v v') (rows s) (rows ?s)"
    using batch_moved [OF d p m] by (simp add: moved_def)
  have opened: "opened v" if "v \<in> set (rows s)" "key v \<in> ?ids" for v
  proof -
    from that(2) m obtain q u where "q \<in> set ps" "key v = pkey q" "u \<in> set (rows s)" "matches q u" by blast
    then show ?thesis using d that(1) match_key match_opened by (metis distinct_map inj_onD)
  qed
  have cl: "list_all2 (\<lambda>v v'. if key v \<in> ?ids then closed v' else v' = v) (rows s) (rows ?s)"
    using mv by (rule list.rel_mono_strong) (use batch_closes [OF d p m g] step_key in auto)
  then show "settled opened closed (rows s) (rows ?s)"
    unfolding settled_def by (rule list.rel_mono_strong) (use opened in \<open>auto split: if_splits\<close>)
  have cl': "list_all2 (\<lambda>v v'. if key v \<in> ?ids then \<not> opened v' else v' = v) (rows s) (rows ?s)"
    using cl by (rule list.rel_mono_strong) (use closed_not_opened in \<open>auto split: if_splits\<close>)
  show "length (filter opened (rows ?s)) = length (filter opened (rows s)) - b" by (rule closed_count [OF d i cl'])
  show "oldest_first f opened (rows s) (rows ?s)" by (rule closed_oldest [OF d i cl'])
qed

end

end
