(* ===== verification/Webhook.thy ===== *)
theory Webhook
  imports Relay_Status Workers
begin

text \<open>
  \<open>internal/webhook\<close>: enqueueing a signed snapshot of a request's status, and the worker that
  delivers the queue with retries. A delivery starts pending, and ends delivered or, after
  five failed attempts, dead.
\<close>

section \<open>Enqueue\<close>

text \<open>\<open>BackoffSchedule\<close>, in nanoseconds.\<close>

definition BackoffSchedule :: "int list" where
  "BackoffSchedule = [5 * 10 ^ 9, 30 * 10 ^ 9, 5 * 60 * 10 ^ 9, 30 * 60 * 10 ^ 9]"

definition sign :: "'w env \<Rightarrow> string \<Rightarrow> bytes \<Rightarrow> string" where
  "sign E secret body = ''sha256='' @ hex_EncodeToString (hmacSha256 E secret body)"

definition new_delivery :: "string \<Rightarrow> int \<Rightarrow> string \<Rightarrow> string \<Rightarrow> bytes \<Rightarrow> string \<Rightarrow> delivery_row" where
  "new_delivery i now requestID url payload sig =
     \<lparr>d_id = i, d_request_id = requestID, d_url = url, d_payload = payload, d_signature = sig,
      d_attempt = 0, d_status = DelPending, d_response_code = None, d_last_error = None,
      d_created_at = now, d_next_attempt_at = now\<rparr>"

text \<open>
  The service keeps the \<open>StatusFetcher\<close> it takes its snapshots from; the database and the
  cryptography are those of \<open>ws_env\<close>.
\<close>

record ('w, 'z) Webhook_Service =
  ws_env :: "'w env"
  ws_status :: "string \<Rightarrow> ('w, 'z, (bytes \<times> string \<times> string) res) op"

definition Webhook_NewService ::
  "'w env \<Rightarrow> (string \<Rightarrow> ('w, 'z, (bytes \<times> string \<times> string) res) op) \<Rightarrow> ('w, 'z) Webhook_Service" where
  "Webhook_NewService E status = \<lparr>ws_env = E, ws_status = status\<rparr>"

definition Webhook_Enqueue :: "('w, 'z) Webhook_Service \<Rightarrow> string \<Rightarrow> ('w, 'z, unit res) op" where
  "Webhook_Enqueue ws requestID =
     attempt (ws_status ws requestID) (fail_wrap ''webhook: snapshot status'') (\<lambda>(payload, url, secret).
     if url = [] \<or> secret = [] then ok ()
     else attempt
        (db_insert (ws_env ws) (\<lambda>i now. insert_delivery_row
             (new_delivery i now requestID url payload (sign (ws_env ws) secret payload))))
        (fail_wrap ''webhook: insert delivery'') (\<lambda>_. ok ()))"

text \<open>The service that \<open>main\<close> builds: the snapshots are those of the relay service.\<close>

definition Enqueue :: "'w env \<Rightarrow> string \<Rightarrow> ('w, 'z, unit res) op" where
  "Enqueue E = Webhook_Enqueue (Webhook_NewService E (GetRaw E))"

lemma Enqueue_unfold:
  "Enqueue E requestID =
     attempt (GetRaw E requestID) (fail_wrap ''webhook: snapshot status'') (\<lambda>(payload, url, secret).
     if url = [] \<or> secret = [] then ok ()
     else attempt
        (db_insert E (\<lambda>i now. insert_delivery_row
             (new_delivery i now requestID url payload (sign E secret payload))))
        (fail_wrap ''webhook: insert delivery'') (\<lambda>_. ok ()))"
  unfolding Enqueue_def Webhook_Enqueue_def Webhook_NewService_def Webhook_Service.select_convs by (rule refl)

section \<open>The delivery worker\<close>

record pendingDelivery =
  pd_id :: string
  pd_url :: string
  pd_payload :: bytes
  pd_signature :: string
  pd_attempt :: int

definition pending_of :: "delivery_row \<Rightarrow> pendingDelivery" where
  "pending_of v = \<lparr>pd_id = d_id v, pd_url = d_url v, pd_payload = d_payload v,
                   pd_signature = d_signature v, pd_attempt = d_attempt v\<rparr>"

text \<open>The three \<open>UPDATE\<close> statements of the worker, as changes of the row.\<close>

definition set_delivered :: "int \<Rightarrow> delivery_row \<Rightarrow> delivery_row" where
  "set_delivered code v = v\<lparr>d_status := DelDelivered, d_response_code := Some code, d_last_error := None,
                            d_attempt := d_attempt v + 1\<rparr>"

definition set_dead :: "int \<Rightarrow> string \<Rightarrow> int \<Rightarrow> delivery_row \<Rightarrow> delivery_row" where
  "set_dead code msg att v = v\<lparr>d_status := DelDead, d_response_code := nullif_zero code,
                               d_last_error := Some msg, d_attempt := att\<rparr>"

definition set_retry :: "int \<Rightarrow> string \<Rightarrow> int \<Rightarrow> int \<Rightarrow> delivery_row \<Rightarrow> delivery_row" where
  "set_retry code msg att nxt v = v\<lparr>d_response_code := nullif_zero code, d_last_error := Some msg,
                                    d_attempt := att, d_next_attempt_at := nxt\<rparr>"

definition update_delivery :: "string \<Rightarrow> (delivery_row \<Rightarrow> delivery_row) \<Rightarrow> database \<Rightarrow> database" where
  "update_delivery i f d = d\<lparr>webhook_deliveries := update_rows d_id i f (webhook_deliveries d)\<rparr>"

text \<open>
  \<open>recordFailure\<close>. Indexing \<open>BackoffSchedule\<close> out of range is a run-time panic; the new
  due time is stored with microsecond precision.
\<close>

definition recordFailure :: "'w env \<Rightarrow> pendingDelivery \<Rightarrow> int \<Rightarrow> string \<Rightarrow> ('w, 'z, unit res) op" where
  "recordFailure E d code msg =
     (let nextAttempt = pd_attempt d + 1 in
      if nextAttempt \<ge> int (length BackoffSchedule) + 1
      then db_exec E (\<lambda>now b. text_param msg (Inr (update_delivery (pd_id d) (set_dead code msg nextAttempt) b)))
      else do {
        t \<leftarrow> ext (timeNow E);
        (if pd_attempt d < 0 \<or> int (length BackoffSchedule) \<le> pd_attempt d
         then fail (Panic ''index out of range'')
         else (let nxt = (t + BackoffSchedule ! nat (pd_attempt d)) div 1000 in
           db_exec E (\<lambda>now b. text_param msg
             (Inr (update_delivery (pd_id d) (set_retry code msg nextAttempt nxt) b))))) })"

definition delivery_headers :: "pendingDelivery \<Rightarrow> (string \<times> string) list" where
  "delivery_headers d =
     [(''Content-Type'', ''application/json''), (''X-Txmill-Signature'', pd_signature d),
      (''X-Txmill-Delivery'', pd_id d), (''X-Txmill-Attempt'', big_String (pd_attempt d))]"

definition deliver :: "'w env \<Rightarrow> pendingDelivery \<Rightarrow> ('w, 'z, unit res) op" where
  "deliver E d =
     attempt (ret (newRequest E (pd_url d))) (\<lambda>e. recordFailure E d 0 (Error e)) (\<lambda>_.
     attempt (ext (httpDo E (pd_url d) (delivery_headers d) (pd_payload d)))
       (\<lambda>e. recordFailure E d 0 (Error e)) (\<lambda>resp.
     if 200 \<le> resp_StatusCode resp \<and> resp_StatusCode resp < 300
     then db_exec E (\<lambda>now b. Inr (update_delivery (pd_id d) (set_delivered (resp_StatusCode resp)) b))
     else recordFailure E d (resp_StatusCode resp)
            (''HTTP '' @ big_String (resp_StatusCode resp) @ '': '' @ List.take 512 (resp_Body resp))))"

text \<open>\<open>WHERE status = 'pending' AND next_attempt_at <= NOW() ORDER BY next_attempt_at LIMIT $1\<close>.\<close>

definition due_deliveries :: "nat \<Rightarrow> int \<Rightarrow> database \<Rightarrow> pendingDelivery list" where
  "due_deliveries batchSize now d =
     map pending_of (List.take batchSize (order_by d_next_attempt_at
       (filter (\<lambda>v. d_status v = DelPending \<and> d_next_attempt_at v \<le> now) (webhook_deliveries d))))"

text \<open>The loop of \<open>tick\<close>: an error of a delivery is logged, a panic ends the process.\<close>

fun deliver_all :: "'w env \<Rightarrow> pendingDelivery list \<Rightarrow> ('w, 'z, nat res) op" where
  "deliver_all E [] = ok 0"
| "deliver_all E (d # ds) =
     attempt (deliver E d)
       (\<lambda>e. if is_panic e then fail e else attempt (deliver_all E ds) fail (\<lambda>n. ok (Suc n)))
       (\<lambda>_. attempt (deliver_all E ds) fail (\<lambda>n. ok (Suc n)))"

definition Webhook_tick :: "'w env \<Rightarrow> int \<Rightarrow> ('w, 'z, nat res) op" where
  "Webhook_tick E batchSize =
     attempt (db_query E (\<lambda>now d. limit_to batchSize (\<lambda>n. due_deliveries n now d))) fail (deliver_all E)"

section \<open>The worker\<close>

record 'w Webhook_Worker =
  ww_env :: "'w env"
  ww_httpTimeout :: int
  ww_interval :: int
  ww_batchSize :: int

definition Webhook_NewWorker :: "'w env \<Rightarrow> int \<Rightarrow> int \<Rightarrow> 'w Webhook_Worker" where
  "Webhook_NewWorker E interval batchSize =
     \<lparr>ww_env = E, ww_httpTimeout = 10 * 10 ^ 9, ww_interval = interval, ww_batchSize = batchSize\<rparr>"

lemma Webhook_NewWorker_sel [simp]:
  "ww_env (Webhook_NewWorker E d b) = E" "ww_interval (Webhook_NewWorker E d b) = d" "ww_batchSize (Webhook_NewWorker E d b) = b"
  by (simp_all add: Webhook_NewWorker_def)

definition Webhook_Tick :: "'w Webhook_Worker \<Rightarrow> ('w, 'z, nat res) op" where
  "Webhook_Tick ww = Webhook_tick (ww_env ww) (ww_batchSize ww)"

definition Webhook_Run :: "'w Webhook_Worker \<Rightarrow> nat \<Rightarrow> ('w, 'z, unit res) op" where
  "Webhook_Run ww = run_ticker (ww_interval ww) (Webhook_Tick ww)"

section \<open>Facts about the queue\<close>

interpretation delivered: row_update d_id "set_delivered code"
  by unfold_locales (simp add: set_delivered_def)

interpretation dead: row_update d_id "set_dead code msg att"
  by unfold_locales (simp add: set_dead_def)

interpretation retry: row_update d_id "set_retry code msg att nxt"
  by unfold_locales (simp add: set_retry_def)

lemmas delivery_sets = set_delivered_def set_dead_def set_retry_def

lemma update_delivery_frame [simp]:
  "apps (update_delivery i f d) = apps d"
  "signers (update_delivery i f d) = signers d"
  "relay_requests (update_delivery i f d) = relay_requests d"
  "tx_attempts (update_delivery i f d) = tx_attempts d"
  "gas_attempts (update_delivery i f d) = gas_attempts d"
  by (simp_all add: update_delivery_def)

lemma db_wf_update_delivery:
  assumes "\<And>v. d_id (f v) = d_id v \<and> d_request_id (f v) = d_request_id v" and "db_wf d"
  shows "db_wf (update_delivery i f d)"
  unfolding update_delivery_def
  by (rule db_wf_delivery_update) (auto simp: update_rows_def assms)

text \<open>
  The deliveries: attempt counts stay within the schedule, a pending delivery has used at
  most four attempts, a finished one at least one.
\<close>

definition delivery_ok :: "delivery_row \<Rightarrow> bool" where
  "delivery_ok v \<longleftrightarrow>
     (case d_status v of
        DelPending \<Rightarrow> 0 \<le> d_attempt v \<and> d_attempt v \<le> 4
      | DelDelivered \<Rightarrow> 1 \<le> d_attempt v \<and> d_attempt v \<le> 5
      | DelDead \<Rightarrow> d_attempt v = 5)"

definition deliveries_ok :: "database \<Rightarrow> bool" where
  "deliveries_ok d \<longleftrightarrow> (\<forall>v \<in> set (webhook_deliveries d). delivery_ok v)"

text \<open>A pending delivery takes one step per attempt; delivered and dead ones take none.\<close>

inductive delivery_step :: "delivery_row \<Rightarrow> delivery_row \<Rightarrow> bool" where
  delivered: "d_status v = DelPending \<Longrightarrow> 200 \<le> code \<Longrightarrow> code < 300 \<Longrightarrow> delivery_step v (set_delivered code v)"
| retry: "d_status v = DelPending \<Longrightarrow> d_attempt v < 4 \<Longrightarrow>
    delivery_step v (set_retry code msg (d_attempt v + 1) nxt v)"
| dead: "d_status v = DelPending \<Longrightarrow> 4 \<le> d_attempt v \<Longrightarrow> delivery_step v (set_dead code msg (d_attempt v + 1) v)"

inductive_cases delivery_stepE: "delivery_step v v'"

lemma delivery_step_key: "delivery_step v v' \<Longrightarrow> d_id v' = d_id v \<and> d_request_id v' = d_request_id v
   \<and> d_url v' = d_url v \<and> d_payload v' = d_payload v \<and> d_signature v' = d_signature v"
  by (auto elim!: delivery_stepE simp: delivery_sets)

lemma delivery_step_ok: "delivery_step v v' \<Longrightarrow> delivery_ok v \<Longrightarrow> delivery_ok v'"
  by (auto elim!: delivery_stepE simp: delivery_sets delivery_ok_def)

text \<open>The changes a run of \<open>deliver\<close> makes to the row it was given.\<close>

definition outcome_of :: "pendingDelivery \<Rightarrow> (delivery_row \<Rightarrow> delivery_row) \<Rightarrow> bool" where
  "outcome_of d f \<longleftrightarrow>
     (\<exists>code. 200 \<le> code \<and> code < 300 \<and> f = set_delivered code) \<or>
     (\<exists>code msg. 4 \<le> pd_attempt d \<and> f = set_dead code msg (pd_attempt d + 1)) \<or>
     (\<exists>code msg nxt. 0 \<le> pd_attempt d \<and> pd_attempt d < 4 \<and> f = set_retry code msg (pd_attempt d + 1) nxt)"

lemma pd_id_pending_of [simp]: "pd_id (pending_of v) = d_id v"
  by (simp add: pending_of_def)

lemma outcome_of_step:
  "outcome_of (pending_of v) f \<Longrightarrow> d_status v = DelPending \<Longrightarrow> delivery_step v (f v)"
  by (auto simp: outcome_of_def pending_of_def intro: delivery_step.intros)

lemma outcome_of_key: "outcome_of d f \<Longrightarrow> d_id (f v) = d_id v \<and> d_request_id (f v) = d_request_id v"
  by (auto simp: outcome_of_def delivery_sets)

lemma recordFailure_run:
  obtains (untouched) e w where "run_state (recordFailure E d code msg) s = (Inl e, s\<lparr>world := w\<rparr>)"
  | (recorded) f w where "outcome_of d f" "pg_text_ok msg"
      "run_state (recordFailure E d code msg) s = (Inr (), s\<lparr>world := w, db := update_delivery (pd_id d) f (db s)\<rparr>)"
proof (cases "4 \<le> pd_attempt d")
  case True
  let ?f = "set_dead code msg (pd_attempt d + 1)"
  let ?q = "\<lambda>now b. text_param msg (Inr (update_delivery (pd_id d) ?f b))"
  have run: "run_state (recordFailure E d code msg) s = run_state (db_exec E ?q) s"
    using True by (simp add: recordFailure_def Let_def BackoffSchedule_def)
  have o: "outcome_of d ?f" using True by (auto simp: outcome_of_def)
  show ?thesis
    by (cases rule: run_db_exec [of E ?q s])
      (use run o in \<open>auto intro: untouched recorded simp: text_param_def split: if_splits\<close>)
next
  case False
  let ?s = "s\<lparr>world := snd (timeNow E (world s))\<rparr>"
  let ?nxt = "(fst (timeNow E (world s)) + BackoffSchedule ! nat (pd_attempt d)) div 1000"
  let ?f = "set_retry code msg (pd_attempt d + 1) ?nxt"
  let ?q = "\<lambda>now b. text_param msg (Inr (update_delivery (pd_id d) ?f b))"
  show ?thesis
  proof (cases "pd_attempt d < 0")
    case neg: True
    then show ?thesis by (intro untouched) (simp add: recordFailure_def Let_def BackoffSchedule_def run_ext)
  next
    case pos: False
    have run: "run_state (recordFailure E d code msg) s = run_state (db_exec E ?q) ?s"
      using False pos by (simp add: recordFailure_def Let_def BackoffSchedule_def run_ext)
    have o: "outcome_of d ?f" using False pos by (auto simp: outcome_of_def)
    show ?thesis
      by (cases rule: run_db_exec [of E ?q ?s])
        (use run o in \<open>auto intro: untouched recorded simp: text_param_def split: if_splits\<close>)
  qed
qed

lemma deliver_run:
  obtains (untouched) e w where "run_state (deliver E d) s = (Inl e, s\<lparr>world := w\<rparr>)"
  | (recorded) f w where "outcome_of d f"
      "run_state (deliver E d) s = (Inr (), s\<lparr>world := w, db := update_delivery (pd_id d) f (db s)\<rparr>)"
proof -
  let ?http = "httpDo E (pd_url d) (delivery_headers d) (pd_payload d) (world s)"
  let ?s = "s\<lparr>world := snd ?http\<rparr>"
  have failure: ?thesis if "run_state (deliver E d) s = run_state (recordFailure E d code msg) (s\<lparr>world := w\<rparr>)" for code msg w
    using that by (cases rule: recordFailure_run [of E d code msg "s\<lparr>world := w\<rparr>"])
      (auto intro: untouched recorded)
  show ?thesis
  proof (cases "newRequest E (pd_url d)")
    case (Inl e)
    then show ?thesis by (intro failure [of 0 "Error e" "world s"]) (simp add: deliver_def)
  next
    case (Inr u)
    show ?thesis
    proof (cases "fst ?http")
      case (Inl e)
      with Inr show ?thesis by (intro failure [of 0 "Error e" "snd ?http"]) (simp add: deliver_def run_ext)
    next
      case resp: (Inr resp)
      let ?c = "resp_StatusCode resp"
      let ?q = "\<lambda>now b. Inr (update_delivery (pd_id d) (set_delivered ?c) b)"
      show ?thesis
      proof (cases "200 \<le> ?c \<and> ?c < 300")
        case True
        then have o: "outcome_of d (set_delivered ?c)" by (auto simp: outcome_of_def)
        have run: "run_state (deliver E d) s = run_state (db_exec E ?q) ?s"
          using True Inr resp by (simp add: deliver_def run_ext)
        show ?thesis by (cases rule: run_db_exec [of E ?q ?s]) (use run o in \<open>auto intro: untouched recorded\<close>)
      next
        case False
        with Inr resp show ?thesis
          by (intro failure [of ?c "''HTTP '' @ big_String ?c @ '': '' @ List.take 512 (resp_Body resp)" "snd ?http"])
             (auto simp: deliver_def run_ext)
      qed
    qed
  qed
qed

text \<open>The worker as a batch worker: an item moves the row it was read from.\<close>

definition deliver_state :: "'w env \<Rightarrow> pendingDelivery \<Rightarrow> ('w, 'z) base_scheme \<Rightarrow> ('w, 'z) base_scheme" where
  "deliver_state E d s = snd (run_state (deliver E d) s)"

definition still_pending :: "pendingDelivery \<Rightarrow> delivery_row \<Rightarrow> bool" where
  "still_pending d v \<longleftrightarrow> d = pending_of v \<and> d_status v = DelPending"

interpretation drows: row_steps d_id delivery_step
  by unfold_locales (simp add: delivery_step_key)

interpretation dw: batch_worker d_id delivery_step "\<lambda>s. webhook_deliveries (db s)" "deliver_state E" pd_id still_pending
proof
  show "still_pending p v \<Longrightarrow> pd_id p = d_id v" for p v by (simp add: still_pending_def)
next
  fix s :: "('a, 'b) base_scheme" and v p
  assume d: "distinct (map d_id (webhook_deliveries (db s)))" and v: "v \<in> set (webhook_deliveries (db s))" "still_pending p v"
  show "moved d_id delivery_step {pd_id p} (webhook_deliveries (db s)) (webhook_deliveries (db (deliver_state E p s)))"
  proof (cases rule: deliver_run [of E p s])
    case (recorded f w)
    with v have "delivery_step v (f v)" "pd_id p = d_id v" by (auto simp: still_pending_def intro: outcome_of_step)
    with drows.moved_update [OF d v(1)] recorded(2) show ?thesis by (simp add: deliver_state_def update_delivery_def)
  qed (simp add: deliver_state_def)
qed

lemma due_still_pending:
  "p \<in> set (due_deliveries b now d) \<Longrightarrow> \<exists>v \<in> set (webhook_deliveries d). still_pending p v"
  by (auto simp: due_deliveries_def still_pending_def dest!: in_set_takeD)

lemma distinct_due:
  assumes "distinct (map d_id (webhook_deliveries d))"
  shows "distinct (map pd_id (due_deliveries b now d))"
proof -
  let ?vs = "order_by d_next_attempt_at
       (filter (\<lambda>v. d_status v = DelPending \<and> d_next_attempt_at v \<le> now) (webhook_deliveries d))"
  have "distinct (map d_id (List.take b ?vs))"
    using assms by (simp add: take_map [symmetric] distinct_order_by distinct_map_filter)
  then show ?thesis by (simp add: due_deliveries_def comp_def)
qed

text \<open>A try that ends without error is one step of its row; any other leaves the database alone.\<close>

lemma deliver_records:
  assumes "distinct (map d_id (webhook_deliveries (db s)))" and "v \<in> set (webhook_deliveries (db s))" and "d_status v = DelPending"
    and "run_state (deliver E (pending_of v)) s = (t, x)"
  shows "if t = Inr () then \<exists>v'. delivery_step v v' \<and>
      webhook_deliveries (db x) = map (\<lambda>u. if u = v then v' else u) (webhook_deliveries (db s)) else db x = db s"
proof (cases rule: deliver_run [of E "pending_of v" s])
  case (recorded f w)
  have "d_id u = d_id v \<longleftrightarrow> u = v" if "u \<in> set (webhook_deliveries (db s))" for u
    using assms(1,2) that by (metis distinct_map inj_onD)
  then have "update_rows d_id (d_id v) f (webhook_deliveries (db s)) = map (\<lambda>u. if u = v then f v else u) (webhook_deliveries (db s))"
    by (auto simp: update_rows_def)
  with recorded assms(4) outcome_of_step [OF recorded(1) assms(3)] show ?thesis by (auto simp: update_delivery_def)
qed (use assms(4) in auto)

text \<open>The loop handles a prefix of the batch, all of it unless an item panics.\<close>

lemma deliver_all_fold:
  "run_state (deliver_all E ds) s = (r, s') \<Longrightarrow> \<exists>n. s' = fold (deliver_state E) (List.take n ds) s"
proof (induction ds arbitrary: s r)
  case (Cons d ds)
  obtain r1 s1 where run1: "run_state (deliver E d) s = (r1, s1)" by fastforce
  then have s1: "s1 = deliver_state E d s" by (simp add: deliver_state_def)
  show ?case
  proof (cases "\<exists>e. r1 = Inl e \<and> is_panic e")
    case True
    with run1 Cons.prems s1 show ?thesis by (intro exI [of _ 1]) (auto simp: run_attempt)
  next
    case False
    obtain r2 s2 where run2: "run_state (deliver_all E ds) s1 = (r2, s2)" by fastforce
    from False run1 run2 Cons.prems have "s' = s2" by (cases r1; cases r2) (auto simp: run_attempt)
    with Cons.IH [of s1 r2] run2 obtain n where "s' = fold (deliver_state E) (List.take n ds) s1" by auto
    then show ?thesis using s1 by (intro exI [of _ "Suc n"]) simp
  qed
qed simp

lemma deliver_frame: "\<exists>w vs. deliver_state E d s = s\<lparr>world := w, db := (db s)\<lparr>webhook_deliveries := vs\<rparr>\<rparr>"
proof (cases rule: deliver_run [of E d s])
  case (untouched e w)
  then show ?thesis by (intro exI [of _ w] exI [of _ "webhook_deliveries (db s)"]) (simp add: deliver_state_def)
qed (auto simp: deliver_state_def update_delivery_def)

lemma deliver_fold_frame:
  "\<exists>w vs. fold (deliver_state E) ds s = s\<lparr>world := w, db := (db s)\<lparr>webhook_deliveries := vs\<rparr>\<rparr>"
proof (induction ds arbitrary: s)
  case Nil
  then show ?case by (intro exI [of _ "world s"] exI [of _ "webhook_deliveries (db s)"]) simp
next
  case (Cons d ds)
  obtain w vs where "deliver_state E d s = s\<lparr>world := w, db := (db s)\<lparr>webhook_deliveries := vs\<rparr>\<rparr>"
    using deliver_frame [of E d s] by blast
  with Cons.IH [of "deliver_state E d s"] show ?case by auto
qed

lemma Webhook_tick_batch:
  assumes "db_wf (db s)" and "run_state (Webhook_tick E b) s = (r, s')"
  obtains w ps where "s' = fold (deliver_state E) ps (s\<lparr>world := w\<rparr>)" "distinct (map pd_id ps)"
    "\<forall>p \<in> set ps. \<exists>v \<in> set (webhook_deliveries (db s)). still_pending p v"
proof -
  let ?q = "\<lambda>now d. limit_to b (\<lambda>n. due_deliveries n now d)"
  have d: "distinct (map d_id (webhook_deliveries (db s)))" using assms(1) by (simp add: db_wf_def)
  show ?thesis
  proof (cases rule: run_db_query [of E ?q s])
    case (fault e w)
    with assms(2) show ?thesis by (intro that [of "[]" w]) (simp_all add: Webhook_tick_def)
  next
    case (ran now w)
    show ?thesis
    proof (cases "b < 0")
      case True
      with ran assms(2) show ?thesis by (intro that [of "[]" w]) (simp_all add: Webhook_tick_def limit_to_def)
    next
      case False
      let ?ds = "due_deliveries (nat b) now (db s)"
      from ran False assms(2) have "run_state (deliver_all E ?ds) (s\<lparr>world := w\<rparr>) = (r, s')"
        by (simp add: Webhook_tick_def limit_to_def)
      from deliver_all_fold [OF this] obtain n where "s' = fold (deliver_state E) (List.take n ?ds) (s\<lparr>world := w\<rparr>)" by blast
      moreover have "distinct (map pd_id (List.take n ?ds))"
        using distinct_due [OF d, of "nat b" now] by (simp add: take_map [symmetric])
      moreover have "\<forall>p \<in> set (List.take n ?ds). \<exists>v \<in> set (webhook_deliveries (db s)). still_pending p v"
        using due_still_pending by (metis in_set_takeD)
      ultimately show ?thesis by (rule that)
    qed
  qed
qed

lemma Webhook_tick_moved:
  assumes "db_wf (db s)" and "run_state (Webhook_tick E b) s = (r, s')"
  shows "\<exists>w vs ids. s' = s\<lparr>world := w, db := (db s)\<lparr>webhook_deliveries := vs\<rparr>\<rparr> \<and>
           moved d_id delivery_step ids (webhook_deliveries (db s)) vs"
proof (rule Webhook_tick_batch [OF assms])
  fix w ps
  let ?s = "s\<lparr>world := w\<rparr>"
  assume s': "s' = fold (deliver_state E) ps ?s" and ps: "distinct (map pd_id ps)"
    "\<forall>p \<in> set ps. \<exists>v \<in> set (webhook_deliveries (db s)). still_pending p v"
  have "moved d_id delivery_step (pd_id ` set ps) (webhook_deliveries (db s)) (webhook_deliveries (db s'))"
    using dw.batch_moved [of ?s ps E] ps assms(1) s' by (simp add: db_wf_def)
  moreover obtain w' vs where "s' = ?s\<lparr>world := w', db := (db ?s)\<lparr>webhook_deliveries := vs\<rparr>\<rparr>"
    using deliver_fold_frame [of E ps ?s] s' by blast
  ultimately show ?thesis by auto
qed

lemma moved_data:
  assumes "moved d_id delivery_step ids (webhook_deliveries d) vs"
  shows "db_wf d \<Longrightarrow> db_wf (d\<lparr>webhook_deliveries := vs\<rparr>)"
    and "deliveries_ok d \<Longrightarrow> deliveries_ok (d\<lparr>webhook_deliveries := vs\<rparr>)"
proof -
  have "map d_id vs = map d_id (webhook_deliveries d)" "map d_request_id vs = map d_request_id (webhook_deliveries d)"
    by (rule moved_column [OF _ assms], simp add: delivery_step_key)+
  then show "db_wf d \<Longrightarrow> db_wf (d\<lparr>webhook_deliveries := vs\<rparr>)" by (rule db_wf_delivery_update)
  show "deliveries_ok d \<Longrightarrow> deliveries_ok (d\<lparr>webhook_deliveries := vs\<rparr>)"
    using moved_inv [of delivery_step delivery_ok, OF _ assms] by (auto simp: deliveries_ok_def dest: delivery_step_ok)
qed

section \<open>Errors of the worker\<close>

lemma text_param_error: "text_param m r = Inl e \<Longrightarrow> r \<noteq> Inl e \<Longrightarrow> \<not> is_panic e"
  by (auto simp: text_param_def split: if_splits)

lemma recordFailure_no_panic:
  assumes "ordinary_faults E" and "0 \<le> pd_attempt d"
    and "run_state (recordFailure E d code msg) s = (Inl e, s')"
  shows "\<not> is_panic e"
  using assms
  by (auto simp: recordFailure_def Let_def run_ext ordinary_faults_def BackoffSchedule_def split: if_splits
      dest!: db_exec_error text_param_error)

lemma deliver_no_panic:
  assumes "ordinary_faults E" and "0 \<le> pd_attempt d" and "run_state (deliver E d) s = (Inl e, s')"
  shows "\<not> is_panic e"
  using assms
  by (auto simp: deliver_def run_ext run_attempt ordinary_faults_def split: sum.splits if_splits prod.splits
      dest!: db_exec_error recordFailure_no_panic [OF assms(1,2)])

lemma deliver_all_total:
  assumes "ordinary_faults E" and "\<forall>d \<in> set ds. 0 \<le> pd_attempt d"
  shows "run_state (deliver_all E ds) s = (Inr (length ds), fold (deliver_state E) ds s)"
  using assms(2)
proof (induction ds arbitrary: s)
  case (Cons d ds)
  obtain r s1 where run: "run_state (deliver E d) s = (r, s1)" by fastforce
  have "deliver_state E d s = s1" using run by (simp add: deliver_state_def)
  with Cons.IH [of s1] Cons.prems
  have rest: "run_state (deliver_all E ds) s1 = (Inr (length ds), fold (deliver_state E) (d # ds) s)" by simp
  show ?case
  proof (cases r)
    case (Inl e)
    with run Cons.prems deliver_no_panic [OF assms(1)] have "\<not> is_panic e" by auto
    with Inl run rest show ?thesis by (simp add: run_attempt)
  qed (use run rest in \<open>simp add: run_attempt\<close>)
qed simp

lemma due_attempts:
  assumes "deliveries_ok d" and "p \<in> set (due_deliveries b now d)"
  shows "0 \<le> pd_attempt p"
proof -
  from assms(2) obtain v where "v \<in> set (webhook_deliveries d)" "d_status v = DelPending" "p = pending_of v"
    by (auto simp: due_deliveries_def dest!: in_set_takeD)
  with assms(1) show ?thesis by (auto simp: deliveries_ok_def delivery_ok_def pending_of_def)
qed

lemma Webhook_tick_total:
  assumes "ordinary_faults E" and "deliveries_ok (db s)"
  obtains (query_failed) e w where "run_state (Webhook_tick E b) s = (Inl e, s\<lparr>world := w\<rparr>)" "\<not> is_panic e"
  | (handled) now s' where "run_state (Webhook_tick E b) s = (Inr (length (due_deliveries (nat b) now (db s))), s')"
proof -
  let ?q = "\<lambda>now d. limit_to b (\<lambda>n. due_deliveries n now d)"
  show ?thesis
  proof (cases rule: run_db_query [of E ?q s])
    case (fault e w)
    moreover have "\<not> is_panic e" using db_query_error [OF fault] assms(1)
      by (auto simp: ordinary_faults_def limit_to_def split: if_splits)
    ultimately show ?thesis by (intro query_failed) (simp_all add: Webhook_tick_def)
  next
    case (ran now w)
    show ?thesis
    proof (cases "b < 0")
      case True
      with ran show ?thesis
        by (intro query_failed [of "ErrBadValue ''LIMIT must not be negative''" w]) (simp_all add: Webhook_tick_def limit_to_def)
    next
      case False
      with ran have "run_state (Webhook_tick E b) s = run_state (deliver_all E (due_deliveries (nat b) now (db s))) (s\<lparr>world := w\<rparr>)"
        by (simp add: Webhook_tick_def limit_to_def)
      with deliver_all_total [OF assms(1), of "due_deliveries (nat b) now (db s)" "s\<lparr>world := w\<rparr>"] due_attempts [OF assms(2)]
      show ?thesis by (metis handled)
    qed
  qed
qed

section \<open>A reply that cannot be stored\<close>

lemma pg_text_ok_ascii: "\<forall>c \<in> set p. 0 < (of_char c :: nat) \<and> (of_char c :: nat) < 128 \<Longrightarrow> pg_text_ok (p @ s) = pg_text_ok s"
  by (induction p) (auto simp: Let_def)

lemma big_String_ascii: "\<forall>c \<in> set (big_String v). 0 < (of_char c :: nat) \<and> (of_char c :: nat) < 128"
proof -
  have "\<forall>c \<in> set (show_nat n). is_digit c" for n using show_nat_digits [of n] by (simp add: list_all_iff)
  then have "\<forall>c \<in> set (show_nat n). 0 < (of_char c :: nat) \<and> (of_char c :: nat) < 128" for n
    by (force simp: is_digit_def Let_def)
  then show ?thesis by (auto simp: big_String_def)
qed

lemma pg_text_ok_reply: "pg_text_ok (''HTTP '' @ big_String c @ '': '' @ b) = pg_text_ok b"
proof -
  have "pg_text_ok ((''HTTP '' @ big_String c @ '': '') @ b) = pg_text_ok b"
    by (rule pg_text_ok_ascii) (use big_String_ascii [of c] in auto)
  then show ?thesis by simp
qed

definition unstorable_reply :: "HttpResponse \<Rightarrow> bool" where
  "unstorable_reply resp \<longleftrightarrow>
     \<not> (200 \<le> resp_StatusCode resp \<and> resp_StatusCode resp < 300) \<and> \<not> pg_text_ok (List.take 512 (resp_Body resp))"

lemma deliver_unstorable:
  assumes "newRequest E (pd_url d) = Inr ()"
    and "\<And>w. \<exists>resp. fst (httpDo E (pd_url d) (delivery_headers d) (pd_payload d) w) = Inr resp \<and> unstorable_reply resp"
  shows "\<exists>e w. run_state (deliver E d) s = (Inl e, s\<lparr>world := w\<rparr>)"
proof -
  let ?http = "httpDo E (pd_url d) (delivery_headers d) (pd_payload d) (world s)"
  let ?s = "s\<lparr>world := snd ?http\<rparr>"
  from assms(2) [of "world s"] obtain resp where resp: "fst ?http = Inr resp" "unstorable_reply resp" by auto
  let ?c = "resp_StatusCode resp"
  let ?msg = "''HTTP '' @ big_String ?c @ '': '' @ List.take 512 (resp_Body resp)"
  have run: "run_state (deliver E d) s = run_state (recordFailure E d ?c ?msg) ?s"
    using assms(1) resp by (auto simp: deliver_def run_ext unstorable_reply_def)
  have "\<not> pg_text_ok ?msg" using resp(2) by (simp only: pg_text_ok_reply unstorable_reply_def simp_thms)
  then show ?thesis
    by (cases rule: recordFailure_run [of E d ?c ?msg ?s]) (use run in auto)
qed

section \<open>Enqueue\<close>

lemma Enqueue_run:
  obtains (failed) e w where "run_state (Enqueue E i) s = (Inl e, s\<lparr>world := w\<rparr>)"
  | (skipped) st url secret w where "raw_row i (db s) = Inr (st, url, secret)" "url = [] \<or> secret = []"
      "run_state (Enqueue E i) s = (Inr (), s\<lparr>world := w\<rparr>)"
  | (queued) st url secret body v now d' w where "raw_row i (db s) = Inr (st, url, secret)" "url \<noteq> []" "secret \<noteq> []"
      "marshalStatus E st = Inr body" "insert_delivery_row (new_delivery v now i url body (sign E secret body)) (db s) = Inr d'"
      "run_state (Enqueue E i) s = (Inr (), s\<lparr>world := w, db := d'\<rparr>)"
proof (cases rule: run_GetRaw [of E i s])
  case (failed e w)
  then show ?thesis by (intro that(1)) (simp add: Enqueue_unfold)
next
  case (found st url secret body w)
  let ?s = "s\<lparr>world := w\<rparr>"
  let ?ins = "\<lambda>v now. insert_delivery_row (new_delivery v now i url body (sign E secret body))"
  show ?thesis
  proof (cases "url = [] \<or> secret = []")
    case True
    with found show ?thesis by (intro that(2)) (auto simp: Enqueue_unfold)
  next
    case False
    show ?thesis
    proof (cases rule: run_db_insert [of E ?ins ?s])
      case (failed e w2)
      with found False show ?thesis by (intro that(1)) (simp add: Enqueue_unfold)
    next
      case (applied v now d' w2)
      with found False show ?thesis by (intro that(3)) (auto simp: Enqueue_unfold)
    qed
  qed
qed

text \<open>
  What the service needs of its \<open>StatusFetcher\<close>: that it only reads. What enqueueing can then do to
  the state: nothing, or one more pending delivery of the request.
\<close>

locale status_fetcher =
  fixes status :: "string \<Rightarrow> ('w, 'z, (bytes \<times> string \<times> string) res) op"
  assumes status_reads: "\<exists>w. snd (run_state (status i) s) = s\<lparr>world := w\<rparr>"
begin

lemma Webhook_Enqueue_effect:
  assumes "run_state (Webhook_Enqueue (Webhook_NewService E status) i) s = (r, s')"
  obtains w where "s' = s\<lparr>world := w\<rparr>"
  | w v where "s' = s\<lparr>world := w, db := (db s)\<lparr>webhook_deliveries := webhook_deliveries (db s) @ [v]\<rparr>\<rparr>"
      "insert_delivery_row v (db s) = Inr ((db s)\<lparr>webhook_deliveries := webhook_deliveries (db s) @ [v]\<rparr>)"
      "d_request_id v = i" "delivery_ok v"
proof -
  obtain x w where got: "run_state (status i) s = (x, s\<lparr>world := w\<rparr>)"
    using status_reads [of i s] by (metis prod.collapse)
  note defs = Webhook_Enqueue_def Webhook_NewService_def
  show ?thesis
  proof (cases "\<exists>body url secret. x = Inr (body, url, secret) \<and> url \<noteq> [] \<and> secret \<noteq> []")
    case False
    with got assms show ?thesis by (intro that(1) [of w]) (cases x; force simp: defs)
  next
    case True
    then obtain body url secret where x: "x = Inr (body, url, secret)" "url \<noteq> []" "secret \<noteq> []" by blast
    let ?row = "\<lambda>v now. new_delivery v now i url body (sign E secret body)"
    show ?thesis
    proof (cases rule: run_db_insert [of E "\<lambda>v now. insert_delivery_row (?row v now)" "s\<lparr>world := w\<rparr>"])
      case (failed e w2)
      with got x assms show ?thesis by (intro that(1) [of w2]) (simp add: defs)
    next
      case (applied v now d' w2)
      with got x assms show ?thesis
        by (intro that(2) [of "?row v now" w2])
           (auto simp: defs insert_delivery_row_Inr new_delivery_def delivery_ok_def)
    qed
  qed
qed

end

interpretation raw: status_fetcher "GetRaw E"
proof
  fix i and s :: "('a, 'b) base_scheme"
  show "\<exists>w. snd (run_state (GetRaw E i) s) = s\<lparr>world := w\<rparr>"
    by (cases rule: run_GetRaw [of E i s]) auto
qed

lemma Enqueue_effect:
  assumes "run_state (Enqueue E i) s = (r, s')"
  obtains (kept) w where "s' = s\<lparr>world := w\<rparr>"
  | (queued) w v where "s' = s\<lparr>world := w, db := (db s)\<lparr>webhook_deliveries := webhook_deliveries (db s) @ [v]\<rparr>\<rparr>"
      "insert_delivery_row v (db s) = Inr ((db s)\<lparr>webhook_deliveries := webhook_deliveries (db s) @ [v]\<rparr>)"
      "d_request_id v = i" "delivery_ok v"
  by (rule raw.Webhook_Enqueue_effect [OF assms [unfolded Enqueue_def]]) (blast intro: kept queued)+

section \<open>Chains of attempts\<close>

text \<open>The attempts of one delivery, one after the other: at most five, each counted.\<close>

lemma delivery_chain:
  assumes "(delivery_step ^^ n) v v'" and "d_status v = DelPending" and "0 \<le> d_attempt v" and "d_attempt v \<le> 4"
  shows "d_attempt v' = d_attempt v + int n \<and> d_attempt v' \<le> 5 \<and> delivery_ok v' \<and>
    d_request_id v' = d_request_id v \<and> d_url v' = d_url v \<and> d_payload v' = d_payload v \<and> d_signature v' = d_signature v \<and>
    (d_status v' = DelPending \<longrightarrow> d_attempt v' \<le> 4)"
  using assms
proof (induction n arbitrary: v')
  case 0
  then show ?case by (simp add: delivery_ok_def)
next
  case (Suc n)
  from Suc.prems(1) obtain u where u: "(delivery_step ^^ n) v u" and s: "delivery_step u v'" by auto
  note IH = Suc.IH [OF u Suc.prems(2-4)]
  from s have p: "d_status u = DelPending" by (auto elim: delivery_stepE)
  from s have "d_attempt v' = d_attempt u + 1 \<and> (d_status v' = DelPending \<longrightarrow> d_attempt u < 4)"
    by (auto elim!: delivery_stepE simp: delivery_sets p)
  with IH p delivery_step_key [OF s] delivery_step_ok [OF s] show ?case by auto
qed

lemma delivery_final: "d_status v \<noteq> DelPending \<Longrightarrow> \<not> delivery_step v v'"
  by (auto elim: delivery_stepE)

section \<open>Run\<close>

lemma tick_loop_refines:
  assumes "db_wf (db s)" and "run_state (tick_loop (Webhook_tick E b) n) s = (r, s')"
  shows "\<exists>w vs. s' = s\<lparr>world := w, db := (db s)\<lparr>webhook_deliveries := vs\<rparr>\<rparr> \<and> db_wf (db s') \<and>
    list_all2 (\<lambda>v v'. \<exists>k \<le> n. (delivery_step ^^ k) v v') (webhook_deliveries (db s)) vs"
  using assms
proof (induction n arbitrary: s)
  case 0
  then show ?case by (intro exI [of _ "world s"] exI [of _ "webhook_deliveries (db s)"])
    (auto intro: list.rel_refl)
next
  case (Suc n)
  from Suc.prems(2) obtain t s1 where T: "run_state (Webhook_tick E b) s = (t, s1)"
    and rest: "s' = s1 \<or> run_state (tick_loop (Webhook_tick E b) n) s1 = (r, s')" by (rule tick_loop_step)
  from Webhook_tick_moved [OF Suc.prems(1) T] obtain w vs ids where
    s1: "s1 = s\<lparr>world := w, db := (db s)\<lparr>webhook_deliveries := vs\<rparr>\<rparr>"
    and mv: "moved d_id delivery_step ids (webhook_deliveries (db s)) vs" by blast
  have wf1: "db_wf (db s1)" using moved_data(1) [OF mv Suc.prems(1)] s1 by simp
  have one: "list_all2 (\<lambda>v v'. \<exists>k \<le> 1. (delivery_step ^^ k) v v') (webhook_deliveries (db s)) vs"
    using mv unfolding moved_def
    by (rule list.rel_mono_strong) (metis One_nat_def le_refl le_SucI relpowp_0_I relpowp_1)
  from rest show ?case
  proof
    assume "s' = s1"
    then show ?thesis using s1 wf1 one
      by (intro exI [of _ w] exI [of _ vs]) (auto elim!: list.rel_mono_strong intro: le_trans)
  next
    assume "run_state (tick_loop (Webhook_tick E b) n) s1 = (r, s')"
    from Suc.IH [OF wf1 this] obtain w2 vs2 where
      s': "s' = s1\<lparr>world := w2, db := (db s1)\<lparr>webhook_deliveries := vs2\<rparr>\<rparr>" and wf: "db_wf (db s')"
      and more: "list_all2 (\<lambda>v v'. \<exists>k \<le> n. (delivery_step ^^ k) v v') (webhook_deliveries (db s1)) vs2" by blast
    have "list_all2 (\<lambda>v v'. \<exists>k \<le> Suc n. (delivery_step ^^ k) v v') (webhook_deliveries (db s)) vs2"
    proof (rule list_all2_trans [OF _ one])
      show "list_all2 (\<lambda>v v'. \<exists>k \<le> n. (delivery_step ^^ k) v v') vs vs2" using more s1 by simp
      fix a b c assume "\<exists>k \<le> 1. (delivery_step ^^ k) a b" "\<exists>k \<le> n. (delivery_step ^^ k) b c"
      then obtain k j where "k \<le> 1" "(delivery_step ^^ k) a b" "j \<le> n" "(delivery_step ^^ j) b c" by blast
      then show "\<exists>k \<le> Suc n. (delivery_step ^^ k) a c"
        by (intro exI [of _ "k + j"]) (auto simp: relpowp_add)
    qed
    with s' wf s1 show ?thesis by auto
  qed
qed

lemma Webhook_Run_refines:
  assumes "db_wf (db s)" and run: "run_state (Webhook_Run ww n) s = (r, s')"
  shows "\<exists>w vs. s' = s\<lparr>world := w, db := (db s)\<lparr>webhook_deliveries := vs\<rparr>\<rparr> \<and> db_wf (db s') \<and>
    list_all2 (\<lambda>v v'. \<exists>k \<le> n. (delivery_step ^^ k) v v') (webhook_deliveries (db s)) vs"
  using run unfolding Webhook_Run_def
proof (cases rule: run_ticker_cases)
  case (panics msg)
  then show ?thesis using assms(1)
    by (intro exI [of _ "world s"] exI [of _ "webhook_deliveries (db s)"]) (auto intro!: list.rel_refl exI [of _ "0 :: nat"])
next
  case runs
  then show ?thesis using tick_loop_refines [OF assms(1)] by (simp add: Webhook_Tick_def)
qed

lemma Webhook_tick_data:
  assumes "db_wf (db s)" and "run_state (Webhook_tick E b) s = (r, s')"
  shows "db_wf (db s')" "deliveries_ok (db s) \<Longrightarrow> deliveries_ok (db s')"
  using Webhook_tick_moved [OF assms] moved_data [of _ "db s"] assms(1) by fastforce+

lemma Webhook_Run_total:
  assumes "ordinary_faults (ww_env ww)" and "0 < ww_interval ww" and "db_wf (db s)" and "deliveries_ok (db s)"
  shows "\<exists>s'. run_state (Webhook_Run ww n) s = (Inr (), s')"
proof -
  let ?P = "\<lambda>s. db_wf (db s) \<and> deliveries_ok (db s)"
  have tick: "?P s' \<and> (\<forall>e. r = Inl e \<longrightarrow> \<not> is_panic e)" if P: "?P s" and T: "run_state (Webhook_Tick ww) s = (r, s')" for s r s'
  proof -
    have "\<forall>e. r = Inl e \<longrightarrow> \<not> is_panic e"
      by (cases rule: Webhook_tick_total [OF assms(1), of s "ww_batchSize ww"]) (use P T in \<open>auto simp: Webhook_Tick_def\<close>)
    with Webhook_tick_data [of s "ww_env ww" "ww_batchSize ww" r s'] P T show ?thesis by (simp add: Webhook_Tick_def)
  qed
  have "\<exists>s'. run_state (Webhook_Run ww n) s = (Inr (), s') \<and> ?P s'"
    unfolding Webhook_Run_def by (rule run_ticker_total [where P = ?P, OF assms(2)]) (simp add: assms, rule tick)
  then show ?thesis by blast
qed

section \<open>Deliveries that are accepted\<close>

text \<open>An endpoint that answers a delivery with a success whenever it is called.\<close>

definition accepts :: "'w env \<Rightarrow> pendingDelivery \<Rightarrow> bool" where
  "accepts E p \<longleftrightarrow> newRequest E (pd_url p) = Inr () \<and>
     (\<forall>w. \<exists>resp. fst (httpDo E (pd_url p) (delivery_headers p) (pd_payload p) w) = Inr resp \<and>
        200 \<le> resp_StatusCode resp \<and> resp_StatusCode resp < 300)"

lemma deliver_accepted:
  assumes "no_faults E" and "accepts E p"
  shows "\<exists>code w. run_state (deliver E p) s = (Inr (), s\<lparr>world := w, db := update_delivery (pd_id p) (set_delivered code) (db s)\<rparr>)"
proof -
  obtain resp where r: "fst (httpDo E (pd_url p) (delivery_headers p) (pd_payload p) (world s)) = Inr resp"
    "200 \<le> resp_StatusCode resp" "resp_StatusCode resp < 300" using assms(2) unfolding accepts_def by blast
  with assms show ?thesis
    by (simp add: deliver_def accepts_def run_ext run_attempt db_exec_def db_query_def no_faults_def) blast
qed

interpretation dwf: finishing_worker d_id delivery_step "\<lambda>s. webhook_deliveries (db s)" "deliver_state E" pd_id still_pending
  "\<lambda>v. d_status v = DelPending" "\<lambda>v. d_status v = DelDelivered" "\<lambda>p. no_faults E \<and> accepts E p"
proof
  fix p v and s :: "('a, 'b) base_scheme"
  assume "no_faults E \<and> accepts E p" and v: "v \<in> set (webhook_deliveries (db (deliver_state E p s)))" "d_id v = pd_id p"
  then obtain code w where "run_state (deliver E p) s = (Inr (), s\<lparr>world := w, db := update_delivery (pd_id p) (set_delivered code) (db s)\<rparr>)"
    using deliver_accepted [of E p s] by blast
  with v show "d_status v = DelDelivered"
    by (auto simp: deliver_state_def update_delivery_def update_rows_def set_delivered_def split: if_splits)
qed (auto simp: still_pending_def)

text \<open>A tick of the worker when every pending delivery is due and accepted.\<close>

lemma Webhook_tick_delivers:
  assumes nf: "no_faults E" and "0 \<le> b" and wf: "db_wf (db s)" and ok: "deliveries_ok (db s)"
    and good: "\<forall>v \<in> set (webhook_deliveries (db s)). d_status v = DelPending \<longrightarrow>
      accepts E (pending_of v) \<and> (\<forall>w. d_next_attempt_at v \<le> fst (dbNow E w))"
  shows "\<exists>n s'. run_state (Webhook_tick E b) s = (Inr n, s') \<and>
    settled (\<lambda>v. d_status v = DelPending) (\<lambda>v. d_status v = DelDelivered) (webhook_deliveries (db s)) (webhook_deliveries (db s')) \<and>
    length (filter (\<lambda>v. d_status v = DelPending) (webhook_deliveries (db s'))) =
      length (filter (\<lambda>v. d_status v = DelPending) (webhook_deliveries (db s))) - nat b"
proof -
  let ?q = "\<lambda>now d. limit_to b (\<lambda>n. due_deliveries n now d)" and ?rows = "webhook_deliveries (db s)"
  obtain v w where q: "run_state (db_query E ?q) s = (?q (fst (dbNow E v)) (db s), s\<lparr>world := w\<rparr>)"
    using run_db_query_now [OF nf, of ?q s] by blast
  let ?ps = "due_deliveries (nat b) (fst (dbNow E v)) (db s)" and ?s = "s\<lparr>world := w\<rparr>"
  have "ordinary_faults E" using nf by (simp add: ordinary_faults_def no_faults_def)
  then have run: "run_state (Webhook_tick E b) s = (Inr (length ?ps), fold (deliver_state E) ?ps ?s)"
    using q assms(2) deliver_all_total [of E ?ps ?s] due_attempts [OF ok] by (simp add: Webhook_tick_def limit_to_def)
  have "filter (\<lambda>u. d_status u = DelPending \<and> d_next_attempt_at u \<le> fst (dbNow E v)) ?rows = filter (\<lambda>u. d_status u = DelPending) ?rows"
    using good by (auto intro!: filter_cong)
  then have ps: "?ps = map pending_of (List.take (nat b) (order_by d_next_attempt_at (filter (\<lambda>u. d_status u = DelPending) ?rows)))"
    by (simp add: due_deliveries_def)
  have "distinct (map d_id (webhook_deliveries (db ?s)))" using wf by (simp add: db_wf_def)
  moreover have "map pd_id ?ps = map d_id (List.take (nat b) (order_by d_next_attempt_at (filter (\<lambda>u. d_status u = DelPending)
      (webhook_deliveries (db ?s)))))" unfolding ps by (simp add: comp_def)
  moreover have "\<forall>p \<in> set ?ps. \<exists>u \<in> set (webhook_deliveries (db ?s)). still_pending p u" using due_still_pending by simp
  moreover have "\<forall>p \<in> set ?ps. no_faults E \<and> accepts E p" unfolding ps using nf good by (auto dest!: in_set_takeD)
  ultimately show ?thesis using run dwf.batch_finishes [of ?s ?ps "nat b" d_next_attempt_at E] by simp
qed

abbreviation is_pending :: "delivery_row \<Rightarrow> bool" where
  "is_pending v \<equiv> d_status v = DelPending"

abbreviation is_delivered :: "delivery_row \<Rightarrow> bool" where
  "is_delivered v \<equiv> d_status v = DelDelivered"

definition deliverable :: "'w env \<Rightarrow> database \<Rightarrow> bool" where
  "deliverable E d \<longleftrightarrow> (\<forall>v \<in> set (webhook_deliveries d). is_pending v \<longrightarrow>
      accepts E (pending_of v) \<and> (\<forall>w. d_next_attempt_at v \<le> fst (dbNow E w)))"

lemma settled_deliverable:
  assumes "settled is_pending is_delivered (webhook_deliveries d) (webhook_deliveries d')" and "deliverable E d"
  shows "deliverable E d'"
proof -
  have "v \<in> set (webhook_deliveries d)" if "v \<in> set (webhook_deliveries d')" "is_pending v" for v
    using assms(1) that unfolding settled_def by (induction rule: list_all2_induct) auto
  with assms(2) show ?thesis by (auto simp: deliverable_def)
qed

lemma Webhook_Run_drains:
  assumes nf: "no_faults (ww_env ww)" and iv: "0 < ww_interval ww" and b: "0 \<le> ww_batchSize ww"
    and "db_wf (db s)" and "deliveries_ok (db s)" and "deliverable (ww_env ww) (db s)"
  shows "\<exists>s'. run_state (Webhook_Run ww n) s = (Inr (), s') \<and>
    settled is_pending is_delivered (webhook_deliveries (db s)) (webhook_deliveries (db s')) \<and>
    length (filter is_pending (webhook_deliveries (db s'))) =
      length (filter is_pending (webhook_deliveries (db s))) - n * nat (ww_batchSize ww)"
proof -
  let ?E = "ww_env ww"
  let ?P = "\<lambda>x. db_wf (db x) \<and> deliveries_ok (db x) \<and> deliverable ?E (db x) \<and>
    settled is_pending is_delivered (webhook_deliveries (db s)) (webhook_deliveries (db x))"
  let ?count = "\<lambda>x. length (filter is_pending (webhook_deliveries (db x)))"
  have tick: "?P y \<and> (\<forall>e. r = Inl e \<longrightarrow> \<not> is_panic e) \<and> ?count y = ?count x - nat (ww_batchSize ww)"
    if P: "?P x" and T: "run_state (Webhook_Tick ww) x = (r, y)" for x r y
  proof -
    from T have T': "run_state (Webhook_tick ?E (ww_batchSize ww)) x = (r, y)" by (simp add: Webhook_Tick_def)
    from Webhook_tick_delivers [OF nf b, of x] P T' obtain k where r: "r = Inr k"
      and st: "settled is_pending is_delivered (webhook_deliveries (db x)) (webhook_deliveries (db y))"
      and c: "?count y = ?count x - nat (ww_batchSize ww)" by (auto simp: deliverable_def)
    have "settled is_pending is_delivered (webhook_deliveries (db s)) (webhook_deliveries (db y))"
      by (rule settled_trans [OF _ _ st]) (use P in auto)
    with Webhook_tick_data [OF _ T'] settled_deliverable [OF st, of ?E] P r c show ?thesis by simp
  qed
  have "\<exists>s'. run_state (Webhook_Run ww n) s = (Inr (), s') \<and> ?P s' \<and> ?count s' = ?count s - n * nat (ww_batchSize ww)"
    unfolding Webhook_Run_def by (rule run_ticker_drains [where P = ?P and count = ?count, OF iv]) (simp add: assms, rule tick)
  then show ?thesis by blast
qed

section \<open>Replies that cannot be recorded\<close>

text \<open>An endpoint that keeps answering a delivery with a failure whose text the column refuses.\<close>

definition refuses :: "'w env \<Rightarrow> delivery_row \<Rightarrow> bool" where
  "refuses E v \<longleftrightarrow> newRequest E (d_url v) = Inr () \<and>
     (\<forall>w. \<exists>resp. fst (httpDo E (d_url v) (delivery_headers (pending_of v)) (d_payload v) w) = Inr resp \<and> unstorable_reply resp)"

lemma deliver_refused:
  assumes "refuses E v" and "v \<in> set (webhook_deliveries (db s))" and "distinct (map d_id (webhook_deliveries (db s)))"
    and "u \<in> set (webhook_deliveries (db s))" and "still_pending p u"
  shows "v \<in> set (webhook_deliveries (db (deliver_state E p s)))"
proof (cases "u = v")
  case True
  then have p: "p = pending_of v" using assms(5) by (simp add: still_pending_def)
  have "\<exists>e w. run_state (deliver E p) s = (Inl e, s\<lparr>world := w\<rparr>)"
    using assms(1) unfolding p refuses_def by (intro deliver_unstorable) (auto simp: pending_of_def)
  then show ?thesis using assms(2) by (auto simp: deliver_state_def)
next
  case False
  then have "d_id u \<noteq> d_id v" using assms(2-4) by (metis distinct_map inj_onD)
  then have "d_id v \<notin> {pd_id p}" using assms(5) by (auto simp: still_pending_def)
  from moved_other [OF dw.item_moved [OF assms(3,4,5)] assms(2) this] show ?thesis .
qed

lemma fold_refused:
  assumes "refuses E v" and "v \<in> set (webhook_deliveries (db s))" and "distinct (map d_id (webhook_deliveries (db s)))"
    and "distinct (map pd_id ps)" and "\<forall>p \<in> set ps. \<exists>u \<in> set (webhook_deliveries (db s)). still_pending p u"
  shows "v \<in> set (webhook_deliveries (db (fold (deliver_state E) ps s)))"
  using assms(2-)
proof (induction ps arbitrary: s)
  case (Cons p ps)
  let ?s = "deliver_state E p s"
  from Cons.prems obtain u where u: "u \<in> set (webhook_deliveries (db s))" "still_pending p u" by auto
  note mv = dw.item_moved [OF Cons.prems(2) u, of E]
  have d: "distinct (map d_id (webhook_deliveries (db ?s)))" using Cons.prems(2) drows.moved_keys [OF mv] by simp
  have "\<exists>u \<in> set (webhook_deliveries (db ?s)). still_pending q u" if q: "q \<in> set ps" for q
  proof -
    from Cons.prems q obtain x where x: "x \<in> set (webhook_deliveries (db s))" "still_pending q x" by auto
    moreover have "pd_id q \<noteq> pd_id p" using Cons.prems(3) q by (metis distinct.simps(2) image_eqI list.set_map list.simps(9))
    then have "d_id x \<notin> {pd_id p}" using x(2) by (auto simp: still_pending_def)
    ultimately show ?thesis using moved_other [OF mv x(1)] by blast
  qed
  with Cons.IH [OF deliver_refused [OF assms(1) Cons.prems(1,2) u] d] Cons.prems(3) show ?case by simp
qed simp

lemma tick_refused:
  assumes "refuses E v" and "v \<in> set (webhook_deliveries (db s))" and "db_wf (db s)"
    and T: "run_state (Webhook_tick E b) s = (r, s')"
  shows "v \<in> set (webhook_deliveries (db s'))"
proof (rule Webhook_tick_batch [OF assms(3) T])
  fix w ps
  assume s': "s' = fold (deliver_state E) ps (s\<lparr>world := w\<rparr>)" and ps: "distinct (map pd_id ps)"
    "\<forall>p \<in> set ps. \<exists>v \<in> set (webhook_deliveries (db s)). still_pending p v"
  show ?thesis
    unfolding s' by (rule fold_refused [OF assms(1)]) (use assms(2,3) ps in \<open>simp_all add: db_wf_def\<close>)
qed

lemma Webhook_Run_refused:
  assumes "refuses (ww_env ww) v" and "v \<in> set (webhook_deliveries (db s))" and "db_wf (db s)"
    and "run_state (Webhook_Run ww n) s = (r, s')"
  shows "v \<in> set (webhook_deliveries (db s'))"
proof -
  let ?P = "\<lambda>s. db_wf (db s) \<and> v \<in> set (webhook_deliveries (db s))"
  have tick: "?P s'" if "?P s" "run_state (Webhook_Tick ww) s = (t, s')" for s t s'
    using that tick_refused [OF assms(1), of s "ww_batchSize ww" t s'] Webhook_tick_data(1) [of s "ww_env ww" "ww_batchSize ww" t s']
    by (simp add: Webhook_Tick_def)
  have "?P s'"
    by (rule run_ticker_inv [where P = ?P, OF _ _ assms(4) [unfolded Webhook_Run_def]]) (rule tick, assumption+, simp add: assms)
  then show ?thesis by blast
qed

text \<open>
  How often the outside has been sent one request: sending it adds one, and nothing else that the
  worker calls does.
\<close>

definition counts_requests ::
  "'w env \<Rightarrow> string \<Rightarrow> (string \<times> string) list \<Rightarrow> bytes \<Rightarrow> ('w \<Rightarrow> nat) \<Rightarrow> bool" where
  "counts_requests E url headers body sent \<longleftrightarrow>
     (\<forall>u h x w. sent (snd (httpDo E u h x w)) = (if u = url \<and> h = headers \<and> x = body then Suc (sent w) else sent w)) \<and>
     (\<forall>w. sent (snd (dbFault E w)) = sent w \<and> sent (snd (dbNow E w)) = sent w \<and> sent (snd (timeNow E w)) = sent w)"

abbreviation counts_delivery :: "'w env \<Rightarrow> delivery_row \<Rightarrow> ('w \<Rightarrow> nat) \<Rightarrow> bool" where
  "counts_delivery E v \<equiv> counts_requests E (d_url v) (delivery_headers (pending_of v)) (d_payload v)"

lemma leaves_ext_count: "(\<And>w. c (snd (f w)) = c w) \<Longrightarrow> leaves (\<lambda>s. c (world s)) (ext f)"
  by (simp add: leaves_def run_ext)

lemma db_query_count:
  assumes "counts_requests E url h x sent"
  shows "leaves (\<lambda>s. sent (world s)) (db_query E q)"
  unfolding db_query_def by (intro leaves_rules leaves_ext_count) (use assms in \<open>simp_all add: counts_requests_def\<close>)

lemma db_exec_count:
  assumes "counts_requests E url h x sent"
  shows "leaves (\<lambda>s. sent (world s)) (db_exec E f)"
  unfolding db_exec_def by (intro leaves_rules leaves_writes db_query_count [OF assms]) simp

lemma recordFailure_count:
  assumes "counts_requests E url h x sent"
  shows "leaves (\<lambda>s. sent (world s)) (recordFailure E d code msg)"
  unfolding recordFailure_def Let_def
  by (intro leaves_rules db_exec_count [OF assms] leaves_ext_count) (use assms in \<open>simp add: counts_requests_def\<close>)

text \<open>A run of \<open>deliver\<close> sends its own request once, and no other: the headers carry the delivery's id.\<close>

lemma deliver_count:
  assumes c: "counts_delivery E v sent" and "newRequest E (d_url v) = Inr ()" and "pd_id p = d_id v \<longrightarrow> p = pending_of v"
  shows "sent (world (deliver_state E p s)) = (if pd_id p = d_id v then Suc (sent (world s)) else sent (world s))"
proof (cases "newRequest E (pd_url p)")
  case (Inl e)
  then have "pd_id p \<noteq> d_id v" using assms(2,3) by (auto simp: pending_of_def)
  with Inl show ?thesis by (simp add: deliver_state_def deliver_def leaves_eq [OF recordFailure_count [OF c]])
next
  case (Inr x)
  let ?http = "httpDo E (pd_url p) (delivery_headers p) (pd_payload p) (world s)"
  have "sent (world (deliver_state E p s)) = sent (snd ?http)"
    using Inr by (cases "fst ?http")
      (simp_all add: deliver_state_def deliver_def run_ext leaves_eq [OF recordFailure_count [OF c]] leaves_eq [OF db_exec_count [OF c]])
  also have "\<dots> = (if pd_url p = d_url v \<and> delivery_headers p = delivery_headers (pending_of v) \<and> pd_payload p = d_payload v
      then Suc (sent (world s)) else sent (world s))" using c unfolding counts_requests_def by blast
  also have "(pd_url p = d_url v \<and> delivery_headers p = delivery_headers (pending_of v) \<and> pd_payload p = d_payload v) = (pd_id p = d_id v)"
    using assms(3) by (auto simp: delivery_headers_def) (simp_all add: pending_of_def)
  finally show ?thesis .
qed

lemma fold_deliver_count:
  assumes c: "counts_delivery E v sent" and "newRequest E (d_url v) = Inr ()"
    and "\<forall>p \<in> set ps. pd_id p = d_id v \<longrightarrow> p = pending_of v"
  shows "sent (world (fold (deliver_state E) ps s)) = sent (world s) + length (filter (\<lambda>p. pd_id p = d_id v) ps)"
  using assms(3)
proof (induction ps arbitrary: s)
  case (Cons p ps)
  then show ?case using deliver_count [OF assms(1,2), of p s] by simp
qed simp

text \<open>A tick in which a pending delivery is due and the batch has room for all sends it once.\<close>

lemma Webhook_tick_sends:
  assumes nf: "no_faults E" and c: "counts_delivery E v sent" and req: "newRequest E (d_url v) = Inr ()"
    and wf: "db_wf (db s)" and ok: "deliveries_ok (db s)" and room: "length (webhook_deliveries (db s)) \<le> nat b"
    and v: "v \<in> set (webhook_deliveries (db s))" "is_pending v" and due: "\<forall>w. d_next_attempt_at v \<le> fst (dbNow E w)"
  shows "\<exists>n s'. run_state (Webhook_tick E b) s = (Inr n, s') \<and> sent (world s') = Suc (sent (world s))"
proof -
  let ?q = "\<lambda>now d. limit_to b (\<lambda>n. due_deliveries n now d)" and ?rows = "webhook_deliveries (db s)"
  obtain x w where q: "run_state (db_query E ?q) s = (?q (fst (dbNow E x)) (db s), s\<lparr>world := w\<rparr>)"
    using run_db_query_now [OF nf, of ?q s] by blast
  let ?now = "fst (dbNow E x)" and ?s = "s\<lparr>world := w\<rparr>"
  let ?ps = "due_deliveries (nat b) ?now (db s)"
  have b: "0 \<le> b" using room v(1) by (cases "b < 0") auto
  have "ordinary_faults E" using nf by (simp add: ordinary_faults_def no_faults_def)
  then have run: "run_state (Webhook_tick E b) s = (Inr (length ?ps), fold (deliver_state E) ?ps ?s)"
    using q b deliver_all_total [of E ?ps ?s] due_attempts [OF ok] by (simp add: Webhook_tick_def limit_to_def)
  have d: "distinct (map d_id ?rows)" using wf by (simp add: db_wf_def)
  have "length (filter (\<lambda>u. is_pending u \<and> d_next_attempt_at u \<le> ?now) ?rows) \<le> nat b"
    using room by (meson le_trans length_filter_le)
  then have "set ?ps = pending_of ` {u \<in> set ?rows. is_pending u \<and> d_next_attempt_at u \<le> ?now}"
    by (auto simp: due_deliveries_def)
  then have ps: "pending_of v \<in> set ?ps" "\<forall>p \<in> set ?ps. pd_id p = d_id v \<longrightarrow> p = pending_of v"
    using v due d by (auto dest: inj_onD simp: distinct_map)
  have dps: "distinct ?ps" using distinct_due [OF d, of "nat b" ?now] by (simp only: distinct_map)
  have "length (filter (\<lambda>p. pd_id p = d_id v) ?ps) = length (filter ((=) (pending_of v)) ?ps)"
    using ps(2) by (intro arg_cong [where f = length] filter_cong) (auto simp: pending_of_def)
  also have "\<dots> = count (mset ?ps) (pending_of v)" by (simp add: count_mset count_list_eq_length_filter)
  also have "\<dots> = 1" using ps(1) dps by (simp add: distinct_count_atmost_1)
  finally have "length (filter (\<lambda>p. pd_id p = d_id v) ?ps) = 1" .
  with run fold_deliver_count [OF c req ps(2), of ?s] leavesD [OF db_query_count [OF c] q] show ?thesis by simp
qed

lemma Webhook_Run_resends:
  assumes "no_faults (ww_env ww)" and iv: "0 < ww_interval ww" and c: "counts_delivery (ww_env ww) v sent"
    and ref: "refuses (ww_env ww) v" and "db_wf (db s)" and "deliveries_ok (db s)"
    and "length (webhook_deliveries (db s)) \<le> nat (ww_batchSize ww)" and "v \<in> set (webhook_deliveries (db s))"
    and "is_pending v" and "\<forall>w. d_next_attempt_at v \<le> fst (dbNow (ww_env ww) w)"
  shows "\<exists>s'. run_state (Webhook_Run ww n) s = (Inr (), s') \<and> sent (world s') = sent (world s) + n"
proof -
  let ?E = "ww_env ww" and ?b = "ww_batchSize ww"
  let ?P = "\<lambda>x. db_wf (db x) \<and> deliveries_ok (db x) \<and> length (webhook_deliveries (db x)) \<le> nat ?b \<and> v \<in> set (webhook_deliveries (db x))"
  have req: "newRequest ?E (d_url v) = Inr ()" using ref by (simp add: refuses_def)
  have tick: "?P y \<and> (\<forall>e. r = Inl e \<longrightarrow> \<not> is_panic e) \<and> sent (world y) = Suc (sent (world x))"
    if P: "?P x" and T: "run_state (Webhook_Tick ww) x = (r, y)" for x r y
  proof -
    from T have T': "run_state (Webhook_tick ?E ?b) x = (r, y)" by (simp add: Webhook_Tick_def)
    from P have wf: "db_wf (db x)" by simp
    from Webhook_tick_moved [OF wf T'] obtain ids where "moved d_id delivery_step ids (webhook_deliveries (db x)) (webhook_deliveries (db y))"
      by auto
    then have "length (webhook_deliveries (db y)) = length (webhook_deliveries (db x))"
      unfolding moved_def by (simp add: list_all2_lengthD)
    moreover from Webhook_tick_sends [OF assms(1) c req wf _ _ _ assms(9,10), of ?b] P T' obtain k where
      "r = Inr k" "sent (world y) = Suc (sent (world x))" by auto
    ultimately show ?thesis using P Webhook_tick_data [OF wf T'] tick_refused [OF ref _ wf T'] by simp
  qed
  have "\<exists>s'. run_state (Webhook_Run ww n) s = (Inr (), s') \<and> ?P s' \<and> sent (world s') = sent (world s) + n"
    unfolding Webhook_Run_def by (rule run_ticker_counts [where P = ?P, OF iv]) (simp add: assms, rule tick)
  then show ?thesis by blast
qed

end
