(* ===== verification/Relay_Service.thy ===== *)
theory Relay_Service
  imports Signer_Pool Webhook
begin

text \<open>
  \<open>internal/relay/service.go\<close>: \<open>Submit\<close> checks a request, writes it down, borrows a signer
  from the app's pool, prices, signs and records the transaction, broadcasts it and marks it
  submitted. The collaborators that the code reaches through interfaces (the pool loader and
  the webhook enqueuer) are locales here, interpreted on their models.
\<close>

section \<open>The service\<close>

definition gasLimitBufferNumerator :: uint64 where "gasLimitBufferNumerator = 12"
definition gasLimitBufferDenominator :: uint64 where "gasLimitBufferDenominator = 10"

text \<open>\<open>in.Data\<close> is a slice that may be nil, which the driver sends as NULL.\<close>

record SubmitInput =
  in_AppID :: string
  in_ChainID :: uint64
  in_To :: address
  in_Data :: "bytes option"
  in_Value :: "int option"
  in_GasLimit :: uint64
  in_Deadline :: int
  in_CallbackURL :: string
  in_CallbackMetadata :: string

record SubmitResult =
  sr_RequestID :: string
  sr_TxHash :: hash
  sr_Signer :: address

record ('w, 'z) Service =
  svc_env :: "'w env"
  svc_fetch :: "string \<Rightarrow> ('w, 'z, Signer list option res) pool_op"
  svc_webhooks :: "(string \<Rightarrow> ('w, 'z, unit res) pool_op) option"

definition NewService :: "'w env \<Rightarrow> (string \<Rightarrow> ('w, 'z, Signer list option res) pool_op) \<Rightarrow> ('w, 'z) Service" where
  "NewService E fetch = \<lparr>svc_env = E, svc_fetch = fetch, svc_webhooks = None\<rparr>"

text \<open>\<open>Load\<close> of the \<open>SignerPool\<close> interface, from the reading half the service is given.\<close>

definition svc_load :: "('w, 'z) Service \<Rightarrow> string \<Rightarrow> ('w, 'z, unit res) pool_op" where
  "svc_load svc = load_with (svc_fetch svc)"

definition SetWebhooks ::
  "(string \<Rightarrow> ('w, 'z, unit res) pool_op) \<Rightarrow> ('w, 'z) Service \<Rightarrow> ('w, 'z) Service" where
  "SetWebhooks f svc = svc\<lparr>svc_webhooks := Some f\<rparr>"

definition data_bytes :: "SubmitInput \<Rightarrow> bytes" where
  "data_bytes inp = (case in_Data inp of None \<Rightarrow> [] | Some b \<Rightarrow> b)"

definition amount :: "SubmitInput \<Rightarrow> int" where
  "amount inp = (case in_Value inp of None \<Rightarrow> 0 | Some v \<Rightarrow> v)"

section \<open>Statements\<close>

definition new_request :: "'w env \<Rightarrow> string \<Rightarrow> int \<Rightarrow> SubmitInput \<Rightarrow> bytes \<Rightarrow> numeric \<Rightarrow> relay_row" where
  "new_request E i now inp dat v =
     \<lparr>r_id = i, r_app_id = in_AppID inp, r_chain_id = uint (in_ChainID inp),
      r_to_address = lowerHex E (in_To inp), r_call_data = dat, r_value = v,
      r_gas_limit = nullif_zero (sint (in_GasLimit inp)), r_deadline = nullif_zero (in_Deadline inp),
      r_callback_url = nullif_empty (in_CallbackURL inp),
      r_callback_metadata = nullif_empty (in_CallbackMetadata inp),
      r_status = ReqPending, r_created_at = now, r_updated_at = now\<rparr>"

text \<open>
  The driver refuses a \<open>uint64\<close> chain id beyond \<open>BIGINT\<close> and the server refuses text that is
  not UTF-8, an amount beyond \<open>NUMERIC(78, 0)\<close> and NULL call data. The gas limit and the deadline
  are parameters of \<open>NULLIF($n, 0)\<close>, whose type the server takes from the literal: \<open>int4\<close>, although
  the columns are \<open>BIGINT\<close>.
\<close>

definition fits_int4 :: "int \<Rightarrow> bool" where
  "fits_int4 v \<longleftrightarrow> - (2 ^ 31) \<le> v \<and> v < 2 ^ 31"

definition request_insert :: "'w env \<Rightarrow> SubmitInput \<Rightarrow> string \<Rightarrow> int \<Rightarrow> database \<Rightarrow> database res" where
  "request_insert E inp i now d =
     (if 2 ^ 63 \<le> uint (in_ChainID inp) then Inl (ErrBadValue ''value out of range for int8'')
      else if \<not> fits_int4 (sint (in_GasLimit inp)) \<or> \<not> fits_int4 (in_Deadline inp)
      then Inl (ErrBadValue ''value out of range for int4'')
      else text_param (in_CallbackURL inp) (text_param (in_CallbackMetadata inp)
        (case (in_Data inp, pgNumeric E (big_String (amount inp))) of
           (Some dat, Some v) \<Rightarrow> insert_relay_row (new_request E i now inp dat v) d
         | (None, _) \<Rightarrow> Inl (ErrCheckViolation ''null value in column call_data'')
         | (_, None) \<Rightarrow> Inl (ErrBadValue ''numeric field overflow''))))"

definition insertRequest :: "'w env \<Rightarrow> SubmitInput \<Rightarrow> ('w, 'z, string res) op" where
  "insertRequest E inp = db_insert E (request_insert E inp)"

definition new_attempt ::
  "'w env \<Rightarrow> string \<Rightarrow> int \<Rightarrow> string \<Rightarrow> address \<Rightarrow> uint64 \<Rightarrow> hash \<Rightarrow> numeric \<Rightarrow> attempt_row" where
  "new_attempt E i now requestID signerAddr nonce h price =
     \<lparr>t_id = i, t_request_id = requestID, t_signer_address = lowerHex E signerAddr, t_nonce = sint nonce,
      t_tx_hash = lowerHash E h, t_gas_price = price, t_status = AttSubmitting, t_submitted_at = now,
      t_block_number = None, t_gas_used = None, t_effective_gas_price = None, t_logs = None,
      t_revert_reason = None\<rparr>"

definition attempt_insert ::
  "'w env \<Rightarrow> string \<Rightarrow> address \<Rightarrow> uint64 \<Rightarrow> hash \<Rightarrow> int \<Rightarrow> string \<Rightarrow> int \<Rightarrow> database \<Rightarrow> database res" where
  "attempt_insert E requestID signerAddr nonce h gasPrice i now d =
     (case pgNumeric E (big_String gasPrice) of
        None \<Rightarrow> Inl (ErrBadValue ''numeric field overflow'')
      | Some p \<Rightarrow> insert_attempt_row (new_attempt E i now requestID signerAddr nonce h p) d)"

definition insertAttempt ::
  "'w env \<Rightarrow> string \<Rightarrow> address \<Rightarrow> uint64 \<Rightarrow> hash \<Rightarrow> int \<Rightarrow> ('w, 'z, string res) op" where
  "insertAttempt E requestID signerAddr nonce h gasPrice =
     db_insert E (attempt_insert E requestID signerAddr nonce h gasPrice)"

definition fireWebhook :: "('w, 'z) Service \<Rightarrow> string \<Rightarrow> ('w, 'z, unit) pool_op" where
  "fireWebhook svc requestID =
     (case svc_webhooks svc of
        None \<Rightarrow> ret ()
      | Some enqueue \<Rightarrow> attempt (enqueue requestID) (\<lambda>_. ret ()) (\<lambda>_. ret ()))"

definition markRequestStatus ::
  "('w, 'z) Service \<Rightarrow> string \<Rightarrow> request_status \<Rightarrow> ('w, 'z, unit res) pool_op" where
  "markRequestStatus svc requestID status =
     attempt (db_exec (svc_env svc) (\<lambda>now d. Inr (update_request_status status now requestID d))) fail (\<lambda>_.
     if status = ReqRejected \<or> status = ReqFailed then do { fireWebhook svc requestID; ok () } else ok ())"

definition markAttemptStatus :: "'w env \<Rightarrow> string \<Rightarrow> attempt_status \<Rightarrow> ('w, 'z, unit res) op" where
  "markAttemptStatus E attemptID status =
     db_exec E (\<lambda>now d. Inr (update_attempt_status status attemptID d))"

definition markSubmitted :: "'w env \<Rightarrow> string \<Rightarrow> string \<Rightarrow> ('w, 'z, unit res) op" where
  "markSubmitted E requestID attemptID =
     attempt (tx_begin E) fail (\<lambda>(now, d).
     tx_two E (\<lambda>d. Inr (update_attempt_status AttSubmitted attemptID d))
              (\<lambda>d. Inr (update_request_status ReqSubmitted now requestID d)) d)"

section \<open>Submit\<close>

text \<open>The error paths of \<open>Submit\<close> before the nonce is drawn: the status update's own error is dropped.\<close>

definition reject :: "('w, 'z) Service \<Rightarrow> string \<Rightarrow> string \<Rightarrow> error \<Rightarrow> ('w, 'z, 'a res) pool_op" where
  "reject svc requestID m e = do { markRequestStatus svc requestID ReqRejected; fail_wrap m e }"

text \<open>Loading the pool decrypts key files, which can panic; a panic leaves \<open>Submit\<close> at once.\<close>

definition load_failed :: "('w, 'z) Service \<Rightarrow> string \<Rightarrow> error \<Rightarrow> ('w, 'z, 'a res) pool_op" where
  "load_failed svc requestID e =
     (if is_panic e then fail e else reject svc requestID ''load signer pool'' e)"

definition call_msg :: "SubmitInput \<Rightarrow> address \<Rightarrow> CallMsg" where
  "call_msg inp from = \<lparr>msg_From = from, msg_To = in_To inp, msg_Value = Some (amount inp), msg_Data = data_bytes inp\<rparr>"

definition gas_limit :: "'w env \<Rightarrow> SubmitInput \<Rightarrow> address \<Rightarrow> ('w, 'z, uint64 res) op" where
  "gas_limit E inp from =
     (if in_GasLimit inp = 0
      then attempt (EstimateGas E (call_msg inp from)) fail
             (\<lambda>est. ok (est * gasLimitBufferNumerator div gasLimitBufferDenominator))
      else ok (in_GasLimit inp))"

definition draw_nonce :: "ref \<Rightarrow> ('w, 'z, uint64) pool_op" where
  "draw_nonce r = do {
     p \<leftarrow> reads pools;
     writes (\<lambda>s. s\<lparr>pools := useNonce r (pools s)\<rparr>);
     ret (fst (UseNonce (heap p ! r))) }"

definition give_back_nonce :: "ref \<Rightarrow> ('w, 'z, unit) pool_op" where
  "give_back_nonce r = writes (\<lambda>s. s\<lparr>pools := rewindNonce r (pools s)\<rparr>)"

definition relay_tx :: "SubmitInput \<Rightarrow> uint64 \<Rightarrow> uint64 \<Rightarrow> int \<Rightarrow> Transaction" where
  "relay_tx inp nonce gasLimit gasPrice =
     NewTransaction nonce (in_To inp) (Some (amount inp)) gasLimit gasPrice (data_bytes inp)"

definition SignTx :: "'w env \<Rightarrow> Transaction \<Rightarrow> PrivateKey \<Rightarrow> SignedTx res" where
  "SignTx E tx key = map_sum id (\<lambda>sig. \<lparr>payload_tx = tx, tx_signature = sig\<rparr>) (signTx E (chainID E) tx key)"

text \<open>From the drawn nonce to the broadcast, with the nonce given back on every error before it.\<close>

definition broadcast ::
  "('w, 'z) Service \<Rightarrow> SubmitInput \<Rightarrow> string \<Rightarrow> ref \<Rightarrow> Signer \<Rightarrow> uint64 \<Rightarrow> int \<Rightarrow> ('w, 'z, SubmitResult res) pool_op" where
  "broadcast svc inp requestID r sig gasLimit gasPrice = (let E = svc_env svc in do {
     nonce \<leftarrow> draw_nonce r;
     attempt (ret (SignTx E (relay_tx inp nonce gasLimit gasPrice) (sg_Key sig)))
       (\<lambda>e. do { give_back_nonce r; fail_wrap ''sign'' e }) (\<lambda>signed.
     attempt (insertAttempt E requestID (sg_Address sig) nonce (txHash E signed) gasPrice)
       (\<lambda>e. do { give_back_nonce r; fail_wrap ''insert attempt'' e }) (\<lambda>attemptID.
     attempt (SendTransaction E signed)
       (\<lambda>e. do { give_back_nonce r; markAttemptStatus E attemptID AttFailed; fail_wrap ''submit'' e }) (\<lambda>_.
     attempt (markSubmitted E requestID attemptID) (fail_wrap ''mark submitted'') (\<lambda>_. do {
     fireWebhook svc requestID;
     ok \<lparr>sr_RequestID = requestID, sr_TxHash = txHash E signed, sr_Signer = sg_Address sig\<rparr> })))) })"

text \<open>The part of \<open>Submit\<close> that runs while the signer is checked out.\<close>

definition submit_held ::
  "('w, 'z) Service \<Rightarrow> SubmitInput \<Rightarrow> string \<Rightarrow> ref \<Rightarrow> ('w, 'z, SubmitResult res) pool_op" where
  "submit_held svc inp requestID r = (let E = svc_env svc in do {
     p \<leftarrow> reads pools;
     (let sig = heap p ! r in
      attempt (gas_limit E inp (sg_Address sig)) (reject svc requestID ''estimate gas'') (\<lambda>gasLimit.
      attempt (SuggestGasPrice E) (reject svc requestID ''suggest gas price'') (\<lambda>gasPrice.
      broadcast svc inp requestID r sig gasLimit gasPrice))) })"

definition Submit :: "('w, 'z) Service \<Rightarrow> SubmitInput \<Rightarrow> ('w, 'z, SubmitResult res) pool_op" where
  "Submit svc inp = (let E = svc_env svc in
     if in_ChainID inp \<noteq> word_of_int (chainID E) then fail ErrChainIDMismatch
     else do {
       late \<leftarrow> (if 0 < in_Deadline inp
               then do { t \<leftarrow> ext (timeNow E); ret (in_Deadline inp < t div 10 ^ 9) } else ret False);
       (if late then fail ErrPastDeadline
        else attempt (insertRequest E inp) (fail_wrap ''insert request'') (\<lambda>requestID.
             attempt (svc_load svc (in_AppID inp)) (load_failed svc requestID) (\<lambda>_.
             attempt (Pool_Checkout E (in_AppID inp)) (reject svc requestID ''checkout'') (\<lambda>r. do {
               out \<leftarrow> submit_held svc inp requestID r;
               Pool_Release r;
               ret out })))) })"

lemma markSubmitted_ok:
  assumes "no_faults E"
  shows "\<exists>now w. run_state (markSubmitted E i aid) s =
    (Inr (), s\<lparr>world := w, db := update_request_status ReqSubmitted now i (update_attempt_status AttSubmitted aid (db s))\<rparr>)"
proof -
  let ?f = "\<lambda>d. Inr (update_attempt_status AttSubmitted aid d) :: database res"
  obtain now w where b: "run_state (tx_begin E) s = (Inr (now, db s), s\<lparr>world := w\<rparr>)" using tx_begin_ok [OF assms] by blast
  let ?g = "\<lambda>d. Inr (update_request_status ReqSubmitted now i d) :: database res"
  have "\<exists>w'. run_state (tx_two E ?f ?g (db s)) (s\<lparr>world := w\<rparr>) = (Inr (), (s\<lparr>world := w\<rparr>)\<lparr>world := w',
      db := update_request_status ReqSubmitted now i (update_attempt_status AttSubmitted aid (db s))\<rparr>)"
    by (rule tx_two_ok [OF assms]) simp_all
  with b show ?thesis by (auto simp: markSubmitted_def)
qed

section \<open>The interfaces of the service\<close>

text \<open>
  What the rest of the state may notice of a webhook: at most one more delivery, of this
  request, and the database still well formed.
\<close>

definition notified :: "string \<Rightarrow> database \<Rightarrow> database \<Rightarrow> bool" where
  "notified i d d' \<longleftrightarrow>
     (\<exists>vs. d' = d\<lparr>webhook_deliveries := webhook_deliveries d @ vs\<rparr> \<and> length vs \<le> 1 \<and>
        (\<forall>v \<in> set vs. d_request_id v = i)) \<and>
     (db_wf d \<longrightarrow> db_wf d') \<and> (deliveries_ok d \<longrightarrow> deliveries_ok d')"

locale webhook_enqueuer =
  fixes enqueue :: "string \<Rightarrow> ('w, 'z, unit res) pool_op"
  assumes enqueue_effect:
    "run_state (enqueue i) s = (r, s') \<Longrightarrow> \<exists>w d'. s' = s\<lparr>world := w, db := d'\<rparr> \<and> notified i (db s) d'"
begin

lemma enqueue_frame:
  "run_state (enqueue i) s = (r, s') \<Longrightarrow>
     pools s' = pools s \<and> relay_requests (db s') = relay_requests (db s) \<and> tx_attempts (db s') = tx_attempts (db s)"
  by (auto dest!: enqueue_effect simp: notified_def)

end

definition loaded :: "string \<Rightarrow> Pool \<Rightarrow> Pool \<Rightarrow> bool" where
  "loaded a p p' \<longleftrightarrow> p' = p \<or> (\<exists>ss. ss \<noteq> [] \<and> (\<forall>x \<in> set ss. sg_AppID x = a) \<and> p' = install a ss p)"

lemma loaded_inv: "loaded a p p' \<Longrightarrow> pool_inv held p \<Longrightarrow> pool_inv held p'"
  by (auto simp: loaded_def intro: pool_inv_install)

text \<open>
  Reading an app's signers changes neither the database nor the pools, and what it yields is for
  that app; installing it then adds at most a pool for that app.
\<close>

locale pool_loader =
  fixes fetch :: "string \<Rightarrow> ('w, 'z, Signer list option res) pool_op"
  assumes fetch_db: "leaves db (fetch a)"
    and fetch_pools: "leaves pools (fetch a)"
    and fetch_signers: "run_state (fetch a) s = (Inr (Some ss), s') \<Longrightarrow> ss \<noteq> [] \<and> (\<forall>x \<in> set ss. sg_AppID x = a)"
begin

lemma load_db: "leaves db (load_with fetch a)"
  unfolding load_with_def Load_install_def
  by (intro leaves_rules fetch_db) (auto intro!: leaves_rules leaves_writes split: option.split)

lemma load_pool:
  assumes "run_state (load_with fetch a) s = (r, s')"
  shows "loaded a (pools s) (pools s')"
proof -
  obtain x s1 where f: "run_state (fetch a) s = (x, s1)" by fastforce
  have "pools s1 = pools s" using leavesD [OF fetch_pools f] .
  with f assms fetch_signers [of a s _ s1] show ?thesis
    by (cases x) (auto simp: load_with_def Load_install_def loaded_def split: option.splits)
qed

end

lemma notified_refl [simp]: "notified i d d"
  unfolding notified_def by (intro conjI exI [of _ "[]"]) simp_all

lemma notified_frame:
  "notified i d d' \<Longrightarrow> relay_requests d' = relay_requests d \<and> tx_attempts d' = tx_attempts d \<and> apps d' = apps d \<and>
     signers d' = signers d \<and> gas_attempts d' = gas_attempts d"
  by (auto simp: notified_def)

lemma notified_wf: "notified i d d' \<Longrightarrow> db_wf d \<Longrightarrow> db_wf d'"
  by (simp add: notified_def)

lemma notified_insert:
  assumes "insert_delivery_row v d = Inr d'" and "delivery_ok v" and "d_request_id v = i"
  shows "notified i d d'"
proof -
  have "d' = d\<lparr>webhook_deliveries := webhook_deliveries d @ [v]\<rparr>" using assms(1) by (simp add: insert_delivery_row_Inr)
  with assms db_wf_insert_delivery show ?thesis
    unfolding notified_def by (intro conjI exI [of _ "[v]"]) (auto simp: deliveries_ok_def)
qed

interpretation enq: webhook_enqueuer "Enqueue E"
proof
  fix i s r s' assume "run_state (Enqueue E i) s = (r, s')"
  then show "\<exists>w d'. s' = s\<lparr>world := w, db := d'\<rparr> \<and> notified i (db s) d'"
  proof (cases rule: Enqueue_effect)
    case (kept w)
    then show ?thesis by (intro exI [of _ w] exI [of _ "db s"]) simp
  next
    case (queued w v)
    then show ?thesis using notified_insert by blast
  qed
qed

section \<open>What each step does to the state\<close>

definition marked :: "request_status \<Rightarrow> string \<Rightarrow> database \<Rightarrow> database \<Rightarrow> bool" where
  "marked st i d d' \<longleftrightarrow> d' = d \<or> (\<exists>now. notified i (update_request_status st now i d) d')"

locale relay_service =
  fixes svc :: "('w, 'z) Service"
  assumes svc_enq: "svc_webhooks svc = Some f \<Longrightarrow> webhook_enqueuer f"
    and svc_loader: "pool_loader (svc_fetch svc)"
begin

lemma fireWebhook_run: "\<exists>w d'. run_state (fireWebhook svc i) s = ((), s\<lparr>world := w, db := d'\<rparr>) \<and> notified i (db s) d'"
proof (cases "svc_webhooks svc")
  case None
  then show ?thesis by (intro exI [of _ "world s"] exI [of _ "db s"]) (simp add: fireWebhook_def)
next
  case (Some f)
  obtain r s' where run: "run_state (f i) s = (r, s')" by fastforce
  from webhook_enqueuer.enqueue_effect [OF svc_enq [OF Some] run] Some run show ?thesis
    by (cases r) (auto simp: fireWebhook_def)
qed

lemma markRequestStatus_run:
  "\<exists>r w d'. run_state (markRequestStatus svc i st) s = (r, s\<lparr>world := w, db := d'\<rparr>) \<and> marked st i (db s) d'"
proof -
  let ?q = "\<lambda>now d. Inr (update_request_status st now i d)"
  show ?thesis
  proof (cases rule: run_db_exec [of "svc_env svc" ?q s])
    case (failed e w)
    then show ?thesis
      by (intro exI [of _ "Inl e"] exI [of _ w] exI [of _ "db s"]) (simp add: markRequestStatus_def marked_def)
  next
    case (applied now d' w)
    let ?d = "update_request_status st now i (db s)" and ?s = "s\<lparr>world := w, db := d'\<rparr>"
    obtain w2 d2 where f: "run_state (fireWebhook svc i) ?s = ((), ?s\<lparr>world := w2, db := d2\<rparr>)" "notified i ?d d2"
      using fireWebhook_run [of i ?s] applied(1) by auto
    show ?thesis
    proof (cases "st = ReqRejected \<or> st = ReqFailed")
      case True
      with f applied show ?thesis
        by (intro exI [of _ "Inr ()"] exI [of _ w2] exI [of _ d2]) (auto simp: markRequestStatus_def marked_def)
    next
      case False
      with applied show ?thesis
        by (intro exI [of _ "Inr ()"] exI [of _ w] exI [of _ ?d])
          (auto simp: markRequestStatus_def marked_def intro!: exI [of _ now])
    qed
  qed
qed

lemma reject_run:
  "\<exists>w d'. run_state (reject svc i m e) s = (Inl (Wrap m e), s\<lparr>world := w, db := d'\<rparr>) \<and> marked ReqRejected i (db s) d'"
proof -
  obtain r w d' where "run_state (markRequestStatus svc i ReqRejected) s = (r, s\<lparr>world := w, db := d'\<rparr>)"
    "marked ReqRejected i (db s) d'" using markRequestStatus_run [of i ReqRejected s] by blast
  then show ?thesis by (auto simp: reject_def)
qed

lemma broadcast_run [consumes 1]:
  fixes inp gasLimit gasPrice
  assumes r: "r < length (heap (pools s))"
  defines "E \<equiv> svc_env svc" and "sig \<equiv> heap (pools s) ! r"
  defines "tx \<equiv> relay_tx inp (sg_nonce sig) gasLimit gasPrice"
  obtains (unrecorded) e w where "run_state (broadcast svc inp i r sig gasLimit gasPrice) s = (Inl e, s\<lparr>world := w\<rparr>)"
      "\<exists>m e'. e = Wrap m e' \<and> m \<in> {''sign'', ''insert attempt''}"
  | (unsent) stx aid now d1 d2 e w where "SignTx E tx (sg_Key sig) = Inr stx"
      "attempt_insert E i (sg_Address sig) (sg_nonce sig) (txHash E stx) gasPrice aid now (db s) = Inr d1"
      "d2 = d1 \<or> d2 = update_attempt_status AttFailed aid d1"
      "run_state (broadcast svc inp i r sig gasLimit gasPrice) s = (Inl (Wrap ''submit'' e), s\<lparr>world := w, db := d2\<rparr>)"
  | (unmarked) stx aid now d1 e w where "SignTx E tx (sg_Key sig) = Inr stx"
      "attempt_insert E i (sg_Address sig) (sg_nonce sig) (txHash E stx) gasPrice aid now (db s) = Inr d1"
      "run_state (broadcast svc inp i r sig gasLimit gasPrice) s =
         (Inl (Wrap ''mark submitted'' e), s\<lparr>world := w, db := d1, pools := useNonce r (pools s)\<rparr>)"
  | (sent) stx aid now d1 t d2 w where "SignTx E tx (sg_Key sig) = Inr stx"
      "attempt_insert E i (sg_Address sig) (sg_nonce sig) (txHash E stx) gasPrice aid now (db s) = Inr d1"
      "notified i (update_request_status ReqSubmitted t i (update_attempt_status AttSubmitted aid d1)) d2"
      "run_state (broadcast svc inp i r sig gasLimit gasPrice) s =
         (Inr \<lparr>sr_RequestID = i, sr_TxHash = txHash E stx, sr_Signer = sg_Address sig\<rparr>,
          s\<lparr>world := w, db := d2, pools := useNonce r (pools s)\<rparr>)"
proof -
  let ?p1 = "useNonce r (pools s)" and ?n = "sg_nonce sig"
  let ?s1 = "s\<lparr>pools := ?p1\<rparr>"
  let ?B = "broadcast svc inp i r sig gasLimit gasPrice"
  have draw: "run_state (draw_nonce r) s = (?n, ?s1)"
    by (simp add: draw_nonce_def UseNonce_def Let_def sig_def)
  have undone: "rewindNonce r ?p1 = pools s" using r by (rule rewind_useNonce)
  show ?thesis
  proof (cases "SignTx E tx (sg_Key sig)")
    case (Inl e)
    then have "run_state ?B s = (Inl (Wrap ''sign'' e), s\<lparr>world := world s\<rparr>)"
      using draw undone by (simp add: broadcast_def Let_def insertAttempt_def give_back_nonce_def E_def tx_def)
    then show ?thesis by (rule unrecorded) simp
  next
    case (Inr stx)
    let ?ins = "attempt_insert E i (sg_Address sig) ?n (txHash E stx) gasPrice"
    show ?thesis
    proof (cases rule: run_db_insert [of E ?ins ?s1])
      case (failed e w)
      with Inr draw undone have "run_state ?B s = (Inl (Wrap ''insert attempt'' e), s\<lparr>world := w\<rparr>)"
        by (simp add: broadcast_def Let_def insertAttempt_def give_back_nonce_def E_def tx_def)
      then show ?thesis by (rule unrecorded) simp
    next
      case (applied aid now d1 w1)
      let ?s2 = "?s1\<lparr>world := w1, db := d1\<rparr>"
      obtain x w2 where send: "sendTransaction E stx w1 = (x, w2)" by fastforce
      let ?s3 = "?s1\<lparr>world := w2, db := d1\<rparr>"
      have d1: "?ins aid now (db s) = Inr d1" using applied(1) by simp
      show ?thesis
      proof (cases x)
        case fail: (Inl e)
        let ?s4 = "s\<lparr>world := w2, db := d1\<rparr>"
        let ?q = "\<lambda>now d. Inr (update_attempt_status AttFailed aid d)"
        have run: "run_state ?B s =
            (Inl (Wrap ''submit'' e), snd (run_state (db_exec E ?q) ?s4))"
          using Inr draw undone applied send fail
          by (simp add: broadcast_def Let_def insertAttempt_def give_back_nonce_def E_def tx_def run_ext markAttemptStatus_def case_prod_beta)
        show ?thesis
        proof (cases rule: run_db_exec [of E ?q ?s4])
          case (failed e' w)
          with run show ?thesis by (intro unsent [OF Inr d1, of d1]) simp_all
        next
          case (applied t d2 w)
          with run show ?thesis by (intro unsent [OF Inr d1, of d2]) auto
        qed
      next
        case accepted: (Inr u)
        have run: "run_state ?B s = run_state (attempt (markSubmitted E i aid) (fail_wrap ''mark submitted'') (\<lambda>_. do {
            fireWebhook svc i;
            ok \<lparr>sr_RequestID = i, sr_TxHash = txHash E stx, sr_Signer = sg_Address sig\<rparr> })) ?s3"
          using Inr draw undone applied send accepted by (simp add: broadcast_def Let_def insertAttempt_def E_def tx_def run_ext)
        show ?thesis
        proof (cases rule: run_tx_begin [of E ?s3])
          case (failed e w)
          with run Inr d1 show ?thesis by (intro unmarked) (auto simp: markSubmitted_def)
        next
          case (begun t w3)
          let ?f = "\<lambda>d. Inr (update_attempt_status AttSubmitted aid d)"
          let ?g = "\<lambda>d. Inr (update_request_status ReqSubmitted t i d)"
          let ?s5 = "?s3\<lparr>world := w3\<rparr>"
          show ?thesis
          proof (cases rule: run_tx_two [of E ?f ?g d1 ?s5])
            case (failed e w)
            with run begun Inr d1 show ?thesis by (intro unmarked) (auto simp: markSubmitted_def)
          next
            case (committed a b w4)
            let ?d = "update_request_status ReqSubmitted t i (update_attempt_status AttSubmitted aid d1)"
            let ?s6 = "?s1\<lparr>world := w4, db := ?d\<rparr>"
            obtain w d2 where f: "run_state (fireWebhook svc i) ?s6 = ((), ?s6\<lparr>world := w, db := d2\<rparr>)" "notified i ?d d2"
              using fireWebhook_run [of i ?s6] by auto
            show ?thesis
              by (rule sent [OF Inr d1 f(2)]) (use run begun committed f(1) in \<open>simp add: markSubmitted_def\<close>)
          qed
        qed
      qed
    qed
  qed
qed

lemma submit_held_run [consumes 1]:
  assumes "r < length (heap (pools s))"
  obtains (rejected) m e w d' where "m \<in> {''estimate gas'', ''suggest gas price''}" "marked ReqRejected i (db s) d'"
      "run_state (submit_held svc inp i r) s = (Inl (Wrap m e), s\<lparr>world := w, db := d'\<rparr>)"
  | (priced) gasLimit gasPrice w where "in_GasLimit inp \<noteq> 0 \<Longrightarrow> gasLimit = in_GasLimit inp"
      "run_state (submit_held svc inp i r) s =
         run_state (broadcast svc inp i r (heap (pools s) ! r) gasLimit gasPrice) (s\<lparr>world := w\<rparr>)"
proof -
  let ?E = "svc_env svc" and ?sig = "heap (pools s) ! r"
  let ?G = "gas_limit ?E inp (sg_Address ?sig)"
  have G: "\<exists>x w. run_state ?G s = (x, s\<lparr>world := w\<rparr>) \<and> (\<forall>g. in_GasLimit inp \<noteq> 0 \<longrightarrow> x = Inr g \<longrightarrow> g = in_GasLimit inp)"
    by (cases "in_GasLimit inp = 0";
        cases "fst (estimateGas ?E (call_msg inp (sg_Address ?sig)) (world s))")
       (auto simp: gas_limit_def run_ext intro: exI [of _ "world s"])
  then obtain x w where G: "run_state ?G s = (x, s\<lparr>world := w\<rparr>)"
    and g: "\<And>g. in_GasLimit inp \<noteq> 0 \<Longrightarrow> x = Inr g \<Longrightarrow> g = in_GasLimit inp" by blast
  show ?thesis
  proof (cases x)
    case (Inl e)
    with reject_run [of i "''estimate gas''" e "s\<lparr>world := w\<rparr>"] G show ?thesis
      by (auto simp: submit_held_def Let_def intro!: rejected [of "''estimate gas''"])
  next
    case (Inr gl)
    obtain y w2 where S: "suggestGasPrice ?E w = (y, w2)" by fastforce
    show ?thesis
    proof (cases y)
      case (Inl e)
      with reject_run [of i "''suggest gas price''" e "s\<lparr>world := w2\<rparr>"] G Inr S show ?thesis
        by (auto simp: submit_held_def Let_def run_ext intro!: rejected [of "''suggest gas price''"])
    next
      case gp: (Inr gp)
      with G Inr S g show ?thesis by (intro priced [of gl gp w2]) (auto simp: submit_held_def Let_def run_ext)
    qed
  qed
qed

lemma Submit_run:
  obtains (refused) e w where "run_state (Submit svc inp) s = (Inl e, s\<lparr>world := w\<rparr>)"
      "e \<in> {ErrChainIDMismatch, ErrPastDeadline} \<or> (\<exists>e'. e = Wrap ''insert request'' e')"
  | (rejected) i now d1 s1 e w d2 where "request_insert (svc_env svc) inp i now (db s) = Inr d1"
      "loaded (in_AppID inp) (pools s) (pools s1)" "is_panic e \<or> (\<exists>m e'. e = Wrap m e' \<and> m \<in> {''load signer pool'', ''checkout''})"
      "marked ReqRejected i d1 d2" "run_state (Submit svc inp) s = (Inl e, s1\<lparr>world := w, db := d2\<rparr>)"
  | (held) i now d1 s1 b r p1 out s2 where "request_insert (svc_env svc) inp i now (db s) = Inr d1"
      "loaded (in_AppID inp) (pools s) (pools s1)" "db s1 = d1" "checkout b (in_AppID inp) (pools s1) = (Inr r, p1)"
      "run_state (submit_held svc inp i r) (s1\<lparr>pools := p1\<rparr>) = (out, s2)"
      "run_state (Submit svc inp) s = (out, s2\<lparr>pools := release r (pools s2)\<rparr>)"
proof -
  let ?E = "svc_env svc" and ?a = "in_AppID inp"
  let ?R = "\<lambda>s. run_state (attempt (insertRequest ?E inp) (fail_wrap ''insert request'') (\<lambda>requestID.
             attempt (svc_load svc ?a) (load_failed svc requestID) (\<lambda>_.
             attempt (Pool_Checkout ?E ?a) (reject svc requestID ''checkout'') (\<lambda>r. do {
               out \<leftarrow> submit_held svc inp requestID r; Pool_Release r; ret out })))) s"
  have start: "(\<exists>e w. e \<in> {ErrChainIDMismatch, ErrPastDeadline} \<and> run_state (Submit svc inp) s = (Inl e, s\<lparr>world := w\<rparr>)) \<or>
      (\<exists>w. run_state (Submit svc inp) s = ?R (s\<lparr>world := w\<rparr>))"
    by (cases "in_Deadline inp > 0"; cases "in_Deadline inp < fst (timeNow ?E (world s)) div 10 ^ 9")
       (auto simp: Submit_def Let_def run_ext intro: exI [of _ "world s"])
  then consider (early) e w where "e \<in> {ErrChainIDMismatch, ErrPastDeadline}"
      "run_state (Submit svc inp) s = (Inl e, s\<lparr>world := w\<rparr>)"
    | (go) w where "run_state (Submit svc inp) s = ?R (s\<lparr>world := w\<rparr>)" by blast
  then show ?thesis
  proof cases
    case early
    then show ?thesis by (intro refused) auto
  next
    case (go w0)
    show ?thesis
    proof (cases rule: run_db_insert [of ?E "request_insert ?E inp" "s\<lparr>world := w0\<rparr>"])
      case (failed e w)
      with go show ?thesis by (intro refused) (auto simp: insertRequest_def)
    next
      case (applied i now d1 w)
      let ?s = "s\<lparr>world := w, db := d1\<rparr>"
      obtain x s1 where load: "run_state (svc_load svc ?a) ?s = (x, s1)" by fastforce
      have l: "loaded ?a (pools s) (pools s1)" "db s1 = d1"
        using pool_loader.load_pool [OF svc_loader load [unfolded svc_load_def]]
          leavesD [OF pool_loader.load_db [OF svc_loader] load [unfolded svc_load_def]] by simp_all
      obtain b w1 where co: "run_state (Pool_Checkout ?E ?a) s1 =
          (fst (checkout b ?a (pools s1)), s1\<lparr>world := w1, pools := snd (checkout b ?a (pools s1))\<rparr>)"
        using Pool_Checkout_run [of ?E ?a s1] by blast
      have ins: "request_insert ?E inp i now (db s) = Inr d1" using applied(1) by simp
      show ?thesis
      proof (cases x)
        case (Inl e)
        show ?thesis
        proof (cases "is_panic e")
          case True
          with Inl go applied load l(2) show ?thesis
            by (intro rejected [OF ins l(1), of e d1 "world s1"]) (simp_all add: insertRequest_def load_failed_def marked_def)
        next
          case False
          with reject_run [of i "''load signer pool''" e s1] Inl go applied load l(2) show ?thesis
            by (auto simp: insertRequest_def load_failed_def intro!: rejected [OF ins l(1), of "Wrap ''load signer pool'' e"])
        qed
      next
        case (Inr u)
        show ?thesis
        proof (cases "checkout b ?a (pools s1)")
          case (Pair y p1)
          show ?thesis
          proof (cases y)
            case fail: (Inl e)
            then have "p1 = pools s1" using sp.take_fail Pair by blast
            with reject_run [of i "''checkout''" e "s1\<lparr>world := w1\<rparr>"] go applied load l(2) co Inr Pair fail show ?thesis
              by (auto simp: insertRequest_def intro!: rejected [OF ins l(1), of "Wrap ''checkout'' e"])
          next
            case ok: (Inr r)
            let ?s1 = "s1\<lparr>world := w1\<rparr>"
            obtain out s2 where h: "run_state (submit_held svc inp i r) (?s1\<lparr>pools := p1\<rparr>) = (out, s2)" by fastforce
            show ?thesis
              by (rule held [OF ins, of ?s1 b r p1 out s2])
                 (use go applied load l co Inr Pair ok h in \<open>auto simp: insertRequest_def Pool_Release_def\<close>)
          qed
        qed
      qed
    qed
  qed
qed

end

section \<open>The statements keep the database well formed\<close>

lemma request_insert_Inr:
  assumes "request_insert E inp i now d = Inr d'"
  obtains dat v where "in_Data inp = Some dat" "pgNumeric E (big_String (amount inp)) = Some v"
    "insert_relay_row (new_request E i now inp dat v) d = Inr d'"
    "d' = d\<lparr>relay_requests := relay_requests d @ [new_request E i now inp dat v]\<rparr>"
  using assms
  by (auto simp: request_insert_def text_param_def insert_relay_row_Inr split: if_splits option.splits)

lemma attempt_insert_Inr:
  assumes "attempt_insert E q a n h g i now d = Inr d'"
  obtains p where "pgNumeric E (big_String g) = Some p" "insert_attempt_row (new_attempt E i now q a n h p) d = Inr d'"
    "d' = d\<lparr>tx_attempts := tx_attempts d @ [new_attempt E i now q a n h p]\<rparr>"
  using assms by (auto simp: attempt_insert_def insert_attempt_row_Inr split: option.splits)

definition data_ok :: "database \<Rightarrow> bool" where
  "data_ok d \<longleftrightarrow> db_wf d \<and> deliveries_ok d"

lemma data_ok_notified: "notified i d d' \<Longrightarrow> data_ok d \<Longrightarrow> data_ok d'"
  by (simp add: notified_def data_ok_def)

lemma data_ok_status [simp]:
  "data_ok d \<Longrightarrow> data_ok (update_request_status st now i d)"
  "data_ok d \<Longrightarrow> data_ok (update_attempt_status ast i d)"
  by (simp_all add: data_ok_def deliveries_ok_def)

lemma data_ok_marked: "marked st i d d' \<Longrightarrow> data_ok d \<Longrightarrow> data_ok d'"
  by (auto simp: marked_def intro: data_ok_notified)

lemma data_ok_request_insert: "request_insert E inp i now d = Inr d' \<Longrightarrow> data_ok d \<Longrightarrow> data_ok d'"
  by (auto elim!: request_insert_Inr simp: data_ok_def deliveries_ok_def dest: db_wf_insert_relay)

lemma data_ok_attempt_insert: "attempt_insert E q a n h g i now d = Inr d' \<Longrightarrow> data_ok d \<Longrightarrow> data_ok d'"
  by (auto elim!: attempt_insert_Inr simp: data_ok_def deliveries_ok_def dest: db_wf_insert_attempt)

lemmas data_ok_rules = data_ok_notified data_ok_marked data_ok_request_insert data_ok_attempt_insert

text \<open>A checked-out signer is a live object of its app.\<close>

lemma checkout_live:
  assumes "pool_inv held p" and "checkout b a p = (Inr r, p')"
  shows "r < length (heap p) \<and> heap p' = heap p \<and> sg_AppID (heap p ! r) = a \<and> r \<notin># held"
proof (cases rule: checkout_cases [of b a p])
  case (takes ap q rs)
  have r: "q = r" and h: "heap p' = heap p" using takes(3) assms(2) by auto
  have "r \<in> set (ap_signers ap)"
    using pool_inv_appD [OF assms(1) takes(1)] takes(2) r
    by (metis app_inv_def list.set_intros(1) set_mset_mset union_iff)
  with pool_inv_appD [OF assms(1) takes(1)] sp.take_fresh [OF assms] h show ?thesis by (simp add: app_inv_def)
qed (use assms in simp)

lemma heap_release [simp]: "heap (release r p) = heap p"
  by (simp add: release_def split: option.splits)

context relay_service
begin

lemma submit_held_keeps:
  assumes "r < length (heap (pools s))" and "run_state (submit_held svc inp i r) s = (out, s')"
  shows "(data_ok (db s) \<longrightarrow> data_ok (db s')) \<and> (pool_inv held (pools s) \<longrightarrow> pool_inv held (pools s'))"
  using assms(1)
proof (cases rule: submit_held_run [where i = i and inp = inp])
  case (rejected m e w d')
  then show ?thesis using assms(2) by (auto intro: data_ok_marked)
next
  case (priced gl gp w)
  let ?s = "s\<lparr>world := w\<rparr>"
  have r: "r < length (heap (pools ?s))" using assms(1) by simp
  have run: "run_state (broadcast svc inp i r (heap (pools ?s) ! r) gl gp) ?s = (out, s')"
    using priced(2) assms(2) by simp
  from r show ?thesis
  proof (cases rule: broadcast_run [where i = i and inp = inp and gasLimit = gl and gasPrice = gp])
    case (unrecorded e w)
    then show ?thesis using run by auto
  next
    case (unsent stx aid now d1 d2 e w)
    then have "data_ok (db s) \<Longrightarrow> data_ok d2" using data_ok_attempt_insert [OF unsent(2)] by auto
    then show ?thesis using unsent(4) run by auto
  next
    case (unmarked stx aid now d1 e w)
    then show ?thesis using run data_ok_attempt_insert [OF unmarked(2)] by (auto intro: pool_inv_useNonce)
  next
    case (sent stx aid now d1 t d2 w)
    then have "data_ok (db s) \<Longrightarrow> data_ok d2"
      using data_ok_attempt_insert [OF sent(2)] data_ok_notified [OF sent(3)] by simp
    then show ?thesis using sent(4) run by (auto intro: pool_inv_useNonce)
  qed
qed

lemma Submit_keeps:
  assumes "pool_inv held (pools s)" and "data_ok (db s)" and "run_state (Submit svc inp) s = (out, s')"
  shows "pool_inv held (pools s') \<and> data_ok (db s')"
proof (cases rule: Submit_run [of inp s])
  case (refused e w)
  then show ?thesis using assms by simp
next
  case (rejected i now d1 s1 e w d2)
  then show ?thesis using assms loaded_inv [OF rejected(2)] data_ok_marked [OF rejected(4)]
      data_ok_request_insert [OF rejected(1)] by auto
next
  case (held i now d1 s1 b r p1 out' s2)
  have inv: "pool_inv held (pools s1)" using loaded_inv held(2) assms(1) by blast
  have r: "r < length (heap (pools (s1\<lparr>pools := p1\<rparr>)))" using checkout_live [OF inv held(4)] by simp
  have "pool_inv (add_mset r held) (pools s2)" "data_ok (db s2)"
    using submit_held_keeps [OF r held(5), of "add_mset r held"] sp.take_inv [OF inv held(4)]
      data_ok_request_insert [OF held(1) assms(2)] held(3) by simp_all
  with held(6) assms(3) sp.give_inv show ?thesis by auto
qed

text \<open>A failed \<open>Submit\<close> leaves every nonce as it was, unless only marking it submitted failed.\<close>

lemma Submit_failed_nonces:
  assumes inv: "pool_inv held (pools s)" and run: "run_state (Submit svc inp) s = (Inl e, s')"
    and e: "\<nexists>e'. e = Wrap ''mark submitted'' e'"
  shows "\<exists>p. loaded (in_AppID inp) (pools s) p \<and> heap (pools s') = heap p"
proof (cases rule: Submit_run [of inp s])
  case (refused e w)
  then show ?thesis using run by (intro exI [of _ "pools s"]) (auto simp: loaded_def)
next
  case (rejected i now d1 s1 e w d2)
  then show ?thesis using run by auto
next
  case (held i now d1 s1 b r p1 out s2)
  have inv1: "pool_inv held (pools s1)" using loaded_inv held(2) inv by blast
  let ?s = "s1\<lparr>pools := p1\<rparr>"
  have r: "r < length (heap (pools ?s))" and h: "heap p1 = heap (pools s1)"
    using checkout_live [OF inv1 held(4)] by simp_all
  have out: "out = Inl e" and s': "s' = s2\<lparr>pools := release r (pools s2)\<rparr>" using held(6) run by auto
  have "heap (pools s2) = heap p1"
    using r
  proof (cases rule: submit_held_run [where i = i and inp = inp])
    case (rejected m e w d')
    then show ?thesis using held(5) by auto
  next
    case (priced gl gp w)
    have r': "r < length (heap (pools (?s\<lparr>world := w\<rparr>)))" using r by simp
    have run': "run_state (broadcast svc inp i r (heap (pools (?s\<lparr>world := w\<rparr>)) ! r) gl gp) (?s\<lparr>world := w\<rparr>) = (Inl e, s2)"
      using priced(2) held(5) out by simp
    from r' show ?thesis
      by (cases rule: broadcast_run [where i = i and inp = inp and gasLimit = gl and gasPrice = gp])
         (use run' e in auto)
  qed
  with s' h held(2) show ?thesis by auto
qed

text \<open>What a successful \<open>Submit\<close> leaves behind.\<close>

lemma Submit_success:
  assumes inv: "pool_inv held (pools s)" and run: "run_state (Submit svc inp) s = (Inr res, s')"
  obtains p r tx sig now dat v aid t0 pr t1 q0 where
    "loaded (in_AppID inp) (pools s) p" "r < length (heap p)" "sg_AppID (heap p ! r) = in_AppID inp" "r \<notin># held"
    "heap (pools s') = (heap p)[r := (heap p ! r)\<lparr>sg_nonce := sg_nonce (heap p ! r) + 1\<rparr>]"
    "tx_nonce tx = sg_nonce (heap p ! r)" "tx_to tx = in_To inp" "tx_value tx = amount inp" "tx_data tx = dat"
    "signTx (svc_env svc) (chainID (svc_env svc)) tx (sg_Key (heap p ! r)) = Inr sig"
    "res = \<lparr>sr_RequestID = q0, sr_TxHash = txHash (svc_env svc) \<lparr>payload_tx = tx, tx_signature = sig\<rparr>,
            sr_Signer = sg_Address (heap p ! r)\<rparr>"
    "in_Data inp = Some dat"
    "relay_requests (db s') = relay_requests (db s) @
       [set_request_status ReqSubmitted t1 (new_request (svc_env svc) q0 now inp dat v)]"
    "tx_attempts (db s') = tx_attempts (db s) @
       [set_attempt_status AttSubmitted (new_attempt (svc_env svc) aid t0 q0 (sr_Signer res) (tx_nonce tx) (sr_TxHash res) pr)]"
    "q0 \<notin> r_id ` set (relay_requests (db s))" "aid \<notin> t_id ` set (tx_attempts (db s))"
proof (cases rule: Submit_run [of inp s])
  case (held i now d1 s1 b r p1 out s2)
  let ?E = "svc_env svc" and ?s = "s1\<lparr>pools := p1\<rparr>"
  have inv1: "pool_inv held (pools s1)" using loaded_inv held(2) inv by blast
  have r: "r < length (heap (pools ?s))" and h: "heap p1 = heap (pools s1)"
    and a: "sg_AppID (heap (pools s1) ! r) = in_AppID inp" and f: "r \<notin># held"
    using checkout_live [OF inv1 held(4)] by simp_all
  from request_insert_Inr [OF held(1)] obtain dat v where ins: "in_Data inp = Some dat"
    "insert_relay_row (new_request ?E i now inp dat v) (db s) = Inr d1"
    "d1 = (db s)\<lparr>relay_requests := relay_requests (db s) @ [new_request ?E i now inp dat v]\<rparr>" by metis
  have fresh: "i \<notin> r_id ` set (relay_requests (db s))"
    using ins(2) by (simp add: insert_relay_row_Inr new_request_def)
  have out: "out = Inr res" and s': "s' = s2\<lparr>pools := release r (pools s2)\<rparr>" using held(6) run by auto
  show ?thesis
    using r
  proof (cases rule: submit_held_run [where i = i and inp = inp])
    case (priced gl gp w)
    have r': "r < length (heap (pools (?s\<lparr>world := w\<rparr>)))" using r by simp
    from r' show ?thesis
    proof (cases rule: broadcast_run [where i = i and inp = inp and gasLimit = gl and gasPrice = gp])
      case (sent stx aid t0 d2 t1 d3 w')
      let ?sg = "heap (pools s1) ! r"
      let ?tx = "relay_tx inp (sg_nonce ?sg) gl gp"
      have s2: "s2 = ?s\<lparr>world := w', db := d3, pools := useNonce r p1\<rparr>"
        and res: "res = \<lparr>sr_RequestID = i, sr_TxHash = txHash ?E stx, sr_Signer = sg_Address ?sg\<rparr>"
        using sent(4) priced(2) held(5) out h by auto
      obtain sig where sig: "signTx ?E (chainID ?E) ?tx (sg_Key ?sg) = Inr sig"
        and stx: "stx = \<lparr>payload_tx = ?tx, tx_signature = sig\<rparr>"
        using sent(1) h by (auto simp: SignTx_def map_sum_def split: sum.splits)
      have "attempt_insert ?E i (sg_Address ?sg) (sg_nonce ?sg) (txHash ?E stx) gp aid t0 d1 = Inr d2"
        using sent(2) held(3) h by simp
      from attempt_insert_Inr [OF this] obtain pr where
        att: "insert_attempt_row (new_attempt ?E aid t0 i (sg_Address ?sg) (sg_nonce ?sg) (txHash ?E stx) pr) d1 = Inr d2"
        and d2: "d2 = d1\<lparr>tx_attempts := tx_attempts d1 @ [new_attempt ?E aid t0 i (sg_Address ?sg) (sg_nonce ?sg) (txHash ?E stx) pr]\<rparr>"
        by metis
      have fresh2: "aid \<notin> t_id ` set (tx_attempts (db s))"
        using att ins(3) by (simp add: insert_attempt_row_Inr new_attempt_def)
      have rr: "relay_requests (db s') = relay_requests (db s) @ [set_request_status ReqSubmitted t1 (new_request ?E i now inp dat v)]"
        using notified_frame [OF sent(3)] s2 s' d2 ins(3)
        by (simp add: update_request_status_def update_rows_absent fresh update_rows_single new_request_def)
      have tt: "tx_attempts (db s') = tx_attempts (db s) @
         [set_attempt_status AttSubmitted (new_attempt ?E aid t0 i (sg_Address ?sg) (sg_nonce ?sg) (txHash ?E stx) pr)]"
        using notified_frame [OF sent(3)] s2 s' d2 ins(3)
        by (simp add: update_attempt_status_def update_rows_absent fresh2 update_rows_single new_attempt_def)
      have hh: "heap (pools s') = (heap (pools s1))[r := ?sg\<lparr>sg_nonce := sg_nonce ?sg + 1\<rparr>]"
        using s2 s' h by (simp add: useNonce_def UseNonce_def Let_def)
      show ?thesis
        by (rule that [OF held(2) _ a f hh _ _ _ _ sig _ ins(1) rr _ fresh fresh2])
           (use r h res stx tt ins(1) in \<open>simp_all add: relay_tx_def NewTransaction_def data_bytes_def\<close>)
    qed (use priced held(5) out in auto)
  qed (use held(5) out in auto)
qed (use run in auto)

lemma Submit_success_rows:
  assumes "pool_inv held (pools s)" and "run_state (Submit svc inp) s = (Inr res, s')"
  shows "\<exists>rq att. relay_requests (db s') = relay_requests (db s) @ [rq] \<and> r_id rq = sr_RequestID res \<and>
    r_app_id rq = in_AppID inp \<and> r_status rq = ReqSubmitted \<and> in_Data inp = Some (r_call_data rq) \<and>
    tx_attempts (db s') = tx_attempts (db s) @ [att] \<and> t_request_id att = r_id rq \<and> t_status att = AttSubmitted \<and>
    t_tx_hash att = lowerHash (svc_env svc) (sr_TxHash res)"
  by (rule Submit_success [OF assms])
     (auto simp: set_request_status_def set_attempt_status_def new_request_def new_attempt_def)

end

text \<open>A freshly inserted request, after its status was or was not set.\<close>

lemma marked_new_request:
  assumes "request_insert E inp i now d = Inr d1" and "marked st i d1 d2"
  shows "\<exists>rq. relay_requests d2 = relay_requests d @ [rq] \<and> tx_attempts d2 = tx_attempts d \<and> r_id rq = i \<and>
    r_app_id rq = in_AppID inp \<and>
    (r_status rq = st \<or> r_status rq = ReqPending \<and> webhook_deliveries d2 = webhook_deliveries d)"
proof -
  from request_insert_Inr [OF assms(1)] obtain dat v where
    ins: "insert_relay_row (new_request E i now inp dat v) d = Inr d1"
    and d1: "d1 = d\<lparr>relay_requests := relay_requests d @ [new_request E i now inp dat v]\<rparr>" by metis
  let ?rq = "new_request E i now inp dat v"
  have fresh: "i \<notin> r_id ` set (relay_requests d)" using ins by (simp add: insert_relay_row_Inr new_request_def)
  from assms(2) consider "d2 = d1" | t where "notified i (update_request_status st t i d1) d2"
    by (auto simp: marked_def)
  then show ?thesis
  proof cases
    case 1
    then show ?thesis using d1 by (intro exI [of _ ?rq]) (simp add: new_request_def)
  next
    case (2 t)
    have "relay_requests d2 = relay_requests d @ [set_request_status st t ?rq] \<and> tx_attempts d2 = tx_attempts d"
      using notified_frame [OF 2] d1
      by (simp add: update_request_status_def update_rows_absent fresh update_rows_single new_request_def)
    then show ?thesis
      by (intro exI [of _ "set_request_status st t ?rq"]) (simp add: set_request_status_def new_request_def)
  qed
qed

context relay_service
begin

lemma Submit_rejected:
  assumes inv: "pool_inv held (pools s)" and run: "run_state (Submit svc inp) s = (Inl (Wrap m e), s')"
    and m: "m \<in> {''load signer pool'', ''checkout'', ''estimate gas'', ''suggest gas price''}"
  shows "\<exists>rq. relay_requests (db s') = relay_requests (db s) @ [rq] \<and> tx_attempts (db s') = tx_attempts (db s) \<and>
    r_app_id rq = in_AppID inp \<and>
    (r_status rq = ReqRejected \<or> r_status rq = ReqPending \<and> webhook_deliveries (db s') = webhook_deliveries (db s))"
proof (cases rule: Submit_run [of inp s])
  case (rejected i now d1 s1 e' w d2)
  then show ?thesis using marked_new_request [OF rejected(1,4)] run by auto
next
  case (held i now d1 s1 b r p1 out s2)
  let ?s = "s1\<lparr>pools := p1\<rparr>"
  have inv1: "pool_inv held (pools s1)" using loaded_inv held(2) inv by blast
  have r: "r < length (heap (pools ?s))" using checkout_live [OF inv1 held(4)] by simp
  have out: "out = Inl (Wrap m e)" and s': "db s' = db s2" using held(6) run by auto
  from r show ?thesis
  proof (cases rule: submit_held_run [where i = i and inp = inp])
    case (rejected m' e' w d')
    then have "marked ReqRejected i d1 (db s2)" using held(3,5) by auto
    with marked_new_request [OF held(1)] s' show ?thesis by fastforce
  next
    case (priced gl gp w)
    have r': "r < length (heap (pools (?s\<lparr>world := w\<rparr>)))" using r by simp
    have run': "run_state (broadcast svc inp i r (heap (pools (?s\<lparr>world := w\<rparr>)) ! r) gl gp) (?s\<lparr>world := w\<rparr>) =
        (Inl (Wrap m e), s2)" using priced(2) held(5) out by simp
    from r' show ?thesis
      by (cases rule: broadcast_run [where i = i and inp = inp and gasLimit = gl and gasPrice = gp])
         (use run' m in auto)
  qed
qed (use run m in auto)

lemma Submit_not_sent:
  assumes inv: "pool_inv held (pools s)" and run: "run_state (Submit svc inp) s = (Inl (Wrap ''submit'' e), s')"
  shows "\<exists>rq att. relay_requests (db s') = relay_requests (db s) @ [rq] \<and> tx_attempts (db s') = tx_attempts (db s) @ [att] \<and>
    r_status rq = ReqPending \<and> t_request_id att = r_id rq \<and> t_status att \<in> {AttSubmitting, AttFailed} \<and>
    webhook_deliveries (db s') = webhook_deliveries (db s)"
proof (cases rule: Submit_run [of inp s])
  case (held i now d1 s1 b r p1 out s2)
  let ?s = "s1\<lparr>pools := p1\<rparr>"
  have inv1: "pool_inv held (pools s1)" using loaded_inv held(2) inv by blast
  have r: "r < length (heap (pools ?s))" using checkout_live [OF inv1 held(4)] by simp
  have out: "out = Inl (Wrap ''submit'' e)" and s': "db s' = db s2" using held(6) run by auto
  obtain dat v where d1: "d1 = (db s)\<lparr>relay_requests := relay_requests (db s) @ [new_request (svc_env svc) i now inp dat v]\<rparr>"
    using request_insert_Inr [OF held(1)] by metis
  from r show ?thesis
  proof (cases rule: submit_held_run [where i = i and inp = inp])
    case (rejected m' e' w d')
    then show ?thesis using held(5) out by auto
  next
    case (priced gl gp w)
    have r': "r < length (heap (pools (?s\<lparr>world := w\<rparr>)))" using r by simp
    have run': "run_state (broadcast svc inp i r (heap (pools (?s\<lparr>world := w\<rparr>)) ! r) gl gp) (?s\<lparr>world := w\<rparr>) =
        (Inl (Wrap ''submit'' e), s2)" using priced(2) held(5) out by simp
    from r' show ?thesis
    proof (cases rule: broadcast_run [where i = i and inp = inp and gasLimit = gl and gasPrice = gp])
      case (unsent stx aid t0 d2 d3 e w)
      let ?E = "svc_env svc" and ?sg = "heap p1 ! r"
      have "attempt_insert ?E i (sg_Address ?sg) (sg_nonce ?sg) (txHash ?E stx) gp aid t0 d1 = Inr d2"
        using unsent(2) held(3) by simp
      from attempt_insert_Inr [OF this] obtain pr where
        ins: "insert_attempt_row (new_attempt ?E aid t0 i (sg_Address ?sg) (sg_nonce ?sg) (txHash ?E stx) pr) d1 = Inr d2"
        and d2: "d2 = d1\<lparr>tx_attempts := tx_attempts d1 @ [new_attempt ?E aid t0 i (sg_Address ?sg) (sg_nonce ?sg) (txHash ?E stx) pr]\<rparr>"
        by metis
      let ?att = "new_attempt ?E aid t0 i (sg_Address ?sg) (sg_nonce ?sg) (txHash ?E stx) pr"
      have fresh: "aid \<notin> t_id ` set (tx_attempts (db s))"
        using ins d1 by (simp add: insert_attempt_row_Inr new_attempt_def)
      have "tx_attempts d3 = tx_attempts (db s) @ [?att] \<or>
          tx_attempts d3 = tx_attempts (db s) @ [set_attempt_status AttFailed ?att]"
        using unsent(3) d1 d2
        by (auto simp: update_attempt_status_def update_rows_absent fresh update_rows_single new_attempt_def)
      moreover have "relay_requests d3 = relay_requests (db s) @ [new_request ?E i now inp dat v]"
        "webhook_deliveries d3 = webhook_deliveries (db s)" using unsent(3) d1 d2 by auto
      moreover have "db s' = d3" using unsent(4) run' s' by auto
      ultimately show ?thesis by (auto simp: new_request_def new_attempt_def set_attempt_status_def)
    qed (use run' in auto)
  qed
qed (use run in auto)

end

section \<open>The service of the program\<close>

text \<open>\<open>cmd/txmill\<close> builds the service on the keystore, the chain client, the app service and the webhook service.\<close>

definition txmill_fetch :: "'w env \<Rightarrow> Keystore \<Rightarrow> string \<Rightarrow> ('w, 'z, Signer list option res) pool_op" where
  "txmill_fetch E K = Load_fetch (Keystore_Load E K) (\<lambda>a. PendingNonceAt E a) (ListSigners E) E"

definition txmill_load :: "'w env \<Rightarrow> Keystore \<Rightarrow> string \<Rightarrow> ('w, 'z, unit res) pool_op" where
  "txmill_load E K = Pool_Load (Keystore_Load E K) (\<lambda>a. PendingNonceAt E a) (ListSigners E) E"

definition txmill_service :: "'w env \<Rightarrow> Keystore \<Rightarrow> ('w, 'z) Service" where
  "txmill_service E K = SetWebhooks (Enqueue E) (NewService E (txmill_fetch E K))"

lemma txmill_service_sel [simp]:
  "svc_env (txmill_service E K) = E" "svc_fetch (txmill_service E K) = txmill_fetch E K"
  "svc_load (txmill_service E K) = txmill_load E K"
  "svc_webhooks (txmill_service E K) = Some (Enqueue E)"
  by (simp_all add: txmill_service_def SetWebhooks_def NewService_def svc_load_def txmill_load_def txmill_fetch_def Pool_Load_def)

lemma loader_leaves_pools [leaves_rules]:
  "leaves pools (Keystore_Load E K a)" "leaves pools (ListSigners E appID)" "leaves pools (db_query E q)"
  unfolding Keystore_Load_def os_ReadFile_def ListSigners_def db_query_def by (intro leaves_rules)+

lemma ListSigners_leaves_db [leaves_rules]: "leaves db (ListSigners E appID)"
  unfolding ListSigners_def by (intro leaves_rules)

interpretation loader: pool_loader "txmill_fetch E K"
proof
  show "leaves db (txmill_fetch E K a)" "leaves pools (txmill_fetch E K a)" for a
    unfolding txmill_fetch_def by (intro leaves_rules)+
qed (unfold txmill_fetch_def, rule Load_fetch_result)

interpretation txmill: relay_service "txmill_service E K"
  by (rule relay_service.intro) (auto simp: enq.webhook_enqueuer_axioms loader.pool_loader_axioms)

section \<open>Checks before the request is written\<close>

lemma Submit_wrong_chain:
  "in_ChainID inp \<noteq> word_of_int (chainID (svc_env svc)) \<Longrightarrow> run_state (Submit svc inp) s = (Inl ErrChainIDMismatch, s)"
  by (simp add: Submit_def)

lemma Submit_late:
  "in_ChainID inp = word_of_int (chainID (svc_env svc)) \<Longrightarrow> 0 < in_Deadline inp \<Longrightarrow>
   in_Deadline inp < fst (timeNow (svc_env svc) (world s)) div 10 ^ 9 \<Longrightarrow>
   run_state (Submit svc inp) s = (Inl ErrPastDeadline, s\<lparr>world := snd (timeNow (svc_env svc) (world s))\<rparr>)"
  by (simp add: Submit_def Let_def run_ext)

section \<open>The gas limit\<close>

text \<open>The buffered estimate, as long as the product fits in 64 bits; beyond that it wraps.\<close>

lemma buffered_estimate:
  assumes "unat est * 12 < 2 ^ 64"
  shows "unat (est * gasLimitBufferNumerator div gasLimitBufferDenominator) = unat est * 12 div 10"
proof -
  have "unat (est * 12) = unat est * 12" using assms by (simp add: unat_mult_lem [THEN iffD1])
  then show ?thesis by (simp add: gasLimitBufferNumerator_def gasLimitBufferDenominator_def unat_div)
qed

end
