(* ===== verification/Watcher.thy ===== *)
theory Watcher
  imports Relay_Service
begin

text \<open>
  \<open>internal/relay/watcher.go\<close>: the receipt watcher. A tick takes the oldest in-flight
  attempts, asks the chain for each receipt, and writes the outcome of the attempt and of
  its request in one transaction. \<open>internal/relay/recovery.go\<close>: the start-up report.
\<close>

section \<open>Reading the receipt\<close>

record pendingAttempt =
  pa_attemptID :: string
  pa_requestID :: string
  pa_signerHex :: string
  pa_txHash :: string
  pa_requestTo :: string
  pa_requestData :: bytes
  pa_requestValue :: string

definition revert_prefix :: string where
  "revert_prefix = ''execution reverted: ''"

definition cleanRevertString :: "string \<Rightarrow> string" where
  "cleanRevertString s =
     (case Index s revert_prefix of
        Some i \<Rightarrow> TrimSpace (drop (i + length revert_prefix) s)
      | None \<Rightarrow> TrimSpace s)"

definition effectiveGasPriceString :: "Receipt \<Rightarrow> string" where
  "effectiveGasPriceString r =
     (case rc_EffectiveGasPrice r of None \<Rightarrow> ''0'' | Some v \<Rightarrow> big_String v)"

text \<open>The replay against the block before, for the node's error message.\<close>

definition fetchRevertReason :: "'w env \<Rightarrow> pendingAttempt \<Rightarrow> int \<Rightarrow> ('w, 'z, string) op" where
  "fetchRevertReason E p blockNumber =
     (let msg = \<lparr>msg_From = hexToAddress E (pa_signerHex p), msg_To = hexToAddress E (pa_requestTo p),
                 msg_Value = SetString10 (pa_requestValue p), msg_Data = pa_requestData p\<rparr>
      in attempt (CallContract E msg (blockNumber - 1))
           (\<lambda>e. ret (cleanRevertString (Error e))) (\<lambda>_. ret []))"

section \<open>process\<close>

definition set_receipt ::
  "attempt_status \<Rightarrow> int \<Rightarrow> int \<Rightarrow> numeric \<Rightarrow> bytes \<Rightarrow> string \<Rightarrow> attempt_row \<Rightarrow> attempt_row" where
  "set_receipt st bn gas price logs reason t =
     t\<lparr>t_status := st, t_block_number := Some bn, t_gas_used := Some gas, t_effective_gas_price := Some price,
       t_logs := Some logs, t_revert_reason := nullif_empty reason\<rparr>"

text \<open>The block number and the gas are cut to \<open>int64\<close>; the price must be a \<open>NUMERIC(78, 0)\<close>
  and the logs are kept as the \<open>JSONB\<close> the server makes of them.\<close>

definition receipt_update ::
  "'w env \<Rightarrow> attempt_status \<Rightarrow> Receipt \<Rightarrow> bytes \<Rightarrow> string \<Rightarrow> string \<Rightarrow> database \<Rightarrow> database res" where
  "receipt_update E st rc logs reason i d =
     text_param reason (case (pgNumeric E (effectiveGasPriceString rc), pgJsonb E logs) of
        (Some price, Some stored) \<Rightarrow> Inr (d\<lparr>tx_attempts := update_rows t_id i
          (set_receipt st (sint (word_of_int (rc_BlockNumber rc) :: uint64)) (sint (rc_GasUsed rc)) price stored reason)
          (tx_attempts d)\<rparr>)
      | (None, _) \<Rightarrow> Inl (ErrBadValue ''numeric field overflow'')
      | (_, None) \<Rightarrow> Inl (ErrBadValue ''invalid input syntax for type json''))"

text \<open>A failed enqueue is logged only.\<close>

definition enqueue_webhook ::
  "(string \<Rightarrow> ('w, 'z, unit res) op) option \<Rightarrow> string \<Rightarrow> ('w, 'z, unit res) op" where
  "enqueue_webhook webhooks requestID =
     (case webhooks of
        None \<Rightarrow> ok ()
      | Some enqueue \<Rightarrow> attempt (enqueue requestID) (\<lambda>_. ok ()) (\<lambda>_. ok ()))"

definition process ::
  "'w env \<Rightarrow> (string \<Rightarrow> ('w, 'z, unit res) op) option \<Rightarrow> pendingAttempt \<Rightarrow> ('w, 'z, unit res) op" where
  "process E webhooks p =
     attempt (TransactionReceipt E (hexToHash E (pa_txHash p)))
       (\<lambda>e. if errors_Is e EthereumNotFound then ok () else fail e) (\<lambda>receipt.
     attempt (ret (marshalLogs E (rc_Logs receipt))) fail (\<lambda>logsJSON. do {
       (attemptStatus, requestStatus, revertReason) \<leftarrow>
         (if rc_Status receipt = 0
          then do { m \<leftarrow> fetchRevertReason E p (rc_BlockNumber receipt); ret (AttReverted, ReqReverted, m) }
          else ret (AttConfirmed, ReqConfirmed, []));
       attempt (tx_begin E) fail (\<lambda>(now, d).
       attempt (tx_two E (receipt_update E attemptStatus receipt logsJSON revertReason (pa_attemptID p))
                  (\<lambda>d. Inr (update_request_status requestStatus now (pa_requestID p) d)) d) fail (\<lambda>_.
       enqueue_webhook webhooks (pa_requestID p))) }))"

section \<open>tick\<close>

definition inflight :: "attempt_row \<Rightarrow> bool" where
  "inflight t = (t_status t = AttSubmitting \<or> t_status t = AttSubmitted)"

definition pending_attempt :: "attempt_row \<Rightarrow> relay_row \<Rightarrow> pendingAttempt" where
  "pending_attempt t r =
     \<lparr>pa_attemptID = t_id t, pa_requestID = t_request_id t, pa_signerHex = t_signer_address t,
      pa_txHash = t_tx_hash t, pa_requestTo = r_to_address r, pa_requestData = r_call_data r,
      pa_requestValue = numeric_text (r_value r)\<rparr>"

text \<open>The in-flight attempts joined with their requests, oldest first, at most a batch.\<close>

definition inflight_batch :: "nat \<Rightarrow> database \<Rightarrow> pendingAttempt list" where
  "inflight_batch batchSize d =
     List.map_filter (\<lambda>t. map_option (pending_attempt t) (lookup_row r_id (t_request_id t) (relay_requests d)))
       (List.take batchSize (order_by t_submitted_at
          (filter (\<lambda>t. inflight t \<and> t_request_id t \<in> r_id ` set (relay_requests d)) (tx_attempts d))))"

fun process_all ::
  "'w env \<Rightarrow> (string \<Rightarrow> ('w, 'z, unit res) op) option \<Rightarrow> pendingAttempt list \<Rightarrow> ('w, 'z, nat) op" where
  "process_all E webhooks [] = ret 0"
| "process_all E webhooks (p # ps) =
     attempt (process E webhooks p) (\<lambda>_. process_all E webhooks ps)
       (\<lambda>_. do { n \<leftarrow> process_all E webhooks ps; ret (Suc n) })"

definition Watcher_tick ::
  "'w env \<Rightarrow> (string \<Rightarrow> ('w, 'z, unit res) op) option \<Rightarrow> int \<Rightarrow> ('w, 'z, nat res) op" where
  "Watcher_tick E webhooks batchSize =
     attempt (db_query E (\<lambda>now d. limit_to batchSize (\<lambda>n. inflight_batch n d))) fail
       (\<lambda>ps. do { n \<leftarrow> process_all E webhooks ps; ok n })"

section \<open>The worker\<close>

record ('w, 'z) Watcher =
  wt_env :: "'w env"
  wt_interval :: int
  wt_batchSize :: int
  wt_webhooks :: "(string \<Rightarrow> ('w, 'z, unit res) op) option"

definition NewWatcher :: "'w env \<Rightarrow> int \<Rightarrow> int \<Rightarrow> ('w, 'z) Watcher" where
  "NewWatcher E interval batchSize =
     \<lparr>wt_env = E, wt_interval = interval, wt_batchSize = batchSize, wt_webhooks = None\<rparr>"

definition Watcher_SetWebhooks ::
  "(string \<Rightarrow> ('w, 'z, unit res) op) \<Rightarrow> ('w, 'z) Watcher \<Rightarrow> ('w, 'z) Watcher" where
  "Watcher_SetWebhooks f wt = wt\<lparr>wt_webhooks := Some f\<rparr>"

definition Watcher_Tick :: "('w, 'z) Watcher \<Rightarrow> ('w, 'z, nat res) op" where
  "Watcher_Tick wt = Watcher_tick (wt_env wt) (wt_webhooks wt) (wt_batchSize wt)"

definition Watcher_Run :: "('w, 'z) Watcher \<Rightarrow> nat \<Rightarrow> ('w, 'z, unit res) op" where
  "Watcher_Run wt = run_ticker (wt_interval wt) (Watcher_Tick wt)"

text \<open>The watcher of the program enqueues webhooks.\<close>

definition txmill_watcher :: "'w env \<Rightarrow> int \<Rightarrow> int \<Rightarrow> ('w, 'z) Watcher" where
  "txmill_watcher E interval batchSize = Watcher_SetWebhooks (Enqueue E) (NewWatcher E interval batchSize)"

lemma txmill_watcher_sel [simp]:
  "wt_env (txmill_watcher E d b) = E" "wt_interval (txmill_watcher E d b) = d" "wt_batchSize (txmill_watcher E d b) = b"
  "wt_webhooks (txmill_watcher E d b) = Some (Enqueue E)"
  by (simp_all add: txmill_watcher_def Watcher_SetWebhooks_def NewWatcher_def)

lemma Watcher_Tick_txmill: "Watcher_Tick (txmill_watcher E d b) = Watcher_tick E (Some (Enqueue E)) b"
  by (simp add: Watcher_Tick_def)

lemma Watcher_Run_txmill: "Watcher_Run (txmill_watcher E d b) = run_ticker d (Watcher_tick E (Some (Enqueue E)) b)"
  by (simp add: Watcher_Run_def Watcher_Tick_txmill fun_eq_iff)

section \<open>Recover\<close>

record StuckRequest =
  sk_RequestID :: string
  sk_AppID :: string
  sk_CreatedAt :: int

record RecoveryReport =
  rp_InflightAttempts :: nat
  rp_PendingWebhookDeliveries :: nat
  rp_StuckRequests :: "StuckRequest list"

definition stuck :: "database \<Rightarrow> relay_row \<Rightarrow> bool" where
  "stuck d r \<longleftrightarrow> r_status r = ReqPending \<and> \<not> list_ex (\<lambda>t. t_request_id t = r_id r) (tx_attempts d)"

definition stuck_requests :: "database \<Rightarrow> StuckRequest list" where
  "stuck_requests d =
     map (\<lambda>r. \<lparr>sk_RequestID = r_id r, sk_AppID = r_app_id r, sk_CreatedAt = r_created_at r\<rparr>)
       (order_by r_created_at (filter (stuck d) (relay_requests d)))"

definition Recover :: "'w env \<Rightarrow> ('w, 'z, RecoveryReport res) op" where
  "Recover E =
     attempt (db_query E (\<lambda>now d. Inr (length (filter inflight (tx_attempts d)))))
       (fail_wrap ''count inflight attempts'') (\<lambda>n.
     attempt (db_query E (\<lambda>now d. Inr (length (filter (\<lambda>v. d_status v = DelPending) (webhook_deliveries d)))))
       (fail_wrap ''count webhook deliveries'') (\<lambda>m.
     attempt (db_query E (\<lambda>now d. Inr (stuck_requests d))) (fail_wrap ''scan stuck requests'') (\<lambda>ss.
     ok \<lparr>rp_InflightAttempts = n, rp_PendingWebhookDeliveries = m, rp_StuckRequests = ss\<rparr>)))"

section \<open>The step of an attempt\<close>

text \<open>Resolving an attempt: an in-flight one becomes confirmed or reverted, with its receipt.\<close>

inductive resolve_step :: "attempt_row \<Rightarrow> attempt_row \<Rightarrow> bool" where
  "inflight t \<Longrightarrow> st \<in> {AttConfirmed, AttReverted} \<Longrightarrow> resolve_step t (set_receipt st bn gas price logs reason t)"

inductive_cases resolve_stepE: "resolve_step t t'"

lemma resolve_step_key:
  "resolve_step t t' \<Longrightarrow> t_id t' = t_id t \<and> t_request_id t' = t_request_id t \<and> t_tx_hash t' = t_tx_hash t \<and>
     t_nonce t' = t_nonce t \<and> t_signer_address t' = t_signer_address t"
  by (auto elim!: resolve_stepE simp: set_receipt_def)

interpretation arows: row_steps t_id resolve_step
  by unfold_locales (simp add: resolve_step_key)

interpretation receipt: row_update t_id "set_receipt st bn gas price logs reason"
  by unfold_locales (simp add: set_receipt_def)

text \<open>The two statuses that one receipt gives, and how they belong together.\<close>

definition outcome_statuses :: "Receipt \<Rightarrow> attempt_status \<times> request_status" where
  "outcome_statuses rc = (if rc_Status rc = 0 then (AttReverted, ReqReverted) else (AttConfirmed, ReqConfirmed))"

lemma receipt_update_Inr:
  assumes "receipt_update E st rc logs reason i d = Inr d'"
  obtains bn gas price stored where
    "d' = d\<lparr>tx_attempts := update_rows t_id i (set_receipt st bn gas price stored reason) (tx_attempts d)\<rparr>" "pgJsonb E logs = Some stored"
    "pgNumeric E (effectiveGasPriceString rc) = Some price" "bn = sint (word_of_int (rc_BlockNumber rc) :: uint64)" "gas = sint (rc_GasUsed rc)"
  using assms by (auto simp: receipt_update_def text_param_def split: if_splits option.splits)

lemma data_ok_receipt_update: "receipt_update E st rc logs reason i d = Inr d' \<Longrightarrow> data_ok d \<Longrightarrow> data_ok d'"
  by (auto elim!: receipt_update_Inr simp: data_ok_def deliveries_ok_def
      intro!: db_wf_attempt_update) (auto simp: update_rows_def set_receipt_def)

locale watcher =
  fixes E :: "'w env" and webhooks :: "(string \<Rightarrow> ('w, 'z, unit res) pool_op) option"
  assumes webhooks_enq: "webhooks = Some f \<Longrightarrow> webhook_enqueuer f"
begin

lemma enqueue_webhook_run:
  "\<exists>w d'. run_state (enqueue_webhook webhooks i) s = (Inr (), s\<lparr>world := w, db := d'\<rparr>) \<and> notified i (db s) d'"
proof (cases webhooks)
  case None
  then show ?thesis by (intro exI [of _ "world s"] exI [of _ "db s"]) (simp add: enqueue_webhook_def)
next
  case (Some f)
  obtain r s' where run: "run_state (f i) s = (r, s')" by fastforce
  from webhook_enqueuer.enqueue_effect [OF webhooks_enq [OF Some] run] Some run show ?thesis
    by (cases r) (auto simp: enqueue_webhook_def)
qed

lemma process_run:
  obtains (unresolved) r w where "run_state (process E webhooks p) s = (r, s\<lparr>world := w\<rparr>)"
  | (resolved) rc w1 logs reason now d1 d2 w where
      "transactionReceipt E (hexToHash E (pa_txHash p)) (world s) = (Inr rc, w1)"
      "receipt_update E (fst (outcome_statuses rc)) rc logs reason (pa_attemptID p) (db s) = Inr d1"
      "notified (pa_requestID p)
         (update_request_status (snd (outcome_statuses rc)) now (pa_requestID p) d1) d2"
      "run_state (process E webhooks p) s = (Inr (), s\<lparr>world := w, db := d2\<rparr>)"
      "marshalLogs E (rc_Logs rc) = Inr logs" "rc_Status rc \<noteq> 0 \<Longrightarrow> reason = []"
proof -
  let ?W = "enqueue_webhook webhooks (pa_requestID p)"
  obtain x w1 where T: "transactionReceipt E (hexToHash E (pa_txHash p)) (world s) = (x, w1)" by fastforce
  show ?thesis
  proof (cases x)
    case (Inl e)
    with T show ?thesis
      by (intro unresolved [of "if errors_Is e EthereumNotFound then Inr () else Inl e" w1])
         (simp add: process_def run_ext)
  next
    case rc: (Inr rc)
    show ?thesis
    proof (cases "marshalLogs E (rc_Logs rc)")
      case (Inl e)
      with T rc show ?thesis by (intro unresolved [of "Inl e" w1]) (simp add: process_def run_ext)
    next
      case logs: (Inr logs)
      let ?ast = "fst (outcome_statuses rc)" and ?rst = "snd (outcome_statuses rc)"
      let ?rest = "\<lambda>reason. attempt (tx_begin E) fail (\<lambda>(now, d).
         attempt (tx_two E (receipt_update E ?ast rc logs reason (pa_attemptID p))
                  (\<lambda>d. Inr (update_request_status ?rst now (pa_requestID p) d)) d) fail (\<lambda>_. ?W))"
      have "\<exists>reason w2. (rc_Status rc \<noteq> 0 \<longrightarrow> reason = []) \<and>
          run_state (process E webhooks p) s = run_state (?rest reason) (s\<lparr>world := w2\<rparr>)"
        using T rc logs
        by (cases "rc_Status rc = 0")
           (auto simp: process_def run_ext outcome_statuses_def fetchRevertReason_def Let_def run_attempt
             split: sum.splits)
      then obtain reason w2 where quiet: "rc_Status rc \<noteq> 0 \<longrightarrow> reason = []"
        and run: "run_state (process E webhooks p) s = run_state (?rest reason) (s\<lparr>world := w2\<rparr>)" by blast
      show ?thesis
      proof (cases rule: run_tx_begin [of E "s\<lparr>world := w2\<rparr>"])
        case (failed e w)
        with run show ?thesis by (intro unresolved) simp
      next
        case (begun now w3)
        let ?f = "receipt_update E ?ast rc logs reason (pa_attemptID p)"
        let ?g = "\<lambda>d. Inr (update_request_status ?rst now (pa_requestID p) d)"
        show ?thesis
        proof (cases rule: run_tx_two [of E ?f ?g "db s" "s\<lparr>world := w3\<rparr>"])
          case (failed e w)
          with run begun show ?thesis by (intro unresolved) simp
        next
          case (committed d1 d2 w4)
          obtain w d' where wh: "run_state ?W (s\<lparr>world := w4, db := d2\<rparr>) = (Inr (), s\<lparr>world := w, db := d'\<rparr>)"
            "notified (pa_requestID p) d2 d'" using enqueue_webhook_run [of "pa_requestID p" "s\<lparr>world := w4, db := d2\<rparr>"] by auto
          with T rc committed run begun logs quiet show ?thesis by (intro resolved [of rc w1 logs reason d1 now d' w]) auto
        qed
      qed
    qed
  qed
qed

end

interpretation txw: watcher E "Some (Enqueue E)"
  by (rule watcher.intro) (auto simp: enq.webhook_enqueuer_axioms)

section \<open>A tick as a batch\<close>

definition process_state ::
  "'w env \<Rightarrow> (string \<Rightarrow> ('w, 'z, unit res) op) option \<Rightarrow> pendingAttempt \<Rightarrow> ('w, 'z) base_scheme \<Rightarrow> ('w, 'z) base_scheme" where
  "process_state E webhooks p s = snd (run_state (process E webhooks p) s)"

definition still_inflight :: "pendingAttempt \<Rightarrow> attempt_row \<Rightarrow> bool" where
  "still_inflight p t \<longleftrightarrow> inflight t \<and> pa_attemptID p = t_id t \<and> pa_requestID p = t_request_id t \<and> pa_txHash p = t_tx_hash t"

lemma process_all_fold: "snd (run_state (process_all E webhooks ps) s) = fold (process_state E webhooks) ps s"
proof (induction ps arbitrary: s)
  case (Cons p ps)
  obtain r s1 where run: "run_state (process E webhooks p) s = (r, s1)" by fastforce
  then have "s1 = process_state E webhooks p s" by (simp add: process_state_def)
  with run Cons.IH [of s1] show ?case by (cases r) (auto simp: run_attempt case_prod_beta)
qed simp

lemma outcome_step: "inflight t \<Longrightarrow> resolve_step t (set_receipt (fst (outcome_statuses rc)) bn gas price logs reason t)"
  by (rule resolve_step.intros) (auto simp: outcome_statuses_def)

context watcher
begin

lemma process_state_cases:
  obtains (unresolved) w where "process_state E webhooks p s = s\<lparr>world := w\<rparr>"
  | (resolved) rc w1 logs reason now d1 d2 w where
      "transactionReceipt E (hexToHash E (pa_txHash p)) (world s) = (Inr rc, w1)"
      "receipt_update E (fst (outcome_statuses rc)) rc logs reason (pa_attemptID p) (db s) = Inr d1"
      "notified (pa_requestID p) (update_request_status (snd (outcome_statuses rc)) now (pa_requestID p) d1) d2"
      "process_state E webhooks p s = s\<lparr>world := w, db := d2\<rparr>"
  by (rule process_run [of p s]) (auto simp: process_state_def intro: that)

lemma process_moved:
  assumes "distinct (map t_id (tx_attempts (db s)))" and "t \<in> set (tx_attempts (db s))" and "still_inflight p t"
  shows "moved t_id resolve_step {pa_attemptID p} (tx_attempts (db s)) (tx_attempts (db (process_state E webhooks p s)))"
proof (cases rule: process_state_cases [of p s])
  case (resolved rc w1 logs reason now d1 d2 w)
  from receipt_update_Inr [OF resolved(2)] obtain bn gas price stored where
    d1: "d1 = (db s)\<lparr>tx_attempts := update_rows t_id (pa_attemptID p)
        (set_receipt (fst (outcome_statuses rc)) bn gas price stored reason) (tx_attempts (db s))\<rparr>" by metis
  have "resolve_step t (set_receipt (fst (outcome_statuses rc)) bn gas price stored reason t)" "pa_attemptID p = t_id t"
    using assms(3) outcome_step by (auto simp: still_inflight_def)
  with arows.moved_update [OF assms(1,2)] d1 notified_frame [OF resolved(3)] resolved(4) show ?thesis by simp
qed simp

lemma process_keeps:
  assumes "data_ok (db s)"
  shows "data_ok (db (process_state E webhooks p s)) \<and> pools (process_state E webhooks p s) = pools s"
proof (cases rule: process_state_cases [of p s])
  case (resolved rc w1 logs reason now d1 d2 w)
  with assms show ?thesis
    using data_ok_receipt_update [OF resolved(2)] data_ok_notified [OF resolved(3)] by simp
qed (use assms in simp)

lemma process_fold_keeps:
  "data_ok (db s) \<Longrightarrow>
     data_ok (db (fold (process_state E webhooks) ps s)) \<and> pools (fold (process_state E webhooks) ps s) = pools s"
proof (induction ps arbitrary: s)
  case (Cons p ps)
  then show ?case using process_keeps [OF Cons.prems, of p] by simp
qed simp

end

sublocale watcher \<subseteq> aw: batch_worker t_id resolve_step "\<lambda>s. tx_attempts (db s)" "process_state E webhooks" pa_attemptID still_inflight
proof
  show "still_inflight p v \<Longrightarrow> pa_attemptID p = t_id v" for p v by (simp add: still_inflight_def)
qed (rule process_moved)

lemma inflight_batch_match:
  assumes "p \<in> set (inflight_batch b d)"
  shows "\<exists>t \<in> set (tx_attempts d). still_inflight p t"
proof -
  from assms obtain t r where "t \<in> set (tx_attempts d)" "inflight t" "p = pending_attempt t r"
    by (auto simp: inflight_batch_def map_filter_def dest!: in_set_takeD)
  then show ?thesis by (auto simp: still_inflight_def pending_attempt_def intro!: bexI [of _ t])
qed

lemma map_filter_all:
  "(\<And>x. x \<in> set xs \<Longrightarrow> f x = Some (g x)) \<Longrightarrow> List.map_filter f xs = map g xs"
  by (induction xs) (auto simp: List.map_filter_simps)

lemma inflight_batch_ids:
  "map pa_attemptID (inflight_batch b d) =
     map t_id (List.take b (order_by t_submitted_at
       (filter (\<lambda>t. inflight t \<and> t_request_id t \<in> r_id ` set (relay_requests d)) (tx_attempts d))))" (is "_ = map t_id ?ts")
proof -
  let ?r = "\<lambda>t. the (lookup_row r_id (t_request_id t) (relay_requests d))"
  have "map_option (pending_attempt t) (lookup_row r_id (t_request_id t) (relay_requests d)) = Some (pending_attempt t (?r t))"
    if "t \<in> set ?ts" for t
  proof -
    have "lookup_row r_id (t_request_id t) (relay_requests d) \<noteq> None"
      using that lookup_row_None [of r_id "t_request_id t" "relay_requests d"] by (auto dest!: in_set_takeD)
    then show ?thesis by auto
  qed
  then have "inflight_batch b d = map (\<lambda>t. pending_attempt t (?r t)) ?ts"
    unfolding inflight_batch_def by (rule map_filter_all)
  then show ?thesis by (simp add: comp_def pending_attempt_def)
qed

lemma inflight_batch_distinct:
  "distinct (map t_id (tx_attempts d)) \<Longrightarrow> distinct (map pa_attemptID (inflight_batch b d))"
  unfolding inflight_batch_ids
  by (simp add: take_map [symmetric] distinct_order_by distinct_map_filter)

context watcher
begin

lemma tick_run:
  obtains (query_failed) e w where "run_state (Watcher_tick E webhooks b) s = (Inl e, s\<lparr>world := w\<rparr>)"
  | (handled) n w where "run_state (Watcher_tick E webhooks b) s =
      (Inr n, fold (process_state E webhooks) (inflight_batch (nat b) (db s)) (s\<lparr>world := w\<rparr>))"
proof -
  let ?q = "\<lambda>now d. limit_to b (\<lambda>n. inflight_batch n d)"
  show ?thesis
  proof (cases rule: run_db_query [of E ?q s])
    case (fault e w)
    then show ?thesis by (intro query_failed) (simp add: Watcher_tick_def)
  next
    case (ran now w)
    show ?thesis
    proof (cases "b < 0")
      case True
      with ran show ?thesis by (intro query_failed) (simp add: Watcher_tick_def limit_to_def)
    next
      case False
      let ?m = "process_all E webhooks (inflight_batch (nat b) (db s))" and ?s = "s\<lparr>world := w\<rparr>"
      have "run_state (Watcher_tick E webhooks b) s = (Inr (fst (run_state ?m ?s)), snd (run_state ?m ?s))"
        using ran False by (simp add: Watcher_tick_def limit_to_def case_prod_beta)
      then show ?thesis using handled process_all_fold [of E webhooks _ ?s] by metis
    qed
  qed
qed

lemma tick_keeps:
  assumes "data_ok (db s)" and "run_state (Watcher_tick E webhooks b) s = (r, s')"
  shows "data_ok (db s') \<and> pools s' = pools s"
  using assms process_fold_keeps [of "s\<lparr>world := w\<rparr>" for w]
  by (cases rule: tick_run [of b s]) auto

lemma tick_moved:
  assumes "data_ok (db s)" and "run_state (Watcher_tick E webhooks b) s = (r, s')"
  shows "moved t_id resolve_step (pa_attemptID ` set (inflight_batch (nat b) (db s))) (tx_attempts (db s)) (tx_attempts (db s'))"
proof (cases rule: tick_run [of b s])
  case (handled n w)
  have d: "distinct (map t_id (tx_attempts (db s)))" using assms(1) by (simp add: data_ok_def db_wf_def)
  have "moved t_id resolve_step (pa_attemptID ` set (inflight_batch (nat b) (db s))) (tx_attempts (db (s\<lparr>world := w\<rparr>)))
      (tx_attempts (db (fold (process_state E webhooks) (inflight_batch (nat b) (db s)) (s\<lparr>world := w\<rparr>))))"
    by (rule aw.batch_moved) (use d in \<open>auto simp: inflight_batch_distinct intro: inflight_batch_match\<close>)
  with handled assms(2) show ?thesis by simp
qed (use assms in simp)

end

lemma Watcher_tick_negative:
  assumes "b < 0"
  shows "\<exists>e w. run_state (Watcher_tick E webhooks b) s = (Inl e, s\<lparr>world := w\<rparr>)"
proof (cases rule: run_db_query [of E "\<lambda>now d. limit_to b (\<lambda>n. inflight_batch n d)" s])
  case (fault e w)
  then show ?thesis by (auto simp: Watcher_tick_def)
next
  case (ran now w)
  with assms show ?thesis by (auto simp: Watcher_tick_def limit_to_def)
qed

section \<open>An attempt whose transaction is never mined\<close>

definition never_mined :: "'w env \<Rightarrow> pendingAttempt \<Rightarrow> bool" where
  "never_mined E p \<longleftrightarrow> (\<forall>w. fst (transactionReceipt E (hexToHash E (pa_txHash p)) w) = Inl EthereumNotFound)"

lemma process_never_mined: "never_mined E p \<Longrightarrow> \<exists>w. run_state (process E webhooks p) s = (Inr (), s\<lparr>world := w\<rparr>)"
  by (simp add: never_mined_def process_def run_ext) blast

lemma process_all_never_mined:
  "\<forall>p \<in> set ps. never_mined E p \<Longrightarrow> \<exists>w. run_state (process_all E webhooks ps) s = (length ps, s\<lparr>world := w\<rparr>)"
proof (induction ps arbitrary: s)
  case Nil
  then show ?case by (intro exI [of _ "world s"]) simp
next
  case (Cons p ps)
  obtain w where run: "run_state (process E webhooks p) s = (Inr (), s\<lparr>world := w\<rparr>)"
    using process_never_mined Cons.prems by (metis list.set_intros(1))
  with Cons.IH [of "s\<lparr>world := w\<rparr>"] Cons.prems show ?case by auto
qed

lemma tick_never_mined:
  assumes "\<forall>p \<in> set (inflight_batch (nat b) (db s)). never_mined E p" and "run_state (Watcher_tick E webhooks b) s = (r, s')"
  shows "db s' = db s"
proof -
  let ?q = "\<lambda>now d. limit_to b (\<lambda>n. inflight_batch n d)"
  show ?thesis
  proof (cases rule: run_db_query [of E ?q s])
    case (fault e w)
    then show ?thesis using assms(2) by (auto simp: Watcher_tick_def)
  next
    case (ran now w)
    then show ?thesis
      using assms(2) process_all_never_mined [OF assms(1), of webhooks "s\<lparr>world := w\<rparr>"]
      by (auto simp: Watcher_tick_def limit_to_def split: if_splits)
  qed
qed

section \<open>A mined attempt is resolved\<close>

text \<open>
  The conditions under which an outcome can be stored: the logs have a JSON form that the server accepts, the price
  fits the column, and every reason the replay may give is text the server accepts.
\<close>

definition storable_receipt :: "'w env \<Rightarrow> Receipt \<Rightarrow> bool" where
  "storable_receipt E rc \<longleftrightarrow>
     (\<exists>l. marshalLogs E (rc_Logs rc) = Inr l \<and> pgJsonb E l \<noteq> None) \<and> pgNumeric E (effectiveGasPriceString rc) \<noteq> None \<and>
     (rc_Status rc = 0 \<longrightarrow> (\<forall>m n w e. fst (callContract E m n w) = Inl e \<longrightarrow> pg_text_ok (cleanRevertString (Error e))))"

lemma fetchRevertReason_ok:
  assumes "\<forall>m n w e. fst (callContract E m n w) = Inl e \<longrightarrow> pg_text_ok (cleanRevertString (Error e))"
  shows "\<exists>x w. run_state (fetchRevertReason E p n) s = (x, s\<lparr>world := w\<rparr>) \<and> pg_text_ok x"
proof -
  let ?msg = "\<lparr>msg_From = hexToAddress E (pa_signerHex p), msg_To = hexToAddress E (pa_requestTo p),
                 msg_Value = SetString10 (pa_requestValue p), msg_Data = pa_requestData p\<rparr>"
  show ?thesis
    using assms by (cases "fst (callContract E ?msg (n - 1) (world s))")
      (auto simp: fetchRevertReason_def Let_def run_ext)
qed

context watcher
begin

lemma process_resolves:
  assumes nf: "no_faults E" and rc: "transactionReceipt E (hexToHash E (pa_txHash p)) (world s) = (Inr rc, w1)"
    and st: "storable_receipt E rc"
  obtains logs reason now d1 d2 w where
    "receipt_update E (fst (outcome_statuses rc)) rc logs reason (pa_attemptID p) (db s) = Inr d1"
    "notified (pa_requestID p) (update_request_status (snd (outcome_statuses rc)) now (pa_requestID p) d1) d2"
    "run_state (process E webhooks p) s = (Inr (), s\<lparr>world := w, db := d2\<rparr>)"
    "marshalLogs E (rc_Logs rc) = Inr logs" "rc_Status rc \<noteq> 0 \<Longrightarrow> reason = []"
proof -
  from st obtain logs price stored where l: "marshalLogs E (rc_Logs rc) = Inr logs" and j: "pgJsonb E logs = Some stored"
    and price: "pgNumeric E (effectiveGasPriceString rc) = Some price" by (auto simp: storable_receipt_def)
  let ?ast = "fst (outcome_statuses rc)" and ?rst = "snd (outcome_statuses rc)"
  let ?rest = "\<lambda>reason. attempt (tx_begin E) fail (\<lambda>(now, d).
     attempt (tx_two E (receipt_update E ?ast rc logs reason (pa_attemptID p))
              (\<lambda>d. Inr (update_request_status ?rst now (pa_requestID p) d)) d) fail (\<lambda>_. enqueue_webhook webhooks (pa_requestID p)))"
  have "\<exists>reason w2. pg_text_ok reason \<and> (rc_Status rc \<noteq> 0 \<longrightarrow> reason = []) \<and> run_state (process E webhooks p) s = run_state (?rest reason) (s\<lparr>world := w2\<rparr>)"
  proof (cases "rc_Status rc = 0")
    case True
    with st fetchRevertReason_ok [of E p "rc_BlockNumber rc" "s\<lparr>world := w1\<rparr>"] obtain x w where
      "run_state (fetchRevertReason E p (rc_BlockNumber rc)) (s\<lparr>world := w1\<rparr>) = (x, s\<lparr>world := w\<rparr>)" "pg_text_ok x"
      by (auto simp: storable_receipt_def)
    with True rc l show ?thesis
      by (intro exI [of _ x] exI [of _ w]) (simp add: process_def run_ext outcome_statuses_def)
  next
    case False
    with rc l show ?thesis
      by (intro exI [of _ "[]"] exI [of _ w1]) (simp add: process_def run_ext outcome_statuses_def)
  qed
  then obtain reason w2 where ok: "pg_text_ok reason" and quiet: "rc_Status rc \<noteq> 0 \<longrightarrow> reason = []"
    and run: "run_state (process E webhooks p) s = run_state (?rest reason) (s\<lparr>world := w2\<rparr>)" by blast
  from ok price j obtain d1 where u: "receipt_update E ?ast rc logs reason (pa_attemptID p) (db s) = Inr d1"
    by (simp add: receipt_update_def text_param_def)
  obtain now w3 where b: "run_state (tx_begin E) (s\<lparr>world := w2\<rparr>) = (Inr (now, db s), s\<lparr>world := w3\<rparr>)"
    using tx_begin_ok [OF nf, of "s\<lparr>world := w2\<rparr>"] by auto
  let ?g = "\<lambda>d. Inr (update_request_status ?rst now (pa_requestID p) d)"
  obtain w4 where "run_state (tx_two E (receipt_update E ?ast rc logs reason (pa_attemptID p)) ?g (db s)) (s\<lparr>world := w3\<rparr>) =
     (Inr (), s\<lparr>world := w4, db := update_request_status ?rst now (pa_requestID p) d1\<rparr>)"
    using tx_two_ok [where E = E and f = "receipt_update E ?ast rc logs reason (pa_attemptID p)" and d = "db s"
      and g = ?g and s = "s\<lparr>world := w3\<rparr>"] nf u by auto
  moreover obtain w d2 where
    "run_state (enqueue_webhook webhooks (pa_requestID p)) (s\<lparr>world := w4, db := update_request_status ?rst now (pa_requestID p) d1\<rparr>) =
       (Inr (), s\<lparr>world := w, db := d2\<rparr>)"
    "notified (pa_requestID p) (update_request_status ?rst now (pa_requestID p) d1) d2"
    using enqueue_webhook_run [of "pa_requestID p" "s\<lparr>world := w4, db := update_request_status ?rst now (pa_requestID p) d1\<rparr>"]
    by auto
  ultimately show ?thesis using run b l quiet by (intro that [OF u]) simp_all
qed

end

section \<open>Attempts whose transactions are mined\<close>

text \<open>The node has a receipt of the transaction, one that can be stored, whenever it is asked.\<close>

definition mined :: "'w env \<Rightarrow> string \<Rightarrow> bool" where
  "mined E h \<longleftrightarrow> (\<forall>w. \<exists>rc w'. transactionReceipt E (hexToHash E h) w = (Inr rc, w') \<and> storable_receipt E rc)"

definition all_mined :: "'w env \<Rightarrow> database \<Rightarrow> bool" where
  "all_mined E d \<longleftrightarrow> (\<forall>t \<in> set (tx_attempts d). inflight t \<longrightarrow> mined E (t_tx_hash t))"

abbreviation resolved_row :: "attempt_row \<Rightarrow> bool" where
  "resolved_row t \<equiv> t_status t \<in> {AttConfirmed, AttReverted}"

context watcher
begin

lemma process_mined:
  assumes nf: "no_faults E" and m: "mined E (pa_txHash p)" and t: "t \<in> set (tx_attempts (db (process_state E webhooks p s)))"
    and "t_id t = pa_attemptID p"
  shows "resolved_row t"
proof -
  obtain rc w1 where rc: "transactionReceipt E (hexToHash E (pa_txHash p)) (world s) = (Inr rc, w1)" "storable_receipt E rc"
    using m unfolding mined_def by blast
  from nf rc show ?thesis
  proof (rule process_resolves)
    fix logs reason now d1 d2 w
    assume u: "receipt_update E (fst (outcome_statuses rc)) rc logs reason (pa_attemptID p) (db s) = Inr d1"
      and n: "notified (pa_requestID p) (update_request_status (snd (outcome_statuses rc)) now (pa_requestID p) d1) d2"
      and run: "run_state (process E webhooks p) s = (Inr (), s\<lparr>world := w, db := d2\<rparr>)"
    have "t \<in> set (tx_attempts d1)" using t run notified_frame [OF n] by (simp add: process_state_def)
    with u assms(4) show ?thesis
      by (auto elim!: receipt_update_Inr simp: update_rows_def set_receipt_def outcome_statuses_def split: if_splits)
  qed
qed

end

sublocale watcher \<subseteq> fw: finishing_worker t_id resolve_step "\<lambda>s. tx_attempts (db s)" "process_state E webhooks" pa_attemptID
  still_inflight inflight resolved_row "\<lambda>p. no_faults E \<and> mined E (pa_txHash p)"
proof
  show "no_faults E \<and> mined E (pa_txHash p) \<Longrightarrow> t \<in> set (tx_attempts (db (process_state E webhooks p s))) \<Longrightarrow>
      t_id t = pa_attemptID p \<Longrightarrow> resolved_row t" for p t s using process_mined by blast
qed (auto simp: still_inflight_def inflight_def)

lemma settled_all_mined:
  assumes "settled inflight resolved_row (tx_attempts d) (tx_attempts d')" and "all_mined E d"
  shows "all_mined E d'"
proof -
  have "t \<in> set (tx_attempts d)" if "t \<in> set (tx_attempts d')" "inflight t" for t
    using assms(1) that unfolding settled_def by (induction rule: list_all2_induct) (auto simp: inflight_def)
  with assms(2) show ?thesis by (auto simp: all_mined_def)
qed

text \<open>With references intact, every attempt in flight is in the join with the requests.\<close>

lemma inflight_joined:
  assumes "db_wf d"
  shows "filter (\<lambda>t. inflight t \<and> t_request_id t \<in> r_id ` set (relay_requests d)) (tx_attempts d) = filter inflight (tx_attempts d)"
  using assms by (intro filter_cong) (auto simp: db_wf_def)

context watcher
begin

lemma tick_resolves:
  assumes nf: "no_faults E" and "0 \<le> b" and wf: "data_ok (db s)" and m: "all_mined E (db s)"
  shows "\<exists>n s'. run_state (Watcher_tick E webhooks b) s = (Inr n, s') \<and>
    settled inflight resolved_row (tx_attempts (db s)) (tx_attempts (db s')) \<and>
    length (filter inflight (tx_attempts (db s'))) = length (filter inflight (tx_attempts (db s))) - nat b \<and>
    oldest_first t_submitted_at inflight (tx_attempts (db s)) (tx_attempts (db s'))"
proof -
  let ?q = "\<lambda>now d. limit_to b (\<lambda>n. inflight_batch n d)" and ?ps = "inflight_batch (nat b) (db s)"
  obtain now w where q: "run_state (db_query E ?q) s = (?q now (db s), s\<lparr>world := w\<rparr>)"
    using run_db_query_ok [OF nf, of ?q s] by blast
  let ?s = "s\<lparr>world := w\<rparr>" and ?m = "process_all E webhooks ?ps"
  have run: "run_state (Watcher_tick E webhooks b) s = (Inr (fst (run_state ?m ?s)), fold (process_state E webhooks) ?ps ?s)"
    using q assms(2) by (simp add: Watcher_tick_def limit_to_def case_prod_beta process_all_fold)
  have wf': "db_wf (db s)" using wf by (simp add: data_ok_def)
  have "distinct (map t_id (tx_attempts (db ?s)))" using wf' by (simp add: db_wf_def)
  moreover have "map pa_attemptID ?ps = map t_id (List.take (nat b) (order_by t_submitted_at (filter inflight (tx_attempts (db ?s)))))"
    unfolding inflight_batch_ids inflight_joined [OF wf'] by simp
  moreover have matched: "\<forall>p \<in> set ?ps. \<exists>t \<in> set (tx_attempts (db ?s)). still_inflight p t" using inflight_batch_match by simp
  moreover have "\<forall>p \<in> set ?ps. no_faults E \<and> mined E (pa_txHash p)"
    using nf m matched by (fastforce simp: all_mined_def still_inflight_def)
  ultimately show ?thesis using run fw.batch_finishes [of ?s ?ps "nat b" t_submitted_at] by simp
qed

lemma run_drains:
  assumes nf: "no_faults E" and "0 < d" and b: "0 \<le> b" and "data_ok (db s)" and "all_mined E (db s)"
  shows "\<exists>s'. run_state (run_ticker d (Watcher_tick E webhooks b) n) s = (Inr (), s') \<and> data_ok (db s') \<and>
    settled inflight resolved_row (tx_attempts (db s)) (tx_attempts (db s')) \<and>
    length (filter inflight (tx_attempts (db s'))) = length (filter inflight (tx_attempts (db s))) - n * nat b \<and>
    oldest_first t_submitted_at inflight (tx_attempts (db s)) (tx_attempts (db s'))"
proof -
  let ?P = "\<lambda>x. data_ok (db x) \<and> all_mined E (db x) \<and> settled inflight resolved_row (tx_attempts (db s)) (tx_attempts (db x)) \<and>
    oldest_first t_submitted_at inflight (tx_attempts (db s)) (tx_attempts (db x))"
  let ?count = "\<lambda>x. length (filter inflight (tx_attempts (db x)))"
  have tick: "?P y \<and> (\<forall>e. r = Inl e \<longrightarrow> \<not> is_panic e) \<and> ?count y = ?count x - nat b"
    if P: "?P x" and T: "run_state (Watcher_tick E webhooks b) x = (r, y)" for x r y
  proof -
    from tick_resolves [OF nf b, of x] P T obtain k where r: "r = Inr k"
      and st: "settled inflight resolved_row (tx_attempts (db x)) (tx_attempts (db y))" and c: "?count y = ?count x - nat b"
      and o: "oldest_first t_submitted_at inflight (tx_attempts (db x)) (tx_attempts (db y))" by auto
    have "settled inflight resolved_row (tx_attempts (db s)) (tx_attempts (db y))"
      by (rule settled_trans [OF _ _ st]) (use P in \<open>auto simp: inflight_def\<close>)
    moreover have "oldest_first t_submitted_at inflight (tx_attempts (db s)) (tx_attempts (db y))"
      by (rule oldest_first_trans [OF _ st _ o]) (use P in \<open>auto simp: inflight_def\<close>)
    ultimately show ?thesis using tick_keeps [OF _ T] settled_all_mined [OF st, of E] P r c by simp
  qed
  have "\<exists>s'. run_state (run_ticker d (Watcher_tick E webhooks b) n) s = (Inr (), s') \<and> ?P s' \<and> ?count s' = ?count s - n * nat b"
    by (rule run_ticker_drains [where P = ?P and count = ?count, OF assms(2)]) (simp add: assms, rule tick)
  then show ?thesis by blast
qed

end

section \<open>The report of Recover\<close>

lemma Recover_reads: "leaves db (Recover E)"
  unfolding Recover_def by (intro leaves_rules)

lemma Recover_report:
  assumes "run_state (Recover E) s = (Inr rep, s')"
  shows "rep = \<lparr>rp_InflightAttempts = length (filter inflight (tx_attempts (db s))),
      rp_PendingWebhookDeliveries = length (filter (\<lambda>v. d_status v = DelPending) (webhook_deliveries (db s))),
      rp_StuckRequests = stuck_requests (db s)\<rparr>"
proof -
  have q: "\<exists>now. q now (db s) = Inr x \<and> db s1 = db s" if "run_state (db_query E q) s = (Inr x, s1)" for q x s s1
    by (rule run_db_query [of E q s]) (use that in auto)
  show ?thesis
    using assms unfolding Recover_def by (auto elim!: attempt_failE dest!: q)
qed

end
