(* ===== verification/Relay_Consistency.thy ===== *)
theory Relay_Consistency
  imports Watcher
begin

text \<open>
  How the two tables of a relay agree. Every request has at most one attempt, and while the
  operations run one at a time the status of a request is the one its attempt calls for.
\<close>

section \<open>The agreement\<close>

fun request_of :: "attempt_status \<Rightarrow> request_status" where
  "request_of AttSubmitting = ReqPending"
| "request_of AttSubmitted = ReqSubmitted"
| "request_of AttFailed = ReqPending"
| "request_of AttConfirmed = ReqConfirmed"
| "request_of AttReverted = ReqReverted"

definition linked :: "database \<Rightarrow> bool" where
  "linked d \<longleftrightarrow>
     distinct (map t_request_id (tx_attempts d)) \<and>
     (\<forall>t \<in> set (tx_attempts d). \<forall>r \<in> set (relay_requests d).
        t_request_id t = r_id r \<longrightarrow> r_status r = request_of (t_status t)) \<and>
     (\<forall>r \<in> set (relay_requests d). r_status r \<in> {ReqPending, ReqRejected} \<or> r_id r \<in> t_request_id ` set (tx_attempts d))"

lemma linked_tables: "tx_attempts d' = tx_attempts d \<Longrightarrow> relay_requests d' = relay_requests d \<Longrightarrow> linked d' = linked d"
  by (simp add: linked_def)

lemma attempt_request_known: "db_wf d \<Longrightarrow> t \<in> set (tx_attempts d) \<Longrightarrow> t_request_id t \<in> r_id ` set (relay_requests d)"
  by (simp add: db_wf_def) blast

lemma linked_new_request:
  assumes "linked d" and "db_wf d" and "relay_requests d' = relay_requests d @ [rq]" and "tx_attempts d' = tx_attempts d"
    and "r_id rq \<notin> r_id ` set (relay_requests d)" and "r_status rq \<in> {ReqPending, ReqRejected}"
  shows "linked d'"
proof -
  have "r_id rq \<notin> t_request_id ` set (tx_attempts d)" "\<forall>t \<in> set (tx_attempts d). t_request_id t \<noteq> r_id rq"
    using attempt_request_known [OF assms(2)] assms(5) by (metis imageE)+
  with assms show ?thesis by (auto simp: linked_def)
qed

lemma linked_new_attempt:
  assumes "linked d" and "db_wf d" and "relay_requests d' = relay_requests d @ [rq]" and "tx_attempts d' = tx_attempts d @ [att]"
    and "r_id rq \<notin> r_id ` set (relay_requests d)" and "t_request_id att = r_id rq" and "r_status rq = request_of (t_status att)"
  shows "linked d'"
proof -
  have "r_id rq \<notin> t_request_id ` set (tx_attempts d)" "\<forall>t \<in> set (tx_attempts d). t_request_id t \<noteq> r_id rq"
    using attempt_request_known [OF assms(2)] assms(5) by (metis imageE)+
  with assms show ?thesis by (auto simp: linked_def)
qed

lemma linked_resolve:
  assumes "linked d" and "t \<in> set (tx_attempts d)" and "distinct (map t_id (tx_attempts d))" and "t_id t = i" "t_request_id t = q"
    and f: "\<And>t. t_id (f t) = t_id t \<and> t_request_id (f t) = t_request_id t \<and> t_status (f t) = st"
    and ts: "tx_attempts d' = update_rows t_id i f (tx_attempts d)"
    and rs: "relay_requests d' = update_rows r_id q (set_request_status (request_of st) now) (relay_requests d)"
  shows "linked d'"
proof -
  have same: "u = t" if "u \<in> set (tx_attempts d)" "t_id u = i" for u
    using that assms(2-4) by (metis distinct_map inj_onD)
  have same2: "u = t" if "u \<in> set (tx_attempts d)" "t_request_id u = q" for u
    using that assms(1,2,5) by (metis distinct_map inj_onD linked_def)
  have cols: "map t_request_id (tx_attempts d') = map t_request_id (tx_attempts d)"
    using ts f by (simp add: update_rows_def)
  have "r_status r' = request_of (t_status t')"
    if t': "t' \<in> set (tx_attempts d')" and r': "r' \<in> set (relay_requests d')" and e: "t_request_id t' = r_id r'" for t' r'
  proof -
    from t' ts obtain u where u: "u \<in> set (tx_attempts d)" "t' = (if t_id u = i then f u else u)"
      by (auto simp: update_rows_def)
    from r' rs obtain r where r: "r \<in> set (relay_requests d)"
      "r' = (if r_id r = q then set_request_status (request_of st) now r else r)" by (auto simp: update_rows_def)
    have tu: "t_request_id u = r_id r" using e u(2) r(2) f by (auto simp: set_request_status_def split: if_splits)
    show ?thesis
    proof (cases "r_id r = q")
      case True
      then have "u = t" using same2 u(1) tu by simp
      with u r True f assms(4) show ?thesis by (simp add: set_request_status_def)
    next
      case False
      then have "u \<noteq> t" using tu assms(5) by auto
      then have "t_id u \<noteq> i" using same u(1) by auto
      with False u r tu assms(1) show ?thesis by (simp add: linked_def)
    qed
  qed
  moreover have "r_status r' \<in> {ReqPending, ReqRejected} \<or> r_id r' \<in> t_request_id ` set (tx_attempts d')"
    if r': "r' \<in> set (relay_requests d')" for r'
  proof -
    have im: "t_request_id ` set (tx_attempts d') = t_request_id ` set (tx_attempts d)" using cols by (metis list.set_map)
    from r' rs obtain r where r: "r \<in> set (relay_requests d)"
      "r' = (if r_id r = q then set_request_status (request_of st) now r else r)" by (auto simp: update_rows_def)
    show ?thesis
    proof (cases "r_id r = q")
      case True
      then have "r_id r' = t_request_id t" using r(2) assms(5) by (simp add: set_request_status_def)
      then show ?thesis using im assms(2) by auto
    next
      case False
      with r assms(1) im show ?thesis by (auto simp: linked_def)
    qed
  qed
  ultimately show ?thesis using assms(1) cols by (simp add: linked_def)
qed

section \<open>Submit\<close>

text \<open>What a run of \<open>Submit\<close> adds to the two tables, on every path.\<close>

context relay_service
begin

lemma broadcast_tables:
  assumes r: "r < length (heap (pools s))" and run: "run_state (submit_held svc inp i r) s = (out, s')"
    and rq: "relay_requests (db s) = rs @ [rq]" "r_id rq = i" "r_status rq = ReqPending" "i \<notin> r_id ` set rs"
  obtains (no_attempt) rq' where "relay_requests (db s') = rs @ [rq']" "tx_attempts (db s') = tx_attempts (db s)"
      "r_id rq' = i" "r_status rq' \<in> {ReqPending, ReqRejected}"
  | (attempted) rq' att where "relay_requests (db s') = rs @ [rq']" "tx_attempts (db s') = tx_attempts (db s) @ [att]"
      "r_id rq' = i" "t_request_id att = i" "r_status rq' = request_of (t_status att)"
proof -
  have upd: "relay_requests (update_request_status st now i d) = rs @ [set_request_status st now rq]"
    if "relay_requests d = rs @ [rq]" for st now d
    using that rq by (simp add: update_request_status_def update_rows_absent update_rows_single)
  from r show ?thesis
  proof (cases rule: submit_held_run [where i = i and inp = inp])
    case (rejected m e w d')
    have d': "db s' = d'" using rejected(3) run by auto
    from rejected(2) consider (same) "d' = db s" | (set) now where "notified i (update_request_status ReqRejected now i (db s)) d'"
      by (auto simp: marked_def)
    then show ?thesis
    proof cases
      case same
      with d' rq show ?thesis by (intro no_attempt) auto
    next
      case (set now)
      with d' rq notified_frame [OF set] upd [OF rq(1)] show ?thesis
        by (intro no_attempt [of "set_request_status ReqRejected now rq"]) (auto simp: set_request_status_def)
    qed
  next
    case (priced gl gp w)
    let ?s = "s\<lparr>world := w\<rparr>" and ?E = "svc_env svc" and ?sg = "heap (pools s) ! r"
    have r': "r < length (heap (pools ?s))" using r by simp
    have run': "run_state (broadcast svc inp i r (heap (pools ?s) ! r) gl gp) ?s = (out, s')" using priced(2) run by simp
    have ins: "\<exists>att. d1 = (db s)\<lparr>tx_attempts := tx_attempts (db s) @ [att]\<rparr> \<and> t_id att = aid \<and> t_request_id att = i \<and>
        t_status att = AttSubmitting \<and> aid \<notin> t_id ` set (tx_attempts (db s))"
      if a: "attempt_insert ?E i sa n h gp aid now (db ?s) = Inr d1" for sa n h aid now d1
    proof -
      from attempt_insert_Inr [OF a] obtain pr where
        "insert_attempt_row (new_attempt ?E aid now i sa n h pr) (db ?s) = Inr d1"
        "d1 = (db ?s)\<lparr>tx_attempts := tx_attempts (db ?s) @ [new_attempt ?E aid now i sa n h pr]\<rparr>" by metis
      then show ?thesis by (intro exI [of _ "new_attempt ?E aid now i sa n h pr"]) (simp add: insert_attempt_row_Inr new_attempt_def)
    qed
    have upda: "tx_attempts (update_attempt_status st aid d) = tx_attempts (db s) @ [set_attempt_status st att]"
      if "tx_attempts d = tx_attempts (db s) @ [att]" "t_id att = aid" "aid \<notin> t_id ` set (tx_attempts (db s))" for st aid att d
      using that by (simp add: update_attempt_status_def update_rows_absent update_rows_single)
    from r' show ?thesis
    proof (cases rule: broadcast_run [where i = i and inp = inp and gasLimit = gl and gasPrice = gp])
      case (unrecorded e w)
      with run' rq show ?thesis by (intro no_attempt) auto
    next
      case (unsent stx aid now d1 d2 e w)
      from ins [OF unsent(2)] obtain att where a: "d1 = (db s)\<lparr>tx_attempts := tx_attempts (db s) @ [att]\<rparr>" "t_id att = aid"
        "t_request_id att = i" "t_status att = AttSubmitting" "aid \<notin> t_id ` set (tx_attempts (db s))" by blast
      have s': "db s' = d2" using unsent(4) run' by auto
      from unsent(3) show ?thesis
      proof
        assume "d2 = d1"
        with a s' rq show ?thesis by (intro attempted [of rq att]) simp_all
      next
        assume "d2 = update_attempt_status AttFailed aid d1"
        with a s' rq upda [of d1 att aid AttFailed] show ?thesis
          by (intro attempted [of rq "set_attempt_status AttFailed att"]) (simp_all add: set_attempt_status_def)
      qed
    next
      case (unmarked stx aid now d1 e w)
      from ins [OF unmarked(2)] obtain att where a: "d1 = (db s)\<lparr>tx_attempts := tx_attempts (db s) @ [att]\<rparr>"
        "t_request_id att = i" "t_status att = AttSubmitting" by blast
      have "db s' = d1" using unmarked(3) run' by auto
      with a rq show ?thesis by (intro attempted [of rq att]) simp_all
    next
      case (sent stx aid now d1 t d2 w)
      from ins [OF sent(2)] obtain att where a: "d1 = (db s)\<lparr>tx_attempts := tx_attempts (db s) @ [att]\<rparr>" "t_id att = aid"
        "t_request_id att = i" "aid \<notin> t_id ` set (tx_attempts (db s))" by blast
      have "db s' = d2" using sent(4) run' by auto
      with a rq upda [of d1 att aid AttSubmitted] notified_frame [OF sent(3)]
        upd [of "update_attempt_status AttSubmitted aid d1" ReqSubmitted t] show ?thesis
        by (intro attempted [of "set_request_status ReqSubmitted t rq" "set_attempt_status AttSubmitted att"])
           (simp_all add: set_attempt_status_def set_request_status_def)
    qed
  qed
qed


lemma Submit_tables:
  assumes inv: "pool_inv held (pools s)" and run: "run_state (Submit svc inp) s = (out, s')"
  obtains (untouched) "relay_requests (db s') = relay_requests (db s)" "tx_attempts (db s') = tx_attempts (db s)"
  | (no_attempt) rq where "relay_requests (db s') = relay_requests (db s) @ [rq]" "tx_attempts (db s') = tx_attempts (db s)"
      "r_id rq \<notin> r_id ` set (relay_requests (db s))" "r_status rq \<in> {ReqPending, ReqRejected}"
  | (attempted) rq att where "relay_requests (db s') = relay_requests (db s) @ [rq]" "tx_attempts (db s') = tx_attempts (db s) @ [att]"
      "r_id rq \<notin> r_id ` set (relay_requests (db s))" "t_request_id att = r_id rq" "r_status rq = request_of (t_status att)"
proof (cases rule: Submit_run [of inp s])
  case (refused e w)
  then have "db s' = db s" using run by auto
  then show ?thesis using untouched by simp
next
  case (rejected i now d1 s1 e w d2)
  from request_insert_Inr [OF rejected(1)] have "i \<notin> r_id ` set (relay_requests (db s))"
    by (auto simp: insert_relay_row_Inr new_request_def)
  with marked_new_request [OF rejected(1,4)] rejected(5) run show ?thesis by (auto intro: no_attempt)
next
  case (held i now d1 s1 b r p1 out' s2)
  let ?s = "s1\<lparr>pools := p1\<rparr>"
  have inv1: "pool_inv held (pools s1)" using loaded_inv held(2) inv by blast
  have r: "r < length (heap (pools ?s))" using checkout_live [OF inv1 held(4)] by simp
  from request_insert_Inr [OF held(1)] obtain dat v where
    ins: "insert_relay_row (new_request (svc_env svc) i now inp dat v) (db s) = Inr d1"
    and d1: "d1 = (db s)\<lparr>relay_requests := relay_requests (db s) @ [new_request (svc_env svc) i now inp dat v]\<rparr>" by metis
  have fresh: "i \<notin> r_id ` set (relay_requests (db s))" using ins by (simp add: insert_relay_row_Inr new_request_def)
  have s': "db s' = db s2" using held(6) run by auto
  show ?thesis
    by (rule broadcast_tables [OF r held(5), of "relay_requests (db s)" "new_request (svc_env svc) i now inp dat v"])
       (use d1 held(3) s' fresh in \<open>auto simp: new_request_def intro: no_attempt attempted\<close>)
qed

lemma Submit_keeps_linked:
  assumes "pool_inv held (pools s)" and "db_wf (db s)" and "linked (db s)" and run: "run_state (Submit svc inp) s = (out, s')"
  shows "linked (db s')"
proof (rule Submit_tables [OF assms(1) run])
  assume "relay_requests (db s') = relay_requests (db s)" "tx_attempts (db s') = tx_attempts (db s)"
  then show ?thesis using assms(3) linked_tables by blast
next
  fix rq assume "relay_requests (db s') = relay_requests (db s) @ [rq]" "tx_attempts (db s') = tx_attempts (db s)"
    "r_id rq \<notin> r_id ` set (relay_requests (db s))" "r_status rq \<in> {ReqPending, ReqRejected}"
  then show ?thesis by (rule linked_new_request [OF assms(3,2)])
next
  fix rq att assume "relay_requests (db s') = relay_requests (db s) @ [rq]" "tx_attempts (db s') = tx_attempts (db s) @ [att]"
    "r_id rq \<notin> r_id ` set (relay_requests (db s))" "t_request_id att = r_id rq" "r_status rq = request_of (t_status att)"
  then show ?thesis by (rule linked_new_attempt [OF assms(3,2)])
qed

end

section \<open>The watcher\<close>

definition same_attempt :: "pendingAttempt \<Rightarrow> attempt_row \<Rightarrow> bool" where
  "same_attempt p t \<longleftrightarrow> pa_attemptID p = t_id t \<and> pa_requestID p = t_request_id t"

context watcher
begin

lemma process_linked:
  assumes "data_ok (db s)" and "linked (db s)" and "t \<in> set (tx_attempts (db s))" and "same_attempt p t"
  shows "linked (db (process_state E webhooks p s))"
proof (cases rule: process_state_cases [of p s])
  case (unresolved w)
  then show ?thesis using assms(2) by simp
next
  case (resolved rc w1 logs reason now d1 d2 w)
  from receipt_update_Inr [OF resolved(2)] obtain bn gas price stored where
    d1: "d1 = (db s)\<lparr>tx_attempts := update_rows t_id (pa_attemptID p)
        (set_receipt (fst (outcome_statuses rc)) bn gas price stored reason) (tx_attempts (db s))\<rparr>" by metis
  have st: "snd (outcome_statuses rc) = request_of (fst (outcome_statuses rc))" by (simp add: outcome_statuses_def)
  have "linked d2"
  proof (rule linked_resolve [OF assms(2,3)])
    show "distinct (map t_id (tx_attempts (db s)))" using assms(1) by (simp add: data_ok_def db_wf_def)
    show "t_id t = pa_attemptID p" "t_request_id t = pa_requestID p" using assms(4) by (simp_all add: same_attempt_def)
    show "tx_attempts d2 = update_rows t_id (pa_attemptID p)
        (set_receipt (fst (outcome_statuses rc)) bn gas price stored reason) (tx_attempts (db s))"
      using notified_frame [OF resolved(3)] d1 by simp
    show "relay_requests d2 = update_rows r_id (pa_requestID p)
        (set_request_status (request_of (fst (outcome_statuses rc))) now) (relay_requests (db s))"
      using notified_frame [OF resolved(3)] d1 st by (simp add: update_request_status_def)
  qed (simp add: set_receipt_def)
  then show ?thesis using resolved(4) by simp
qed

lemma process_same_attempt:
  assumes "t \<in> set (tx_attempts (db s))" and "same_attempt q t"
  shows "\<exists>t' \<in> set (tx_attempts (db (process_state E webhooks p s))). same_attempt q t'"
proof (cases rule: process_state_cases [of p s])
  case (unresolved w)
  then show ?thesis using assms by auto
next
  case (resolved rc w1 logs reason now d1 d2 w)
  from receipt_update_Inr [OF resolved(2)] obtain bn gas price stored where
    d1: "d1 = (db s)\<lparr>tx_attempts := update_rows t_id (pa_attemptID p)
        (set_receipt (fst (outcome_statuses rc)) bn gas price stored reason) (tx_attempts (db s))\<rparr>" by metis
  let ?f = "set_receipt (fst (outcome_statuses rc)) bn gas price stored reason"
  let ?t = "if t_id t = pa_attemptID p then ?f t else t"
  have "?t \<in> set (tx_attempts d2)" using notified_frame [OF resolved(3)] d1 assms(1) by (auto simp: update_rows_def)
  moreover have "same_attempt q ?t" using assms(2) by (simp add: same_attempt_def set_receipt_def)
  ultimately show ?thesis using resolved(4) by auto
qed

lemma process_fold_linked:
  assumes "data_ok (db s)" and "linked (db s)" and "\<forall>p \<in> set ps. \<exists>t \<in> set (tx_attempts (db s)). same_attempt p t"
  shows "linked (db (fold (process_state E webhooks) ps s))"
  using assms
proof (induction ps arbitrary: s)
  case (Cons p ps)
  let ?s = "process_state E webhooks p s"
  have "linked (db ?s)" using process_linked Cons.prems by (metis list.set_intros(1))
  moreover have "\<forall>q \<in> set ps. \<exists>t \<in> set (tx_attempts (db ?s)). same_attempt q t"
    using Cons.prems(3) process_same_attempt by (metis list.set_intros(2))
  ultimately show ?case using Cons.IH [of ?s] process_keeps [OF Cons.prems(1)] by simp
qed simp

lemma tick_linked:
  assumes "data_ok (db s)" and "linked (db s)" and "run_state (Watcher_tick E webhooks b) s = (r, s')"
  shows "linked (db s')"
proof (cases rule: tick_run [of b s])
  case (handled n w)
  have "\<forall>p \<in> set (inflight_batch (nat b) (db s)). \<exists>t \<in> set (tx_attempts (db s)). same_attempt p t"
    using inflight_batch_match by (metis still_inflight_def same_attempt_def)
  with process_fold_linked [of "s\<lparr>world := w\<rparr>"] assms handled show ?thesis by auto
qed (use assms in simp)

end

lemma Watcher_Run_linked:
  fixes s :: "('w, 'z) pool_state_scheme"
  assumes "data_ok (db s)" and "linked (db s)" and "run_state (Watcher_Run (txmill_watcher E d b) n) s = (r, s')"
  shows "linked (db s') \<and> data_ok (db s') \<and> pools s' = pools s"
proof -
  let ?P = "\<lambda>x. linked (db x) \<and> data_ok (db x) \<and> pools x = pools s"
  have "?P y" if "?P x" "run_state (Watcher_tick E (Some (Enqueue E)) b) x = (t, y)" for x t and y :: "('w, 'z) pool_state_scheme"
    using that txw.tick_linked [of x E b t y] txw.tick_keeps [of x E b t y] by simp
  then show ?thesis
    by (rule run_ticker_inv [where P = ?P, OF _ _ assms(3) [unfolded Watcher_Run_txmill]]) (simp_all add: assms)
qed

text \<open>When nothing is in flight, no request is submitted.\<close>

lemma linked_not_submitted:
  assumes "linked d" and "\<forall>t \<in> set (tx_attempts d). \<not> inflight t" and "rq \<in> set (relay_requests d)"
  shows "r_status rq \<noteq> ReqSubmitted"
proof
  assume rq: "r_status rq = ReqSubmitted"
  with assms(1,3) obtain t where t: "t \<in> set (tx_attempts d)" "t_request_id t = r_id rq" by (force simp: linked_def)
  with assms(1,3) rq have "request_of (t_status t) = ReqSubmitted" by (metis linked_def)
  then have "inflight t" by (cases "t_status t") (simp_all add: inflight_def)
  with t assms(2) show False by blast
qed

end
