(* ===== verification/Relay_Steps.thy ===== *)
theory Relay_Steps
  imports Relay_Consistency
begin

text \<open>
  Concurrent relays. HTTP handlers run \<open>Submit\<close> in parallel, beside the receipt watcher and
  the webhook worker. Here \<open>Submit\<close> is cut into its atomic actions (a critical section of the
  pool, a database statement or transaction, a call to the node), a configuration holds any number
  of threads over the shared state with a log of the accepted broadcasts, and a step relation
  interleaves them. Run alone, the actions are \<open>Submit\<close> itself.
\<close>

section \<open>The actions of Submit\<close>

datatype pc =
    PStart
  | PLoad string
  | PInstall string "Signer list"
  | PCheckout string
  | PEstimate string ref
  | PPrice string ref Signer uint64
  | PDraw string ref Signer uint64 int
  | PSign string ref Signer uint64 int uint64
  | PRecord string ref Signer SignedTx int
  | PSend string ref Signer SignedTx string
  | PMark string ref Signer SignedTx string
  | PFire string ref Signer SignedTx
  | PRewind ref "string option" error
  | PFailAttempt ref string error
  | PReject string "ref option" error
  | PRejectFire string "ref option" error
  | PRelease ref "SubmitResult res"
  | PDone "SubmitResult res"

text \<open>Leaving \<open>Submit\<close>: the deferred release runs when a signer was checked out.\<close>

definition leave :: "ref option \<Rightarrow> SubmitResult res \<Rightarrow> pc" where
  "leave h out = (case h of None \<Rightarrow> PDone out | Some r \<Rightarrow> PRelease r out)"

definition submit_result :: "'w env \<Rightarrow> string \<Rightarrow> address \<Rightarrow> SignedTx \<Rightarrow> SubmitResult" where
  "submit_result E requestID a stx = \<lparr>sr_RequestID = requestID, sr_TxHash = txHash E stx, sr_Signer = a\<rparr>"

fun submit_step :: "('w, 'z) Service \<Rightarrow> SubmitInput \<Rightarrow> pc \<Rightarrow> ('w, 'z, pc) pool_op" where
  "submit_step svc inp PStart =
     (if in_ChainID inp \<noteq> word_of_int (chainID (svc_env svc)) then ret (PDone (Inl ErrChainIDMismatch))
      else do {
        late \<leftarrow> (if 0 < in_Deadline inp
                then do { t \<leftarrow> ext (timeNow (svc_env svc)); ret (in_Deadline inp < t div 10 ^ 9) } else ret False);
        (if late then ret (PDone (Inl ErrPastDeadline))
         else attempt (insertRequest (svc_env svc) inp)
                (\<lambda>e. ret (PDone (Inl (Wrap ''insert request'' e)))) (\<lambda>i. ret (PLoad i))) })"
| "submit_step svc inp (PLoad i) =
     attempt (svc_fetch svc (in_AppID inp))
       (\<lambda>e. ret (if is_panic e then PDone (Inl e) else PReject i None (Wrap ''load signer pool'' e)))
       (\<lambda>x. ret (case x of None \<Rightarrow> PCheckout i | Some ss \<Rightarrow> PInstall i ss))"
| "submit_step svc inp (PInstall i ss) = do { Load_install (in_AppID inp) ss; ret (PCheckout i) }"
| "submit_step svc inp (PCheckout i) =
     attempt (Pool_Checkout (svc_env svc) (in_AppID inp)) (\<lambda>e. ret (PReject i None (Wrap ''checkout'' e))) (\<lambda>r. ret (PEstimate i r))"
| "submit_step svc inp (PEstimate i r) = do {
     p \<leftarrow> reads pools;
     attempt (gas_limit (svc_env svc) inp (sg_Address (heap p ! r)))
       (\<lambda>e. ret (PReject i (Some r) (Wrap ''estimate gas'' e))) (\<lambda>g. ret (PPrice i r (heap p ! r) g)) }"
| "submit_step svc inp (PPrice i r sg g) =
     attempt (SuggestGasPrice (svc_env svc))
       (\<lambda>e. ret (PReject i (Some r) (Wrap ''suggest gas price'' e))) (\<lambda>price. ret (PDraw i r sg g price))"
| "submit_step svc inp (PDraw i r sg g price) = do { n \<leftarrow> draw_nonce r; ret (PSign i r sg g price n) }"
| "submit_step svc inp (PSign i r sg g price n) =
     attempt (ret (SignTx (svc_env svc) (relay_tx inp n g price) (sg_Key sg)))
       (\<lambda>e. ret (PRewind r None (Wrap ''sign'' e))) (\<lambda>stx. ret (PRecord i r sg stx price))"
| "submit_step svc inp (PRecord i r sg stx price) =
     attempt (insertAttempt (svc_env svc) i (sg_Address sg) (tx_nonce (payload_tx stx)) (txHash (svc_env svc) stx) price)
       (\<lambda>e. ret (PRewind r None (Wrap ''insert attempt'' e))) (\<lambda>aid. ret (PSend i r sg stx aid))"
| "submit_step svc inp (PSend i r sg stx aid) =
     attempt (SendTransaction (svc_env svc) stx)
       (\<lambda>e. ret (PRewind r (Some aid) (Wrap ''submit'' e))) (\<lambda>_. ret (PMark i r sg stx aid))"
| "submit_step svc inp (PMark i r sg stx aid) =
     attempt (markSubmitted (svc_env svc) i aid)
       (\<lambda>e. ret (PRelease r (Inl (Wrap ''mark submitted'' e)))) (\<lambda>_. ret (PFire i r sg stx))"
| "submit_step svc inp (PFire i r sg stx) = do {
     fireWebhook svc i;
     ret (PRelease r (Inr (submit_result (svc_env svc) i (sg_Address sg) stx))) }"
| "submit_step svc inp (PRewind r a e) = do {
     give_back_nonce r;
     ret (case a of None \<Rightarrow> PRelease r (Inl e) | Some aid \<Rightarrow> PFailAttempt r aid e) }"
| "submit_step svc inp (PFailAttempt r aid e) = do {
     markAttemptStatus (svc_env svc) aid AttFailed;
     ret (PRelease r (Inl e)) }"
| "submit_step svc inp (PReject i h e) =
     attempt (db_exec (svc_env svc) (\<lambda>now d. Inr (update_request_status ReqRejected now i d)))
       (\<lambda>_. ret (leave h (Inl e))) (\<lambda>_. ret (PRejectFire i h e))"
| "submit_step svc inp (PRejectFire i h e) = do { fireWebhook svc i; ret (leave h (Inl e)) }"
| "submit_step svc inp (PRelease r out) = do { Pool_Release r; ret (PDone out) }"
| "submit_step svc inp (PDone out) = ret (PDone out)"

section \<open>A thread alone\<close>

fun run_thread :: "('w, 'z) Service \<Rightarrow> SubmitInput \<Rightarrow> nat \<Rightarrow> pc \<Rightarrow> ('w, 'z, pc) pool_op" where
  "run_thread svc inp 0 p = ret p"
| "run_thread svc inp (Suc n) p = do { p' \<leftarrow> submit_step svc inp p; run_thread svc inp n p' }"

section \<open>Threads over the shared state\<close>

record ('w, 'z) config =
  threads :: "(SubmitInput \<times> pc) list"
  shared :: "('w, 'z) pool_state_scheme"
  accepted :: "(ref \<times> SignedTx) list"

text \<open>The signer a thread has checked out.\<close>

fun holds :: "pc \<Rightarrow> ref option" where
  "holds (PEstimate i r) = Some r"
| "holds (PPrice i r sg g) = Some r"
| "holds (PDraw i r sg g price) = Some r"
| "holds (PSign i r sg g price n) = Some r"
| "holds (PRecord i r sg stx price) = Some r"
| "holds (PSend i r sg stx aid) = Some r"
| "holds (PMark i r sg stx aid) = Some r"
| "holds (PFire i r sg stx) = Some r"
| "holds (PRewind r a e) = Some r"
| "holds (PFailAttempt r aid e) = Some r"
| "holds (PReject i h e) = h"
| "holds (PRejectFire i h e) = h"
| "holds (PRelease r out) = Some r"
| "holds _ = None"

definition held_by :: "pc \<Rightarrow> ref multiset" where
  "held_by p = (case holds p of None \<Rightarrow> {#} | Some r \<Rightarrow> {#r#})"

definition held_of :: "(SubmitInput \<times> pc) list \<Rightarrow> ref multiset" where
  "held_of ts = sum_list (map (\<lambda>(inp, p). held_by p) ts)"

text \<open>A broadcast is accepted when the send returns without error.\<close>

definition logged :: "pc \<Rightarrow> pc \<Rightarrow> (ref \<times> SignedTx) list" where
  "logged p p' = (case (p, p') of (PSend i r sg stx aid, PMark j q sg' u bid) \<Rightarrow> [(r, stx)] | _ \<Rightarrow> [])"

text \<open>
  A step of the program: a new request arrives, a thread performs its next action, the
  watcher handles an attempt it read some time ago, or the only webhook worker handles a
  delivery it read while pending. The watcher queues its webhook after its transaction: it may do
  so right then, or at a later step, when others have acted; \<open>notify\<close> allows that at any time and
  for any request.
\<close>

inductive step :: "('w, 'z) Service \<Rightarrow> ('w, 'z) config \<Rightarrow> ('w, 'z) config \<Rightarrow> bool" for svc where
  arrive: "step svc c (c\<lparr>threads := threads c @ [(inp, PStart)]\<rparr>)"
| act: "j < length (threads c) \<Longrightarrow> threads c ! j = (inp, p) \<Longrightarrow>
    run_state (submit_step svc inp p) (shared c) = (p', s') \<Longrightarrow>
    step svc c (c\<lparr>threads := (threads c)[j := (inp, p')], shared := s', accepted := accepted c @ logged p p'\<rparr>)"
| watch: "t \<in> set (tx_attempts (db (shared c))) \<Longrightarrow> same_attempt a t \<Longrightarrow>
    wh \<in> {None, svc_webhooks svc} \<Longrightarrow>
    run_state (process (svc_env svc) wh a) (shared c) = (x, s') \<Longrightarrow> step svc c (c\<lparr>shared := s'\<rparr>)"
| notify: "run_state (fireWebhook svc i) (shared c) = (u, s') \<Longrightarrow> step svc c (c\<lparr>shared := s'\<rparr>)"
| post: "v \<in> set (webhook_deliveries (db (shared c))) \<Longrightarrow> still_pending q v \<Longrightarrow>
    run_state (deliver (svc_env svc) q) (shared c) = (y, s') \<Longrightarrow> step svc c (c\<lparr>shared := s'\<rparr>)"

inductive reachable :: "('w, 'z) Service \<Rightarrow> ('w, 'z) config \<Rightarrow> ('w, 'z) config \<Rightarrow> bool" for svc where
  start: "reachable svc c c"
| next_step: "reachable svc c c1 \<Longrightarrow> step svc c1 c2 \<Longrightarrow> reachable svc c c2"

inductive_cases stepE: "step svc c c'"

definition initial :: "('w, 'z) config \<Rightarrow> bool" where
  "initial c \<longleftrightarrow> threads c = [] \<and> accepted c = [] \<and> pools (shared c) = NewPool"

section \<open>Equivalence with Submit\<close>

lemma bind_attempt:
  "State_Monad.bind (attempt m h k) f = attempt m (\<lambda>e. State_Monad.bind (h e) f) (\<lambda>x. State_Monad.bind (k x) f)"
  by (simp add: attempt_def sum.case_distrib [of "\<lambda>m. State_Monad.bind m f"] cong: sum.case_cong)

lemma run_thread_done [simp]: "run_thread svc inp n (PDone out) = ret (PDone out)"
  by (induction n) simp_all

lemma bind_if: "State_Monad.bind (if b then m else n) f = (if b then State_Monad.bind m f else State_Monad.bind n f)"
  by simp

lemma run_thread_leave:
  "run_thread svc inp (Suc n) (leave h out) =
     do { (case h of None \<Rightarrow> ret () | Some r \<Rightarrow> Pool_Release r); ret (PDone out) }"
  by (cases h) (simp_all add: leave_def)

lemma run_thread_reject:
  "run_thread svc inp (Suc (Suc (Suc n))) (PReject i h (Wrap m e)) = do {
     out \<leftarrow> reject svc i m e;
     (case h of None \<Rightarrow> ret () | Some r \<Rightarrow> Pool_Release r);
     ret (PDone out) }"
proof -
  let ?L = "\<lambda>out. do { (case h of None \<Rightarrow> ret () | Some r \<Rightarrow> Pool_Release r); ret (PDone out) }"
  have L: "run_thread svc inp (Suc k) (leave h out) = ?L out" for k out by (rule run_thread_leave)
  have "run_thread svc inp (Suc (Suc (Suc n))) (PReject i h (Wrap m e)) =
    attempt (db_exec (svc_env svc) (\<lambda>now d. Inr (update_request_status ReqRejected now i d)))
       (\<lambda>_. ?L (Inl (Wrap m e))) (\<lambda>_. do { fireWebhook svc i; ?L (Inl (Wrap m e)) })"
    by (simp only: run_thread.simps(2) [of svc inp "Suc (Suc n)"] submit_step.simps bind_attempt State_Monad.bind_assoc
        State_Monad.bind_left_identity L run_thread.simps(2) [of svc inp "Suc n" "PRejectFire i h (Wrap m e)"])
  also have "\<dots> = do { out \<leftarrow> reject svc i m e; ?L out }"
    by (simp add: reject_def markRequestStatus_def bind_attempt)
  finally show ?thesis .
qed

lemma SignTx_payload: "SignTx E tx key = Inr stx \<Longrightarrow> payload_tx stx = tx"
  by (auto simp: SignTx_def map_sum_def split: sum.splits)

lemma attempt_ext:
  "(\<And>e. h e = h' e) \<Longrightarrow> (\<And>x. k x = k' x) \<Longrightarrow> attempt m h k = attempt m h' k'"
  by (metis ext)

lemma bind_ext: "(\<And>x. f x = g x) \<Longrightarrow> State_Monad.bind m f = State_Monad.bind m g"
  by (metis ext)

lemma run_thread_release:
  "run_thread svc inp (Suc n) (PRelease r out) = do { Pool_Release r; ret (PDone out) }"
  by simp

lemma run_thread_rewind:
  "run_thread svc inp (Suc (Suc (Suc n))) (PRewind r None e) = do { give_back_nonce r; Pool_Release r; ret (PDone (Inl e)) }"
  "run_thread svc inp (Suc (Suc (Suc n))) (PRewind r (Some aid) e) =
     do { give_back_nonce r; markAttemptStatus (svc_env svc) aid AttFailed; Pool_Release r; ret (PDone (Inl e)) }"
  by simp_all

lemma run_thread_mark:
  "run_thread svc inp (Suc (Suc (Suc n))) (PMark i r sg stx aid) =
     attempt (markSubmitted (svc_env svc) i aid)
       (\<lambda>e. do { Pool_Release r; ret (PDone (Inl (Wrap ''mark submitted'' e))) })
       (\<lambda>_. do { fireWebhook svc i; Pool_Release r; ret (PDone (Inr (submit_result (svc_env svc) i (sg_Address sg) stx))) })"
  by (simp add: bind_attempt)

lemma run_thread_broadcast:
  "run_thread svc inp (7 + n) (PDraw i r sg g price) = do {
     out \<leftarrow> broadcast svc inp i r sg g price; Pool_Release r; ret (PDone out) }"
proof -
  let ?E = "svc_env svc" and ?R = "\<lambda>out. do { Pool_Release r; ret (PDone out) }"
  have send: "run_thread svc inp (Suc (Suc (Suc (Suc n)))) (PSend i r sg stx aid) =
     attempt (SendTransaction ?E stx)
       (\<lambda>e. do { give_back_nonce r; markAttemptStatus ?E aid AttFailed; ?R (Inl (Wrap ''submit'' e)) })
       (\<lambda>_. attempt (markSubmitted ?E i aid) (\<lambda>e. ?R (Inl (Wrap ''mark submitted'' e)))
          (\<lambda>_. do { fireWebhook svc i; ?R (Inr (submit_result ?E i (sg_Address sg) stx)) }))" for stx aid
    by (simp only: run_thread.simps(2) [of svc inp "Suc (Suc (Suc n))" "PSend i r sg stx aid"] submit_step.simps bind_attempt
        State_Monad.bind_left_identity run_thread_mark run_thread_rewind)
  have n7: "7 + n = Suc (Suc (Suc (Suc (Suc (Suc (Suc n))))))" by simp
  show ?thesis
    unfolding n7 broadcast_def Let_def
      run_thread.simps(2) [of svc inp "Suc (Suc (Suc (Suc (Suc (Suc n)))))" "PDraw i r sg g price"]
      submit_step.simps State_Monad.bind_assoc State_Monad.bind_left_identity
  proof (rule bind_ext)
    fix nonce
    let ?k = "Suc (Suc (Suc (Suc n)))"
    show "run_thread svc inp (Suc (Suc ?k)) (PSign i r sg g price nonce) = State_Monad.bind
      (attempt (ret (SignTx ?E (relay_tx inp nonce g price) (sg_Key sg)))
       (\<lambda>e. do { give_back_nonce r; fail_wrap ''sign'' e }) (\<lambda>signed.
     attempt (insertAttempt ?E i (sg_Address sg) nonce (txHash ?E signed) price)
       (\<lambda>e. do { give_back_nonce r; fail_wrap ''insert attempt'' e }) (\<lambda>attemptID.
     attempt (SendTransaction ?E signed)
       (\<lambda>e. do { give_back_nonce r; markAttemptStatus ?E attemptID AttFailed; fail_wrap ''submit'' e }) (\<lambda>_.
     attempt (markSubmitted ?E i attemptID) (fail_wrap ''mark submitted'') (\<lambda>_. do {
     fireWebhook svc i;
     ok \<lparr>sr_RequestID = i, sr_TxHash = txHash ?E signed, sr_Signer = sg_Address sg\<rparr> }))))) ?R"
    proof (cases "SignTx ?E (relay_tx inp nonce g price) (sg_Key sg)")
      case (Inl e)
      have "run_thread svc inp (Suc (Suc ?k)) (PSign i r sg g price nonce) = run_thread svc inp (Suc ?k) (PRewind r None (Wrap ''sign'' e))"
        by (simp only: run_thread.simps(2) [of svc inp "Suc ?k" "PSign i r sg g price nonce"] submit_step.simps Inl
            attempt_ret State_Monad.bind_left_identity)
      then show ?thesis using Inl by (simp only: run_thread_rewind attempt_ret State_Monad.bind_assoc State_Monad.bind_left_identity)
    next
      case (Inr stx)
      have n: "tx_nonce (payload_tx stx) = nonce" using SignTx_payload [OF Inr] by (simp add: relay_tx_def NewTransaction_def)
      have "run_thread svc inp (Suc (Suc ?k)) (PSign i r sg g price nonce) = run_thread svc inp (Suc ?k) (PRecord i r sg stx price)"
        by (simp only: run_thread.simps(2) [of svc inp "Suc ?k" "PSign i r sg g price nonce"] submit_step.simps Inr
            attempt_ret State_Monad.bind_left_identity)
      also have "\<dots> = attempt (insertAttempt ?E i (sg_Address sg) nonce (txHash ?E stx) price)
          (\<lambda>e. run_thread svc inp ?k (PRewind r None (Wrap ''insert attempt'' e)))
          (\<lambda>aid. run_thread svc inp ?k (PSend i r sg stx aid))"
        by (simp only: run_thread.simps(2) [of svc inp ?k "PRecord i r sg stx price"] submit_step.simps n bind_attempt
            State_Monad.bind_left_identity)
      finally show ?thesis
        by (simp only: Inr attempt_ret bind_attempt send run_thread_rewind State_Monad.bind_assoc
            State_Monad.bind_left_identity submit_result_def)
    qed
  qed
qed

lemma run_thread_pos:
  "0 < k \<Longrightarrow> run_thread svc inp k p = State_Monad.bind (submit_step svc inp p) (run_thread svc inp (k - 1))"
  by (cases k) simp_all

lemma run_thread_reject_le:
  "3 \<le> k \<Longrightarrow> run_thread svc inp k (PReject i h (Wrap m e)) = do {
     out \<leftarrow> reject svc i m e;
     (case h of None \<Rightarrow> ret () | Some r \<Rightarrow> Pool_Release r);
     ret (PDone out) }"
  using run_thread_reject [of svc inp "k - 3" i h m e] by (simp add: numeral_3_eq_3 Suc_diff_Suc)

lemma run_thread_broadcast_le:
  "7 \<le> k \<Longrightarrow> run_thread svc inp k (PDraw i r sg g price) = do {
     out \<leftarrow> broadcast svc inp i r sg g price; Pool_Release r; ret (PDone out) }"
  using run_thread_broadcast [of svc inp "k - 7" i r sg g price] by simp

lemma run_thread_price:
  "8 \<le> k \<Longrightarrow> run_thread svc inp k (PPrice i r sg g) = do {
      out \<leftarrow> attempt (SuggestGasPrice (svc_env svc)) (reject svc i ''suggest gas price'') (broadcast svc inp i r sg g);
      Pool_Release r; ret (PDone out) }"
  by (simp add: run_thread_pos [of k] run_thread_reject_le run_thread_broadcast_le bind_attempt)

lemma run_thread_held:
  "9 \<le> k \<Longrightarrow> run_thread svc inp k (PEstimate i r) = do { out \<leftarrow> submit_held svc inp i r; Pool_Release r; ret (PDone out) }"
  by (simp add: run_thread_pos [of k] run_thread_price run_thread_reject_le submit_held_def Let_def bind_attempt)

lemma run_thread_checkout:
  "10 \<le> k \<Longrightarrow> run_thread svc inp k (PCheckout i) = do {
      out \<leftarrow> attempt (Pool_Checkout (svc_env svc) (in_AppID inp)) (reject svc i ''checkout'') (\<lambda>r. do {
               out \<leftarrow> submit_held svc inp i r; Pool_Release r; ret out });
      ret (PDone out) }"
  by (simp add: run_thread_pos [of k] run_thread_reject_le run_thread_held bind_attempt)

lemma run_thread_load_failed:
  "3 \<le> k \<Longrightarrow> run_thread svc inp k (if is_panic e then PDone (Inl e) else PReject i None (Wrap ''load signer pool'' e)) =
     do { out \<leftarrow> load_failed svc i e; ret (PDone out) }"
  by (simp add: load_failed_def run_thread_reject_le)

lemma attempt_assoc: "attempt (attempt m fail k) h l = attempt m h (\<lambda>x. attempt (k x) h l)"
  by (simp add: attempt_def sum.case_distrib [of "\<lambda>m. State_Monad.bind m f" for f] cong: sum.case_cong)

lemma run_thread_fetched:
  "11 \<le> k \<Longrightarrow> run_thread svc inp k (case x of None \<Rightarrow> PCheckout i | Some ss \<Rightarrow> PInstall i ss) = do {
      out \<leftarrow> attempt (case x of None \<Rightarrow> ok () | Some ss \<Rightarrow> do { Load_install (in_AppID inp) ss; ok () }) (load_failed svc i) (\<lambda>_.
             attempt (Pool_Checkout (svc_env svc) (in_AppID inp)) (reject svc i ''checkout'') (\<lambda>r. do {
               out \<leftarrow> submit_held svc inp i r; Pool_Release r; ret out }));
      ret (PDone out) }"
  by (cases x) (simp_all add: run_thread_pos [of k] run_thread_checkout attempt_def)

lemma run_thread_load:
  "12 \<le> k \<Longrightarrow> run_thread svc inp k (PLoad i) = do {
      out \<leftarrow> attempt (svc_load svc (in_AppID inp)) (load_failed svc i) (\<lambda>_.
             attempt (Pool_Checkout (svc_env svc) (in_AppID inp)) (reject svc i ''checkout'') (\<lambda>r. do {
               out \<leftarrow> submit_held svc inp i r; Pool_Release r; ret out }));
      ret (PDone out) }"
  by (simp add: run_thread_pos [of k] run_thread_load_failed run_thread_fetched svc_load_def load_with_def
      attempt_assoc bind_attempt)

lemma run_thread_Submit:
  "13 \<le> k \<Longrightarrow> run_thread svc inp k PStart = do { out \<leftarrow> Submit svc inp; ret (PDone out) }"
  by (simp add: run_thread_pos [of k] run_thread_load Submit_def Let_def bind_attempt
      if_distrib [of "\<lambda>m. State_Monad.bind m f" for f] cong: if_cong)

section \<open>A thread among others\<close>

text \<open>The actions a thread has left at most, whatever the others do in between.\<close>

fun remaining :: "pc \<Rightarrow> nat" where
  "remaining PStart = 13"
| "remaining (PLoad i) = 12"
| "remaining (PInstall i ss) = 11"
| "remaining (PCheckout i) = 10"
| "remaining (PEstimate i r) = 9"
| "remaining (PPrice i r sg g) = 8"
| "remaining (PDraw i r sg g price) = 7"
| "remaining (PSign i r sg g price n) = 6"
| "remaining (PRecord i r sg stx price) = 5"
| "remaining (PSend i r sg stx aid) = 4"
| "remaining (PMark i r sg stx aid) = 3"
| "remaining (PFire i r sg stx) = 2"
| "remaining (PRewind r a e) = 3"
| "remaining (PFailAttempt r aid e) = 2"
| "remaining (PReject i h e) = 3"
| "remaining (PRejectFire i h e) = 2"
| "remaining (PRelease r out) = 1"
| "remaining (PDone out) = 0"

lemma remaining_leave: "remaining (leave h out) \<le> 1"
  by (cases h) (simp_all add: leave_def)

lemma remaining_done: "remaining p = 0 \<longleftrightarrow> (\<exists>out. p = PDone out)"
  by (cases p) simp_all

lemma step_remaining: "remaining (fst (run_state (submit_step svc inp p) s)) \<le> remaining p - 1"
  using remaining_leave [THEN order_trans, of 2]
  by (cases p) (auto simp: run_attempt remaining_leave [simplified] case_prod_beta split: sum.split option.split)

section \<open>The steps of one thread in the program\<close>

text \<open>A thread that runs alone for some actions, with the broadcasts it logs.\<close>

fun thread_log :: "('w, 'z) Service \<Rightarrow> SubmitInput \<Rightarrow> nat \<Rightarrow> pc \<Rightarrow> ('w, 'z) pool_state_scheme \<Rightarrow> (ref \<times> SignedTx) list" where
  "thread_log svc inp 0 p s = []"
| "thread_log svc inp (Suc n) p s =
     (case run_state (submit_step svc inp p) s of (p', s') \<Rightarrow> logged p p' @ thread_log svc inp n p' s')"

lemma single_thread_reachable:
  assumes "reachable svc c0 c" and "threads c = [(inp, p)]" and "run_state (run_thread svc inp n p) (shared c) = (p', s')"
  shows "reachable svc c0 \<lparr>threads = [(inp, p')], shared = s', accepted = accepted c @ thread_log svc inp n p (shared c)\<rparr>"
  using assms
proof (induction n arbitrary: c p)
  case 0
  then have "\<lparr>threads = [(inp, p')], shared = s', accepted = accepted c @ thread_log svc inp 0 p (shared c)\<rparr> = c"
    by (cases c) simp
  with 0(1) show ?case by (simp only:)
next
  case (Suc n)
  obtain p1 s1 where r1: "run_state (submit_step svc inp p) (shared c) = (p1, s1)" by fastforce
  let ?c = "c\<lparr>threads := [(inp, p1)], shared := s1, accepted := accepted c @ logged p p1\<rparr>"
  have "step svc c ?c" using step.act [of 0 c inp p svc p1 s1] Suc.prems(2) r1 by simp
  from reachable.next_step [OF Suc.prems(1) this] have "reachable svc c0 ?c" .
  from Suc.IH [OF this, of p1] Suc.prems(3) r1 show ?case by simp
qed

end
