(* ===== verification/Relay_Guarantee.thy ===== *)
theory Relay_Guarantee
  imports Relay_Steps
begin

text \<open>
  What the actions of the relay can be relied on to do to the database. A relation that the
  statements of the service and the watcher stay within is kept by every action of a request and
  by the watcher; only the marking of an attempt as failed is left to the user of the locale.
\<close>

definition guarantees :: "(database \<Rightarrow> database \<Rightarrow> bool) \<Rightarrow> (('w, 'z) base_scheme, 'a) state \<Rightarrow> bool" where
  "guarantees R m \<longleftrightarrow> (\<forall>s. R (db s) (db (snd (run_state m s))))"

lemma guaranteesD: "guarantees R m \<Longrightarrow> run_state m s = (x, s') \<Longrightarrow> R (db s) (db s')"
  unfolding guarantees_def by (metis snd_conv)

context relay_service
begin

lemma Pool_ops_leave_db [leaves_rules]:
  "leaves db (Pool_Checkout E a)" "leaves db (draw_nonce r)" "leaves db (give_back_nonce r)" "leaves db (Pool_Release r)"
  "leaves db (gas_limit E inp adr)" "leaves db (svc_fetch svc a)" "leaves db (Load_install a ss)"
  unfolding Load_install_def Pool_Checkout_def draw_nonce_def give_back_nonce_def Pool_Release_def gas_limit_def
  by (intro leaves_rules leaves_writes pool_loader.fetch_db [OF svc_loader]; simp)+

lemma watcher_of: "wh \<in> {None, svc_webhooks svc} \<Longrightarrow> watcher wh"
  by (rule watcher.intro) (auto intro: svc_enq)

end

locale db_guarantee =
  fixes R :: "database \<Rightarrow> database \<Rightarrow> bool"
  assumes R_refl: "R d d"
    and R_trans: "R d d1 \<Longrightarrow> R d1 d2 \<Longrightarrow> R d d2"
begin

lemma leaving: "leaves db m \<Longrightarrow> guarantees R m"
  by (simp add: guarantees_def leaves_def R_refl)

lemma binds: "guarantees R m \<Longrightarrow> (\<And>a. guarantees R (f a)) \<Longrightarrow> guarantees R (State_Monad.bind m f)"
  by (auto simp: guarantees_def case_prod_beta intro: R_trans)

lemma attempts:
  "guarantees R m \<Longrightarrow> (\<And>e. guarantees R (h e)) \<Longrightarrow> (\<And>x. guarantees R (k x)) \<Longrightarrow> guarantees R (attempt m h k)"
  unfolding attempt_def by (rule binds) (auto split: sum.split)

lemma branches: "guarantees R m \<Longrightarrow> guarantees R n \<Longrightarrow> guarantees R (if b then m else n)"
  by simp

lemmas composed = binds attempts branches

lemma exec:
  assumes "\<And>now d d'. f now d = Inr d' \<Longrightarrow> R d d'"
  shows "guarantees R (db_exec E f)"
  unfolding guarantees_def
proof
  fix s show "R (db s) (db (snd (run_state (db_exec E f) s)))"
    by (cases rule: run_db_exec [of E f s]) (use assms R_refl in auto)
qed

lemma pure_exec: "(\<And>now d. R d (f now d)) \<Longrightarrow> guarantees R (db_exec E (\<lambda>now d. Inr (f now d)))"
  by (rule exec) auto

lemma insertion:
  assumes "\<And>i now d d'. f i now d = Inr d' \<Longrightarrow> R d d'"
  shows "guarantees R (db_insert E f)"
  unfolding guarantees_def
proof
  fix s show "R (db s) (db (snd (run_state (db_insert E f) s)))"
    by (cases rule: run_db_insert [of E f s]) (use assms R_refl in auto)
qed

end

locale relay_guarantee = db_guarantee R
  for R :: "database \<Rightarrow> database \<Rightarrow> bool" +
  assumes R_request_status: "R d (update_request_status rst now i d)"
    and R_attempt_status: "st \<noteq> AttFailed \<Longrightarrow> R d (update_attempt_status st i d)"
    and R_receipt: "st \<noteq> AttFailed \<Longrightarrow>
        R d (d\<lparr>tx_attempts := update_rows t_id i (set_receipt st bn gas price logs reason) (tx_attempts d)\<rparr>)"
    and R_request_row: "insert_relay_row rq d = Inr d' \<Longrightarrow> R d d'"
    and R_attempt_row: "insert_attempt_row t d = Inr d' \<Longrightarrow> R d d'"
    and R_notified: "notified i d d' \<Longrightarrow> R d d'"
begin

lemma request_inserted: "request_insert E inp i now d = Inr d' \<Longrightarrow> R d d'"
  by (erule request_insert_Inr) (rule R_request_row)

lemma attempt_inserted: "attempt_insert E q a n h g i now d = Inr d' \<Longrightarrow> R d d'"
  by (erule attempt_insert_Inr) (rule R_attempt_row)

lemma marks: "guarantees R (markSubmitted E i aid)"
  unfolding guarantees_def markSubmitted_def
proof
  fix s :: "('a, 'b) base_scheme"
  show "R (db s) (db (snd (run_state (attempt (tx_begin E) fail (\<lambda>(now, d).
     tx_two E (\<lambda>d. Inr (update_attempt_status AttSubmitted aid d))
              (\<lambda>d. Inr (update_request_status ReqSubmitted now i d)) d)) s)))"
  proof (cases rule: run_tx_begin [of E s])
    case (begun now w)
    let ?f = "\<lambda>d. Inr (update_attempt_status AttSubmitted aid d)"
    let ?g = "\<lambda>d. Inr (update_request_status ReqSubmitted now i d)"
    have "R (db s) (update_request_status ReqSubmitted now i (update_attempt_status AttSubmitted aid (db s)))"
      by (rule R_trans [OF R_attempt_status R_request_status]) simp
    with begun R_refl show ?thesis by (cases rule: run_tx_two [of E ?f ?g "db s" "s\<lparr>world := w\<rparr>"]) auto
  qed (simp add: R_refl)
qed

lemma fireWebhook:
  assumes "relay_service svc"
  shows "guarantees R (fireWebhook svc i)"
  unfolding guarantees_def
proof
  fix s
  obtain w d' where "run_state (fireWebhook svc i) s = ((), s\<lparr>world := w, db := d'\<rparr>)" "notified i (db s) d'"
    using relay_service.fireWebhook_run [OF assms, of i s] by auto
  then show "R (db s) (db (snd (run_state (fireWebhook svc i) s)))" by (simp add: R_notified)
qed

text \<open>Every action of a request but the last of a refused broadcast.\<close>

lemma step_guarantee:
  assumes svc: "relay_service svc" and "\<nexists>r aid e. p = PFailAttempt r aid e"
  shows "guarantees R (submit_step svc inp p)"
proof (cases p)
  case PStart
  show ?thesis unfolding PStart submit_step.simps insertRequest_def
    by (intro composed insertion request_inserted; (assumption | intro leaving leaves_rules))
next
  case (PRecord i r sg stx price)
  show ?thesis unfolding PRecord submit_step.simps insertAttempt_def
    by (intro composed insertion attempt_inserted; (assumption | intro leaving leaves_rules))
next
  case (PMark i r sg stx aid)
  show ?thesis unfolding PMark submit_step.simps by (intro composed marks leaving leaves_rules)
next
  case (PFire i r sg stx)
  show ?thesis unfolding PFire submit_step.simps by (intro binds fireWebhook [OF svc] leaving leaves_rules)
next
  case (PReject i h e)
  show ?thesis unfolding PReject submit_step.simps
    by (intro composed pure_exec R_request_status; (intro leaving leaves_rules)?)
next
  case (PRejectFire i h e)
  show ?thesis unfolding PRejectFire submit_step.simps by (intro binds fireWebhook [OF svc] leaving leaves_rules)
next
  case (PFailAttempt r aid e)
  with assms(2) show ?thesis by blast
qed ((simp only: submit_step.simps, (intro leaving leaves_rules relay_service.Pool_ops_leave_db [OF svc])[1])+)

lemma process_guarantee:
  assumes "watcher wh" and run: "run_state (process E wh a) s = (x, s')"
  shows "R (db s) (db s')"
proof (rule watcher.process_run [OF assms(1), of E a s])
  fix r w assume "run_state (process E wh a) s = (r, s\<lparr>world := w\<rparr>)"
  then show ?thesis using run R_refl by simp
next
  fix rc w1 logs reason now d1 d2 w
  assume u: "receipt_update E (fst (outcome_statuses rc)) rc logs reason (pa_attemptID a) (db s) = Inr d1"
    and n: "notified (pa_requestID a) (update_request_status (snd (outcome_statuses rc)) now (pa_requestID a) d1) d2"
    and r: "run_state (process E wh a) s = (Inr (), s\<lparr>world := w, db := d2\<rparr>)"
  have "fst (outcome_statuses rc) \<noteq> AttFailed" by (simp add: outcome_statuses_def)
  with u have "R (db s) d1" by (auto elim!: receipt_update_Inr intro: R_receipt)
  from R_trans [OF this R_trans [OF R_request_status R_notified [OF n]]] show ?thesis using r run by auto
qed

text \<open>The watcher, for any number of ticks.\<close>

lemma tick_guarantee:
  assumes "watcher wh"
  shows "guarantees R (Watcher_tick E wh b)"
proof -
  have p: "guarantees R (process E wh a)" for a
    unfolding guarantees_def using process_guarantee [OF assms] by (metis prod.collapse)
  have all: "guarantees R (process_all E wh ps)" for ps
    by (induction ps) (auto intro!: composed p leaving [OF leaves_return])
  show ?thesis unfolding Watcher_tick_def
    by (intro composed all leaving [OF db_query_leaves_db] leaving [OF leaves_return])
qed

lemma run_guarantee:
  assumes "guarantees R m"
  shows "guarantees R (run_ticker d m n)"
  unfolding guarantees_def
proof
  fix s
  have "R (db s) (db s')" if "run_state (run_ticker d m n) s = (r, s')" for r s'
    by (rule run_ticker_inv [where P = "\<lambda>x. R (db s) (db x)", OF _ R_refl that])
       (rule R_trans, assumption, rule guaranteesD [OF assms])
  then show "R (db s) (db (snd (run_state (run_ticker d m n) s)))" by (metis prod.collapse)
qed

end

end
