(* ===== verification/Relay_Safety.thy ===== *)
theory Relay_Safety
  imports Relay_Guarantee
begin

text \<open>
  Safety of interleaved relays, for every schedule of the threads and of the background
  workers: a signer is never in two hands and its release never blocks, the accepted nonces
  of a signer are consecutive, no transaction is broadcast before its attempt row exists, and
  the database stays well formed.
\<close>

section \<open>What a step does to the pool\<close>

text \<open>The nonce a thread has drawn and neither used nor given back.\<close>

fun in_draw :: "pc \<Rightarrow> bool" where
  "in_draw (PSign i r sg g price n) = True"
| "in_draw (PRecord i r sg stx price) = True"
| "in_draw (PSend i r sg stx aid) = True"
| "in_draw (PRewind r a e) = True"
| "in_draw _ = False"

fun pc_nonce :: "pc \<Rightarrow> uint64 option" where
  "pc_nonce (PSign i r sg g price n) = Some n"
| "pc_nonce (PRecord i r sg stx price) = Some (tx_nonce (payload_tx stx))"
| "pc_nonce (PSend i r sg stx aid) = Some (tx_nonce (payload_tx stx))"
| "pc_nonce _ = None"

text \<open>The signers a thread has read and not yet installed are for the app of its request.\<close>

fun fetched_ok :: "SubmitInput \<Rightarrow> pc \<Rightarrow> bool" where
  "fetched_ok inp (PInstall i ss) = (ss \<noteq> [] \<and> (\<forall>x \<in> set ss. sg_AppID x = in_AppID inp))"
| "fetched_ok inp _ = True"

definition threads_ok :: "(SubmitInput \<times> pc) list \<Rightarrow> bool" where
  "threads_ok ts \<longleftrightarrow> (\<forall>x \<in> set ts. fetched_ok (fst x) (snd x))"

lemma held_by_simps [simp]: "holds p = None \<Longrightarrow> held_by p = {#}" "holds p = Some r \<Longrightarrow> held_by p = {#r#}"
  by (simp_all add: held_by_def)

lemma leave_simps [simp]: "holds (leave h out) = h" "\<not> in_draw (leave h out)" "pc_nonce (leave h out) = None"
  "logged p (leave h out) = []" "fetched_ok inp (leave h out)"
  by (cases h; simp add: leave_def logged_def split: pc.split)+

lemma logged_quiet [simp]:
  "\<not> in_draw p \<Longrightarrow> logged p p' = []" "in_draw p' \<Longrightarrow> logged p p' = []"
  by (cases p; cases p'; simp add: logged_def)+

lemma db_leaves_pools [leaves_rules]:
  "leaves pools (db_exec E f)" "leaves pools (db_insert E g)" "leaves pools (tx_begin E)" "leaves pools (tx_two E u v d)"
  unfolding db_exec_def db_insert_def tx_begin_def tx_two_def tx_exec_def tx_commit_def
  by (intro leaves_rules leaves_writes; simp)+

context relay_service
begin

lemma fireWebhook_leaves_pools [leaves_rules]: "leaves pools (fireWebhook svc i)"
  unfolding leaves_def
proof
  fix s
  obtain w d' where "run_state (fireWebhook svc i) s = ((), s\<lparr>world := w, db := d'\<rparr>)" using fireWebhook_run [of i s] by auto
  then show "pools (snd (run_state (fireWebhook svc i) s)) = pools s" by simp
qed

text \<open>The actions that touch the pool, one case each; every other action leaves it alone.\<close>

lemma submit_step_kind:
  assumes run: "run_state (submit_step svc inp p) s = (p', s')"
  obtains
    (install) i ss where "p = PInstall i ss" "p' = PCheckout i" "pools s' = install (in_AppID inp) ss (pools s)"
  | (checked) i r b where "p = PCheckout i" "p' = PEstimate i r" "checkout b (in_AppID inp) (pools s) = (Inr r, pools s')"
  | (draw) i r sg g price where "p = PDraw i r sg g price" "p' = PSign i r sg g price (sg_nonce (heap (pools s) ! r))"
      "pools s' = useNonce r (pools s)"
  | (rewind) r a e where "p = PRewind r a e" "pools s' = rewindNonce r (pools s)" "holds p' = Some r" "\<not> in_draw p'"
  | (accept) i r sg stx aid where "p = PSend i r sg stx aid" "p' = PMark i r sg stx aid" "pools s' = pools s"
  | (release) r out where "p = PRelease r out" "p' = PDone out" "pools s' = release r (pools s)"
  | (quiet) "pools s' = pools s" "holds p' = holds p" "in_draw p' = in_draw p" "pc_nonce p' = None \<or> pc_nonce p' = pc_nonce p"
      "logged p p' = []"
proof (cases p)
  case PStart
  have "leaves pools (submit_step svc inp PStart)"
    unfolding submit_step.simps insertRequest_def by (intro leaves_rules)
  from leavesD [OF this run [unfolded PStart]] have "pools s' = pools s" .
  moreover have "(\<exists>i. p' = PLoad i) \<or> (\<exists>x. p' = PDone x)"
    using run PStart by (auto simp: run_attempt split: if_splits prod.splits sum.splits)
  ultimately show ?thesis using PStart by (intro quiet) (auto simp: logged_def)
next
  case (PLoad i)
  obtain x s1 where l: "run_state (svc_fetch svc (in_AppID inp)) s = (x, s1)" by fastforce
  have "pools s1 = pools s" using leavesD [OF pool_loader.fetch_pools [OF svc_loader] l] .
  then show ?thesis using run PLoad l
    by (intro quiet) (auto simp: run_attempt split: sum.splits option.splits if_splits)
next
  case (PInstall i ss)
  then show ?thesis using run by (intro install) (auto simp: Load_install_def)
next
  case (PCheckout i)
  obtain b w where co: "run_state (Pool_Checkout (svc_env svc) (in_AppID inp)) s =
      (fst (checkout b (in_AppID inp) (pools s)), s\<lparr>world := w, pools := snd (checkout b (in_AppID inp) (pools s))\<rparr>)"
    using Pool_Checkout_run [of "svc_env svc" "in_AppID inp" s] by blast
  show ?thesis
  proof (cases "checkout b (in_AppID inp) (pools s)")
    case (Pair y q)
    show ?thesis
    proof (cases y)
      case (Inl e)
      with sp.take_fail Pair have "q = pools s" by blast
      with Inl Pair co run PCheckout show ?thesis by (intro quiet) auto
    next
      case (Inr r)
      with Pair co run PCheckout show ?thesis by (intro checked) auto
    qed
  qed
next
  case (PEstimate i r)
  have "leaves pools (gas_limit E inp a)" for E :: "'w env" and a
    unfolding gas_limit_def by (intro leaves_rules)
  then have "pools s' = pools s" using run PEstimate
    by (auto simp: run_attempt split: prod.splits sum.splits dest: leavesD)
  then show ?thesis using run PEstimate by (intro quiet) (auto simp: run_attempt split: prod.splits sum.splits)
next
  case (PPrice i r sg g)
  then show ?thesis using run by (intro quiet) (auto simp: run_attempt run_ext split: prod.splits sum.splits)
next
  case (PDraw i r sg g price)
  then show ?thesis using run by (intro draw) (auto simp: draw_nonce_def UseNonce_def Let_def)
next
  case (PSign i r sg g price n)
  then show ?thesis using run
    by (intro quiet) (auto simp: run_attempt relay_tx_def NewTransaction_def split: sum.splits dest!: SignTx_payload)
next
  case (PRecord i r sg stx price)
  have "leaves pools (submit_step svc inp (PRecord i r sg stx price))"
    unfolding submit_step.simps insertAttempt_def by (intro leaves_rules)
  from leavesD [OF this] run PRecord show ?thesis
    by (intro quiet) (auto simp: run_attempt split: prod.splits sum.splits)
next
  case (PSend i r sg stx aid)
  show ?thesis
  proof (cases "fst (sendTransaction (svc_env svc) stx (world s))")
    case (Inl e)
    with PSend run show ?thesis by (intro quiet) (auto simp: run_ext)
  next
    case (Inr u)
    with PSend run show ?thesis by (intro accept) (auto simp: run_ext)
  qed
next
  case (PMark i r sg stx aid)
  have "leaves pools (submit_step svc inp (PMark i r sg stx aid))"
    unfolding submit_step.simps markSubmitted_def by (intro leaves_rules)
  from leavesD [OF this] run PMark show ?thesis
    by (intro quiet) (auto simp: run_attempt split: prod.splits sum.splits)
next
  case (PFire i r sg stx)
  have "leaves pools (submit_step svc inp (PFire i r sg stx))" unfolding submit_step.simps by (intro leaves_rules)
  from leavesD [OF this] run PFire show ?thesis by (intro quiet) (auto split: prod.splits)
next
  case (PRewind r a e)
  then show ?thesis using run by (intro rewind) (auto simp: give_back_nonce_def split: option.splits)
next
  case (PFailAttempt r aid e)
  have "leaves pools (submit_step svc inp (PFailAttempt r aid e))"
    unfolding submit_step.simps markAttemptStatus_def by (intro leaves_rules)
  from leavesD [OF this] run PFailAttempt show ?thesis by (intro quiet) (auto split: prod.splits)
next
  case (PReject i h e)
  have "leaves pools (submit_step svc inp (PReject i h e))" unfolding submit_step.simps by (intro leaves_rules)
  from leavesD [OF this] run PReject show ?thesis
    by (intro quiet) (auto simp: run_attempt split: prod.splits sum.splits)
next
  case (PRejectFire i h e)
  have "leaves pools (submit_step svc inp (PRejectFire i h e))" unfolding submit_step.simps by (intro leaves_rules)
  from leavesD [OF this] run PRejectFire show ?thesis by (intro quiet) (auto split: prod.splits)
next
  case (PRelease r out)
  then show ?thesis using run by (intro release) (auto simp: Pool_Release_def)
next
  case (PDone out)
  then show ?thesis using run by (intro quiet) auto
qed

end

text \<open>A thread only ever holds signers of its own app between reading and installing them.\<close>

context relay_service
begin

lemma submit_step_fetched:
  assumes run: "run_state (submit_step svc inp p) s = (p', s')"
  shows "fetched_ok inp p'"
proof (cases "\<exists>i. p = PLoad i")
  case True
  then obtain i where p: "p = PLoad i" by blast
  obtain x s1 where l: "run_state (svc_fetch svc (in_AppID inp)) s = (x, s1)" by fastforce
  with run p pool_loader.fetch_signers [OF svc_loader, of "in_AppID inp" s _ s1] show ?thesis
    by (auto simp: run_attempt split: sum.splits option.splits if_splits)
next
  case False
  with run show ?thesis
    by (cases p) (auto simp: run_attempt split: if_splits prod.splits sum.splits option.splits)
qed

end

section \<open>Ownership under interleaving\<close>

lemma held_of_append [simp]: "held_of (ts @ us) = held_of ts + held_of us"
  by (simp add: held_of_def)

lemma held_of_Cons [simp]: "held_of ((inp, p) # ts) = held_by p + held_of ts"
  by (simp add: held_of_def)

lemma held_of_Nil [simp]: "held_of [] = {#}"
  by (simp add: held_of_def)

definition others :: "nat \<Rightarrow> 'a list \<Rightarrow> 'a list" where
  "others j ts = take j ts @ drop (Suc j) ts"

lemma held_of_nth: "j < length ts \<Longrightarrow> ts ! j = (inp, p) \<Longrightarrow> held_of ts = held_by p + held_of (others j ts)"
  by (subst id_take_nth_drop [of j ts]) (simp_all add: others_def)

lemma held_of_upd: "j < length ts \<Longrightarrow> held_of (ts[j := (inp, p')]) = held_by p' + held_of (others j ts)"
  by (simp add: upd_conv_take_nth_drop others_def)

lemma in_held_of: "(inp, p) \<in> set ts \<Longrightarrow> holds p = Some r \<Longrightarrow> r \<in># held_of ts"
  by (induction ts) auto

lemma set_upd: "j < length ts \<Longrightarrow> set (ts[j := x]) = insert x (set (others j ts))"
  by (auto simp: upd_conv_take_nth_drop others_def)

lemma set_nth: "j < length ts \<Longrightarrow> set ts = insert (ts ! j) (set (others j ts))"
  by (subst id_take_nth_drop [of j ts]) (simp_all add: others_def)

text \<open>Two threads never hold the same signer.\<close>

lemma exclusive:
  assumes "pool_inv (held_of ts) P" and "j < length ts" and "ts ! j = (inp, p)" and "holds p = Some r"
    and "(inp', p') \<in> set (others j ts)"
  shows "holds p' \<noteq> Some r"
proof
  assume "holds p' = Some r"
  then have "r \<in># held_of (others j ts)" using assms(5) by (rule in_held_of [rotated])
  then have "2 \<le> count (held_of ts) r"
    using held_of_nth [OF assms(2,3)] assms(4) by (simp add: Suc_le_eq numeral_2_eq_2)
  with pool_inv_once [OF assms(1), of r] show False by simp
qed

lemma exclusive_nth:
  assumes "pool_inv (held_of ts) P" and "i < length ts" and "j < length ts" and "i \<noteq> j" and "holds (snd (ts ! i)) = Some r"
  shows "holds (snd (ts ! j)) \<noteq> Some r"
proof -
  have "ts ! j \<in> set (others i ts)"
  proof (cases "j < i")
    case True
    then show ?thesis using assms(2,3) by (auto simp: others_def in_set_conv_nth intro!: exI [of _ j])
  next
    case False
    then have "drop (Suc i) ts ! (j - Suc i) = ts ! j" "j - Suc i < length (drop (Suc i) ts)" using assms(2-4) by auto
    then have "ts ! j \<in> set (drop (Suc i) ts)" by (metis nth_mem)
    then show ?thesis by (simp add: others_def)
  qed
  with exclusive [OF assms(1,2), of "fst (ts ! i)" "snd (ts ! i)" r "fst (ts ! j)" "snd (ts ! j)"] assms(5)
  show ?thesis by simp
qed

lemma held_ready:
  assumes inv: "pool_inv held P" and r: "r \<in># held"
  shows "\<not> release_blocks r P \<and> (pool_apps P a = Some ap \<longrightarrow> r \<notin> set (ap_idle ap))"
proof -
  obtain rest where held: "held = add_mset r rest" using r by (metis mset_add)
  have "r \<notin> set (ap_idle ap)" if ap: "pool_apps P a = Some ap"
  proof
    assume idle: "r \<in> set (ap_idle ap)"
    from pool_inv_appD [OF inv ap] have a: "distinct (ap_signers ap)"
      "mset (ap_idle ap) + filter_mset (\<lambda>r. sg_AppID (heap P ! r) = a) held = mset (ap_signers ap)"
      "\<forall>q \<in> set (ap_signers ap). sg_AppID (heap P ! q) = a" by (auto simp: app_inv_def)
    have "r \<in> set (ap_signers ap)" using a(2) idle by (metis set_mset_mset union_iff)
    then have "sg_AppID (heap P ! r) = a" using a(3) by blast
    then have "2 \<le> count (mset (ap_signers ap)) r"
      using idle r by (simp flip: a(2)) (metis One_nat_def Suc_leI add_mono count_greater_zero_iff one_add_one set_mset_mset)
    then show False using a(1) by (metis Suc_1 distinct_count_atmost_1 not_less_eq_eq le_SucI le_refl numeral_2_eq_2 One_nat_def)
  qed
  with sp.give_ready [of r rest P] inv held show ?thesis by simp
qed

context relay_service
begin

lemma submit_step_pool_inv:
  assumes "run_state (submit_step svc inp p) s = (p', s')" and "pool_inv (held_by p + rest) (pools s)" and "fetched_ok inp p"
  shows "pool_inv (held_by p' + rest) (pools s')"
  using assms(1)
proof (cases rule: submit_step_kind)
  case (install i ss)
  with assms(2,3) show ?thesis by (simp add: pool_inv_install)
next
  case (checked i r b)
  with assms(2) sp.take_inv [of rest "pools s" b "in_AppID inp" r "pools s'"] show ?thesis by simp
next
  case (draw i r sg g price)
  with assms(2) show ?thesis by (simp add: pool_inv_useNonce)
next
  case (rewind r a e)
  with assms(2) show ?thesis by (simp add: pool_inv_rewindNonce)
next
  case (accept i r sg stx aid)
  with assms(2) show ?thesis by simp
next
  case (release r out)
  with assms(2) sp.give_inv [of r rest "pools s"] show ?thesis by simp
next
  case quiet
  with assms(2) show ?thesis by (simp add: held_by_def)
qed

lemma workers_leave_pools:
  "wh \<in> {None, svc_webhooks svc} \<Longrightarrow> run_state (process (svc_env svc) wh a) s = (x, s') \<Longrightarrow> pools s' = pools s"
  "run_state (deliver (svc_env svc) q) s = (y, s') \<Longrightarrow> pools s' = pools s"
proof -
  show "pools s' = pools s" if "wh \<in> {None, svc_webhooks svc}" "run_state (process (svc_env svc) wh a) s = (x, s')"
    by (rule watcher.process_run [OF watcher_of [OF that(1)], of "svc_env svc" a s]) (use that in auto)
  show "pools s' = pools s" if "run_state (deliver (svc_env svc) q) s = (y, s')"
    by (rule deliver_run [of "svc_env svc" q s]) (use that in auto)
qed

lemma step_threads_ok:
  assumes "step svc c c'" and "threads_ok (threads c)"
  shows "threads_ok (threads c')"
  using assms(1)
proof (cases rule: step.cases)
  case (act j inp p p' s')
  from submit_step_fetched [OF act(4)] assms(2) show ?thesis
    using act(1) set_upd [OF act(2)] set_nth [OF act(2)] by (auto simp: threads_ok_def)
qed (use assms(2) in \<open>auto simp: threads_ok_def\<close>)

lemma step_pool_inv:
  assumes "step svc c c'" and ok: "threads_ok (threads c)" and inv: "pool_inv (held_of (threads c)) (pools (shared c))"
  shows "pool_inv (held_of (threads c')) (pools (shared c'))"
  using assms(1)
proof (cases rule: step.cases)
  case (arrive inp)
  then show ?thesis using inv by simp
next
  case (act j inp p p' s')
  have "fetched_ok inp p" using ok act(2,3) by (auto simp: threads_ok_def dest!: nth_mem)
  then have "pool_inv (held_by p' + held_of (others j (threads c))) (pools s')"
    using inv held_of_nth [OF act(2,3)] by (intro submit_step_pool_inv [OF act(4)]) simp_all
  then show ?thesis using act(1) held_of_upd [OF act(2)] by simp
next
  case (watch t a wh x s')
  then show ?thesis using inv workers_leave_pools(1) [OF watch(4,5)] by simp
next
  case (notify i u s')
  then show ?thesis using inv leavesD [OF fireWebhook_leaves_pools notify(2)] by simp
next
  case (post v q y s')
  then show ?thesis using inv workers_leave_pools(2) [OF post(4)] by simp
qed

end

text \<open>Requests that race to load an app end up sharing the pool that was installed first.\<close>

context relay_service
begin

lemma submit_step_extends:
  assumes "run_state (submit_step svc inp p) s = (p', s')"
  shows "extends (pools s) (pools s')"
  using assms by (cases rule: submit_step_kind) (auto intro: extends_rules)

lemma step_extends:
  assumes "step svc c c'"
  shows "extends (pools (shared c)) (pools (shared c'))"
  using assms
proof (cases rule: step.cases)
  case (act j inp p p' s')
  then show ?thesis using submit_step_extends [OF act(4)] by simp
next
  case (watch t a wh x s')
  then show ?thesis using workers_leave_pools(1) [OF watch(4,5)] by simp
next
  case (notify i u s')
  then show ?thesis using leavesD [OF fireWebhook_leaves_pools notify(2)] by simp
next
  case (post v q y s')
  then show ?thesis using workers_leave_pools(2) [OF post(4)] by simp
qed simp

end

section \<open>Nonces under interleaving\<close>

text \<open>The nonces of the accepted broadcasts of a signer, in order.\<close>

definition spent :: "ref \<Rightarrow> (ref \<times> SignedTx) list \<Rightarrow> uint64 list" where
  "spent r log = map (\<lambda>(q, stx). tx_nonce (payload_tx stx)) (filter (\<lambda>(q, stx). q = r) log)"

definition drawn :: "(SubmitInput \<times> pc) list \<Rightarrow> ref \<Rightarrow> bool" where
  "drawn ts r \<longleftrightarrow> list_ex (\<lambda>(inp, p). in_draw p \<and> holds p = Some r) ts"

text \<open>
  A signer's counter stands at the number of its accepted broadcasts after its first nonce,
  plus one while a thread has drawn a nonce it has not broadcast yet, and that nonce is the
  one just below the counter.
\<close>

definition nonce_agrees :: "(SubmitInput \<times> pc) list \<Rightarrow> (ref \<times> SignedTx) list \<Rightarrow> Pool \<Rightarrow> ref \<Rightarrow> bool" where
  "nonce_agrees ts log P r \<longleftrightarrow>
     (\<exists>n0. consecutive n0 (spent r log) \<and>
        sg_nonce (heap P ! r) = n0 + of_nat (length (spent r log)) + (if drawn ts r then 1 else 0))"

definition nonces_ok :: "(SubmitInput \<times> pc) list \<Rightarrow> (ref \<times> SignedTx) list \<Rightarrow> Pool \<Rightarrow> bool" where
  "nonces_ok ts log P \<longleftrightarrow>
     (\<forall>q \<in> fst ` set log. q < length (heap P)) \<and>
     (\<forall>r < length (heap P). nonce_agrees ts log P r) \<and>
     (\<forall>x \<in> set ts. \<forall>r n. holds (snd x) = Some r \<longrightarrow> pc_nonce (snd x) = Some n \<longrightarrow> sg_nonce (heap P ! r) = n + 1)"

lemma spent_append [simp]: "spent r (log @ log') = spent r log @ spent r log'"
  by (simp add: spent_def)

lemma spent_single [simp]: "spent r [(q, stx)] = (if q = r then [tx_nonce (payload_tx stx)] else [])"
  by (simp add: spent_def)

lemma spent_Nil [simp]: "spent r [] = []"
  by (simp add: spent_def)

lemma spent_none: "r \<notin> fst ` set log \<Longrightarrow> spent r log = []"
  by (force simp: spent_def filter_empty_conv)

lemma drawn_nth:
  "j < length ts \<Longrightarrow> ts ! j = (inp, p) \<Longrightarrow> drawn ts r \<longleftrightarrow> in_draw p \<and> holds p = Some r \<or> drawn (others j ts) r"
  by (simp add: drawn_def list_ex_iff set_nth)

lemma drawn_upd:
  "j < length ts \<Longrightarrow> drawn (ts[j := (inp, p)]) r \<longleftrightarrow> in_draw p \<and> holds p = Some r \<or> drawn (others j ts) r"
  by (simp add: drawn_def list_ex_iff set_upd)

lemma drawn_other:
  assumes "pool_inv (held_of ts) P" and "j < length ts" and "ts ! j = (inp, p)" and "holds p = Some r"
  shows "\<not> drawn (others j ts) r"
  using exclusive [OF assms] by (auto simp: drawn_def list_ex_iff)

lemma drawn_live: "pool_inv (held_of ts) P \<Longrightarrow> drawn ts r \<Longrightarrow> r < length (heap P)"
  by (auto simp: drawn_def list_ex_iff dest!: in_held_of pool_inv_heldD)

text \<open>A step that changes no counter and no drawn nonce.\<close>

lemma nonces_ok_calm:
  assumes ok: "nonces_ok ts log P" and j: "j < length ts" "ts ! j = (inp, p)"
    and inv': "pool_inv (held_of (ts[j := (inp, p')])) P'"
    and heap: "\<And>q. q < length (heap P) \<Longrightarrow> q < length (heap P') \<and> heap P' ! q = heap P ! q"
    and live: "\<And>q x. x \<in> set ts \<Longrightarrow> holds (snd x) = Some q \<Longrightarrow> q < length (heap P)"
    and d: "\<And>q. (in_draw p' \<and> holds p' = Some q) \<longleftrightarrow> (in_draw p \<and> holds p = Some q)"
    and n: "pc_nonce p' = None \<or> pc_nonce p' = pc_nonce p \<and> holds p' = holds p"
  shows "nonces_ok (ts[j := (inp, p')]) log P'"
proof -
  let ?ts = "ts[j := (inp, p')]"
  have dr: "drawn ?ts q \<longleftrightarrow> drawn ts q" for q using drawn_upd [OF j(1)] drawn_nth [OF j] d by simp
  have "nonce_agrees ?ts log P' r" if r: "r < length (heap P')" for r
  proof (cases "r < length (heap P)")
    case True
    with ok heap [OF True] show ?thesis by (simp add: nonces_ok_def nonce_agrees_def dr)
  next
    case False
    then have "spent r log = []" using ok by (intro spent_none) (auto simp: nonces_ok_def)
    moreover have "\<not> drawn ts r" using False live by (auto simp: drawn_def list_ex_iff)
    ultimately show ?thesis by (simp add: nonce_agrees_def dr)
  qed
  moreover have "sg_nonce (heap P' ! r) = m + 1"
    if x: "x \<in> set ?ts" "holds (snd x) = Some r" "pc_nonce (snd x) = Some m" for x r m
  proof -
    from x(1) consider "x = (inp, p')" | "x \<in> set ts" using set_upd [OF j(1)] set_nth [OF j(1)] by auto
    then have "\<exists>y \<in> set ts. holds (snd y) = Some r \<and> pc_nonce (snd y) = Some m"
    proof cases
      case 1
      with x n have "pc_nonce p = Some m" "holds p = Some r" by auto
      with j show ?thesis by (intro bexI [of _ "(inp, p)"]) (auto simp: in_set_conv_nth)
    qed (use x in blast)
    then obtain y where y: "y \<in> set ts" "holds (snd y) = Some r" "pc_nonce (snd y) = Some m" by blast
    then have "sg_nonce (heap P ! r) = m + 1" using ok by (auto simp: nonces_ok_def)
    with heap live [OF y(1,2)] show ?thesis by simp
  qed
  moreover have "\<forall>q \<in> fst ` set log. q < length (heap P')" using ok heap by (auto simp: nonces_ok_def)
  ultimately show ?thesis by (simp add: nonces_ok_def)
qed

text \<open>A step that moves one signer's counter, drawn flag or log together.\<close>

lemma nonces_ok_move:
  assumes ok: "nonces_ok ts log P" and inv: "pool_inv (held_of ts) P" and j: "j < length ts" "ts ! j = (inp, p)"
    and hold: "holds p = Some r" "holds p' = Some r" and r: "r < length (heap P)"
    and heap: "length (heap P') = length (heap P)" "\<And>q. q \<noteq> r \<Longrightarrow> heap P' ! q = heap P ! q"
    and log: "\<And>q. q \<noteq> r \<Longrightarrow> spent q log' = spent q log" "fst ` set log' \<subseteq> insert r (fst ` set log)"
    and own: "nonce_agrees (ts[j := (inp, p')]) log' P' r"
    and n: "\<And>m. pc_nonce p' = Some m \<Longrightarrow> sg_nonce (heap P' ! r) = m + 1"
  shows "nonces_ok (ts[j := (inp, p')]) log' P'"
proof -
  let ?ts = "ts[j := (inp, p')]"
  have dr: "drawn ?ts q \<longleftrightarrow> drawn ts q" if "q \<noteq> r" for q
    using drawn_upd [OF j(1)] drawn_nth [OF j] hold that by simp
  have "nonce_agrees ?ts log' P' q" if "q < length (heap P')" for q
  proof (cases "q = r")
    case False
    with ok that heap log(1) [OF False] show ?thesis by (simp add: nonces_ok_def nonce_agrees_def dr)
  qed (use own in simp)
  moreover have "sg_nonce (heap P' ! q) = m + 1"
    if x: "x \<in> set ?ts" "holds (snd x) = Some q" "pc_nonce (snd x) = Some m" for x q m
  proof -
    from x(1) consider "x = (inp, p')" | "x \<in> set (others j ts)" using set_upd [OF j(1)] by auto
    then show ?thesis
    proof cases
      case 1
      with x hold n show ?thesis by simp
    next
      case 2
      with x(2) exclusive [OF inv j hold(1)] have "q \<noteq> r" by (metis prod.collapse)
      moreover from 2 have "x \<in> set ts" using set_nth [OF j(1)] by auto
      ultimately show ?thesis using ok x heap(2) by (auto simp: nonces_ok_def)
    qed
  qed
  moreover have "\<forall>q \<in> fst ` set log'. q < length (heap P')"
  proof
    fix q assume "q \<in> fst ` set log'"
    with log(2) have "q = r \<or> q \<in> fst ` set log" by blast
    with ok heap(1) r show "q < length (heap P')" unfolding nonces_ok_def by metis
  qed
  ultimately show ?thesis by (simp add: nonces_ok_def)
qed

context relay_service
begin

lemma act_nonces_ok:
  assumes ok: "nonces_ok ts log (pools s)" and inv: "pool_inv (held_of ts) (pools s)" and ts: "threads_ok ts"
    and j: "j < length ts" "ts ! j = (inp, p)" and run: "run_state (submit_step svc inp p) s = (p', s')"
  shows "nonces_ok (ts[j := (inp, p')]) (log @ logged p p') (pools s')"
proof -
  let ?P = "pools s" and ?ts = "ts[j := (inp, p')]"
  have inv': "pool_inv (held_of ?ts) (pools s')"
    using submit_step_pool_inv [OF run, of "held_of (others j ts)"] inv held_of_nth [OF j] held_of_upd [OF j(1)] ts
      nth_mem [OF j(1)] j(2) by (auto simp: threads_ok_def)
  have live: "q < length (heap ?P)" if "x \<in> set ts" "holds (snd x) = Some q" for x q
    using that pool_inv_heldD [OF inv] in_held_of by (metis prod.collapse)
  have self: "(inp, p) \<in> set ts" using j by (metis nth_mem)
  note calm = nonces_ok_calm [OF ok j inv' _ live]
  note move = nonces_ok_move [OF ok inv j]
  show ?thesis
    using run
  proof (cases rule: submit_step_kind)
    case (install i ss)
    then have lg: "logged p p' = []" by simp
    show ?thesis unfolding lg append_Nil2
      by (rule calm) (use install install_heap in auto)
  next
    case (checked i r b)
    have h: "heap (pools s') = heap ?P"
      by (rule checkout_cases [of b "in_AppID inp" ?P]) (use checked(3) in auto)
    have lg: "logged p p' = []" using checked by simp
    show ?thesis unfolding lg append_Nil2 by (rule calm) (use checked h in auto)
  next
    case (draw i r sg g price)
    have r: "r < length (heap ?P)" using live [OF self] draw(1) by simp
    have od: "\<not> drawn (others j ts) r" using drawn_other [OF inv j] draw(1) by simp
    have lg: "logged p p' = []" using draw by simp
    have "nonce_agrees ts log ?P r" using ok r by (simp add: nonces_ok_def)
    then have "nonce_agrees ?ts log (pools s') r"
      using draw r od drawn_nth [OF j] drawn_upd [OF j(1)]
      by (auto simp: nonce_agrees_def useNonce_def UseNonce_def Let_def)
    then show ?thesis unfolding lg append_Nil2
      by (intro move [of r]) (use draw r in \<open>auto simp: useNonce_def UseNonce_def Let_def\<close>)
  next
    case (rewind r a e)
    have r: "r < length (heap ?P)" using live [OF self] rewind(1) by simp
    have od: "\<not> drawn (others j ts) r" using drawn_other [OF inv j] rewind(1) by simp
    have lg: "logged p p' = []" using rewind(1) by (simp add: logged_def)
    have n: "pc_nonce p' = None" using rewind(4) by (cases p') auto
    have "nonce_agrees ts log ?P r" using ok r by (simp add: nonces_ok_def)
    then have "nonce_agrees ?ts log (pools s') r"
      using rewind r od drawn_nth [OF j] drawn_upd [OF j(1)]
      by (auto simp: nonce_agrees_def rewindNonce_def RewindNonce_def)
    then show ?thesis unfolding lg append_Nil2
      by (intro move [of r]) (use rewind r n in \<open>auto simp: rewindNonce_def\<close>)
  next
    case (accept i r sg stx aid)
    let ?n = "tx_nonce (payload_tx stx)"
    have r: "r < length (heap ?P)" using live [OF self] accept(1) by simp
    have od: "\<not> drawn (others j ts) r" using drawn_other [OF inv j] accept(1) by simp
    have lg: "logged p p' = [(r, stx)]" using accept by (simp add: logged_def)
    have cur: "sg_nonce (heap ?P ! r) = ?n + 1" using ok self accept(1) by (fastforce simp: nonces_ok_def)
    have "nonce_agrees ts log ?P r" using ok r by (simp add: nonces_ok_def)
    then obtain n0 where n0: "consecutive n0 (spent r log)" "sg_nonce (heap ?P ! r) = n0 + of_nat (length (spent r log)) + 1"
      using accept(1) drawn_nth [OF j] by (auto simp: nonce_agrees_def)
    then have n: "?n = n0 + of_nat (length (spent r log))" using cur by simp
    have "nonce_agrees ?ts (log @ [(r, stx)]) (pools s') r"
      using accept od drawn_upd [OF j(1)] consecutive_snoc [OF n0(1)] n n0(2)
      by (auto simp: nonce_agrees_def intro!: exI [of _ n0])
    then show ?thesis unfolding lg
      by (intro move [of r]) (use accept r in auto)
  next
    case (release r out)
    have lg: "logged p p' = []" using release by simp
    show ?thesis unfolding lg append_Nil2 by (rule calm) (use release in auto)
  next
    case quiet
    show ?thesis unfolding quiet(5) append_Nil2 by (rule calm) (use quiet in auto)
  qed
qed

lemma step_nonces_ok:
  assumes "step svc c c'" and ts: "threads_ok (threads c)" and inv: "pool_inv (held_of (threads c)) (pools (shared c))"
    and ok: "nonces_ok (threads c) (accepted c) (pools (shared c))"
  shows "nonces_ok (threads c') (accepted c') (pools (shared c'))"
  using assms(1)
proof (cases rule: step.cases)
  case (arrive inp)
  have "drawn (threads c @ [(inp, PStart)]) r = drawn (threads c) r" for r by (simp add: drawn_def)
  then show ?thesis using arrive ok by (auto simp: nonces_ok_def nonce_agrees_def)
next
  case (act j inp p p' s')
  then show ?thesis using act_nonces_ok [OF ok inv ts act(2-4)] by simp
next
  case (watch t a wh x s')
  then show ?thesis using ok workers_leave_pools(1) [OF watch(4,5)] by simp
next
  case (notify i u s')
  then show ?thesis using ok leavesD [OF fireWebhook_leaves_pools notify(2)] by simp
next
  case (post v q y s')
  then show ?thesis using ok workers_leave_pools(2) [OF post(4)] by simp
qed

end

section \<open>The database under interleaving\<close>

text \<open>
  What every action of the program guarantees of the database: it stays well formed, and no
  recorded transaction hash disappears.
\<close>

definition hashes :: "database \<Rightarrow> string set" where
  "hashes d = set (map t_tx_hash (tx_attempts d))"

definition grows :: "database \<Rightarrow> database \<Rightarrow> bool" where
  "grows d d' \<longleftrightarrow> (data_ok d \<longrightarrow> data_ok d') \<and> hashes d \<subseteq> hashes d'"

lemma grows_refl [simp]: "grows d d"
  by (simp add: grows_def)

lemma hashes_update [simp]:
  "hashes (update_request_status st now i d) = hashes d"
  "hashes (update_attempt_status ast i d) = hashes d"
  "hashes (update_delivery i f d) = hashes d"
  by (simp_all only: hashes_def update_request_status_frame update_delivery_frame)
     (simp add: update_attempt_status_def map_update_rows set_attempt_status_def del: set_map)

lemma grows_status [simp]:
  "grows d (update_request_status st now i d)" "grows d (update_attempt_status ast i d)"
  by (simp_all add: grows_def)

lemma grows_notified: "notified i d d' \<Longrightarrow> grows d d'"
  by (simp add: grows_def data_ok_notified hashes_def notified_frame)

lemma grows_attempt_insert:
  assumes "attempt_insert E q a n h g i now d = Inr d'"
  shows "grows d d' \<and> lowerHash E h \<in> hashes d'"
proof -
  have "hashes d' = insert (lowerHash E h) (hashes d)"
    using assms by (auto simp: hashes_def new_attempt_def elim!: attempt_insert_Inr)
  with data_ok_attempt_insert [OF assms] show ?thesis by (auto simp: grows_def)
qed

lemma data_ok_rows:
  "insert_relay_row rq d = Inr d' \<Longrightarrow> data_ok d \<Longrightarrow> data_ok d'"
  "insert_attempt_row t d = Inr d' \<Longrightarrow> data_ok d \<Longrightarrow> data_ok d'"
  "data_ok d \<Longrightarrow> data_ok (d\<lparr>tx_attempts := update_rows t_id i (set_receipt st bn gas price logs reason) (tx_attempts d)\<rparr>)"
proof -
  show "data_ok d'" if "insert_relay_row rq d = Inr d'" "data_ok d"
    using that db_wf_insert_relay [of d rq d'] by (auto simp: data_ok_def deliveries_ok_def insert_relay_row_Inr)
  show "data_ok d'" if "insert_attempt_row t d = Inr d'" "data_ok d"
    using that db_wf_insert_attempt [of d t d'] by (auto simp: data_ok_def deliveries_ok_def insert_attempt_row_Inr)
  show "data_ok (d\<lparr>tx_attempts := update_rows t_id i (set_receipt st bn gas price logs reason) (tx_attempts d)\<rparr>)" if "data_ok d"
    using that by (auto simp: data_ok_def deliveries_ok_def intro!: db_wf_attempt_update) (auto simp: update_rows_def set_receipt_def)
qed

interpretation gr: relay_guarantee grows
proof
  fix d d' d1 d2 :: database and rq t i st bn gas price logs reason
  show "grows d d1 \<Longrightarrow> grows d1 d2 \<Longrightarrow> grows d d2" by (auto simp: grows_def)
  show "grows d (d\<lparr>tx_attempts := update_rows t_id i (set_receipt st bn gas price logs reason) (tx_attempts d)\<rparr>)"
    using data_ok_rows(3) by (auto simp: grows_def hashes_def map_update_rows set_receipt_def simp del: set_map)
  show "insert_relay_row rq d = Inr d' \<Longrightarrow> grows d d'" "insert_attempt_row t d = Inr d' \<Longrightarrow> grows d d'"
    using data_ok_rows(1,2) by (auto simp: grows_def hashes_def insert_relay_row_Inr insert_attempt_row_Inr)
qed (simp_all add: grows_notified)

lemma grows_step:
  assumes "relay_service svc"
  shows "guarantees grows (submit_step svc inp p)"
proof (cases "\<exists>r aid e. p = PFailAttempt r aid e")
  case True
  then show ?thesis
    by (auto simp: markAttemptStatus_def intro!: gr.binds gr.pure_exec gr.leaving [OF leaves_return])
qed (use gr.step_guarantee [OF assms] in blast)

section \<open>Write-ahead\<close>

text \<open>Every transaction that is about to be broadcast, or was, has its attempt row.\<close>

fun sending :: "pc \<Rightarrow> SignedTx option" where
  "sending (PSend i r sg stx aid) = Some stx"
| "sending _ = None"

definition written_ahead :: "'w env \<Rightarrow> ('w, 'z) config \<Rightarrow> bool" where
  "written_ahead E c \<longleftrightarrow>
     (\<forall>stx \<in> snd ` set (accepted c). lowerHash E (txHash E stx) \<in> hashes (db (shared c))) \<and>
     (\<forall>x \<in> set (threads c). \<forall>stx. sending (snd x) = Some stx \<longrightarrow> lowerHash E (txHash E stx) \<in> hashes (db (shared c)))"

context relay_service
begin

lemma step_sending:
  assumes run: "run_state (submit_step svc inp p) s = (p', s')" and "sending p' = Some stx"
  shows "lowerHash (svc_env svc) (txHash (svc_env svc) stx) \<in> hashes (db s')"
proof (cases "\<exists>i r sg u price. p = PRecord i r sg u price")
  case True
  then obtain i r sg u price where p: "p = PRecord i r sg u price" by blast
  let ?E = "svc_env svc"
  let ?ins = "attempt_insert ?E i (sg_Address sg) (tx_nonce (payload_tx u)) (txHash ?E u) price"
  show ?thesis
  proof (cases rule: run_db_insert [of ?E ?ins s])
    case (failed e w)
    with run p assms(2) show ?thesis by (auto simp: insertAttempt_def)
  next
    case (applied aid now d' w)
    with run p assms(2) have "u = stx" "db s' = d'" by (auto simp: insertAttempt_def)
    with grows_attempt_insert [OF applied(1)] show ?thesis by simp
  qed
next
  case False
  with run assms(2) show ?thesis
    by (cases p) (auto simp: run_attempt leave_def split: if_splits prod.splits sum.splits option.splits)
qed

lemma deliver_grows:
  assumes "data_ok (db s)" and "v \<in> set (webhook_deliveries (db s))" and "still_pending q v"
    and run: "run_state (deliver E q) s = (y, s')"
  shows "data_ok (db s') \<and> hashes (db s') = hashes (db s)"
proof -
  have s': "s' = deliver_state E q s" using run by (simp add: deliver_state_def)
  have d: "distinct (map d_id (webhook_deliveries (db s)))" using assms(1) by (simp add: data_ok_def db_wf_def)
  obtain w vs where st: "s' = s\<lparr>world := w, db := (db s)\<lparr>webhook_deliveries := vs\<rparr>\<rparr>" using deliver_frame [of E q s] s' by blast
  have "moved d_id delivery_step {pd_id q} (webhook_deliveries (db s)) vs"
    using dw.item_moved [OF d assms(2,3), of E] s' [symmetric] st by simp
  from moved_data [OF this] assms(1) st show ?thesis by (simp add: data_ok_def hashes_def)
qed

lemma step_db:
  assumes "step svc c c'" and "data_ok (db (shared c))"
  shows "data_ok (db (shared c')) \<and> hashes (db (shared c)) \<subseteq> hashes (db (shared c'))"
  using assms(1)
proof (cases rule: step.cases)
  case (act j inp p p' s')
  have "grows (db (shared c)) (db s')" by (rule guaranteesD [OF grows_step [OF relay_service_axioms] act(4)])
  then show ?thesis using act(1) assms(2) by (simp add: grows_def)
next
  case (watch t a wh x s')
  then show ?thesis using gr.process_guarantee [OF watcher_of [OF watch(4)] watch(5)] assms(2) by (simp add: grows_def)
next
  case (notify i u s')
  have "grows (db (shared c)) (db s')" by (rule guaranteesD [OF gr.fireWebhook [OF relay_service_axioms] notify(2)])
  then show ?thesis using notify(1) assms(2) by (simp add: grows_def)
next
  case (post v q y s')
  then show ?thesis using deliver_grows [OF assms(2) post(2-4)] by simp
qed (use assms(2) in simp)

lemma step_written_ahead:
  assumes "step svc c c'" and "data_ok (db (shared c))" and ok: "written_ahead (svc_env svc) c"
  shows "written_ahead (svc_env svc) c'"
proof -
  let ?h = "\<lambda>stx. lowerHash (svc_env svc) (txHash (svc_env svc) stx)"
  have mono: "\<And>x. x \<in> hashes (db (shared c)) \<Longrightarrow> x \<in> hashes (db (shared c'))" using step_db [OF assms(1,2)] by auto
  from assms(1) show ?thesis
  proof (cases rule: step.cases)
    case (arrive inp)
    then show ?thesis using ok by (auto simp: written_ahead_def)
  next
    case (act j inp p p' s')
    have self: "(inp, p) \<in> set (threads c)" using act(2,3) by (metis nth_mem)
    have log: "?h stx \<in> hashes (db (shared c'))" if "stx \<in> snd ` set (accepted c')" for stx
    proof -
      from that act(1) have "stx \<in> snd ` set (accepted c) \<or> sending p = Some stx"
        by (cases p; cases p') (auto simp: logged_def)
      then show ?thesis using ok self mono by (fastforce simp: written_ahead_def)
    qed
    have "?h stx \<in> hashes (db (shared c'))" if x: "x \<in> set (threads c')" "sending (snd x) = Some stx" for x stx
    proof -
      from x(1) act(1) consider "x = (inp, p')" | "x \<in> set (threads c)" using set_upd [OF act(2)] set_nth [OF act(2)] by auto
      then show ?thesis
      proof cases
        case 1
        then show ?thesis using step_sending [OF act(4)] x(2) act(1) by simp
      next
        case 2
        then show ?thesis using ok x(2) mono unfolding written_ahead_def by blast
      qed
    qed
    with log show ?thesis by (auto simp: written_ahead_def)
  next
    case (watch t a wh x s')
    then show ?thesis using ok mono by (auto simp: written_ahead_def)
  next
    case (notify i u s')
    then show ?thesis using ok mono by (auto simp: written_ahead_def)
  next
    case (post v q y s')
    then show ?thesis using ok mono by (auto simp: written_ahead_def)
  qed
qed

end

end
