(* ===== verification/Relay_Ledger.thy ===== *)
theory Relay_Ledger
  imports Relay_Safety
begin

text \<open>
  No accepted broadcast is forgotten. An attempt is marked failed only by the request that made
  it, and only after the node refused its transaction; so the attempt of an accepted
  transaction stays in flight until the watcher resolves it, in every interleaving and
  whatever moment the process dies at.
\<close>

section \<open>Attempts a request may still fail\<close>

fun owns :: "pc \<Rightarrow> string option" where
  "owns (PSend i r sg stx aid) = Some aid"
| "owns (PRewind r a e) = a"
| "owns (PFailAttempt r aid e) = Some aid"
| "owns _ = None"

lemma owns_leave [simp]: "owns (leave h out) = None" "sending (leave h out) = None"
  by (cases h; simp add: leave_def)+

text \<open>
  What a step keeps of the attempts: every row stays with its hash, and becomes failed only if
  it is one of \<open>X\<close>.
\<close>

definition kept :: "string set \<Rightarrow> database \<Rightarrow> database \<Rightarrow> bool" where
  "kept X d d' \<longleftrightarrow> (\<forall>t \<in> set (tx_attempts d). \<exists>t' \<in> set (tx_attempts d'). t_id t' = t_id t \<and> t_tx_hash t' = t_tx_hash t \<and>
     (t_status t' = AttFailed \<longrightarrow> t_status t = AttFailed \<or> t_id t \<in> X))"

definition live :: "database \<Rightarrow> string \<Rightarrow> string \<Rightarrow> bool" where
  "live d i h \<longleftrightarrow> (\<exists>t \<in> set (tx_attempts d). t_id t = i \<and> t_tx_hash t = h \<and> t_status t \<noteq> AttFailed)"

lemma kept_same: "tx_attempts d' = tx_attempts d \<Longrightarrow> kept X d d'"
  by (auto simp: kept_def)

lemma kept_live: "kept X d d' \<Longrightarrow> live d i h \<Longrightarrow> i \<notin> X \<Longrightarrow> live d' i h"
  unfolding kept_def live_def by fastforce

lemma kept_ids: "kept X d d' \<Longrightarrow> t_id ` set (tx_attempts d) \<subseteq> t_id ` set (tx_attempts d')"
  unfolding kept_def by (auto dest!: bspec) (metis image_eqI)+

lemma live_id: "live d i h \<Longrightarrow> i \<in> t_id ` set (tx_attempts d)"
  by (auto simp: live_def)

lemma kept_update_rows:
  assumes "\<And>t. t_id (f t) = t_id t \<and> t_tx_hash (f t) = t_tx_hash t \<and> (t_status (f t) = AttFailed \<longrightarrow> i \<in> X)"
    and "tx_attempts d' = update_rows t_id i f (tx_attempts d)"
  shows "kept X d d'"
  unfolding kept_def assms(2) update_rows_def set_map
proof
  fix t assume t: "t \<in> set (tx_attempts d)"
  let ?t = "if t_id t = i then f t else t"
  show "\<exists>t' \<in> (\<lambda>x. if t_id x = i then f x else x) ` set (tx_attempts d). t_id t' = t_id t \<and> t_tx_hash t' = t_tx_hash t \<and>
     (t_status t' = AttFailed \<longrightarrow> t_status t = AttFailed \<or> t_id t \<in> X)"
    by (rule bexI [of _ ?t]) (use assms(1) [of t] t in auto)
qed

lemma kept_attempt_status: "st \<noteq> AttFailed \<or> i \<in> X \<Longrightarrow> kept X d (update_attempt_status st i d)"
  by (rule kept_update_rows [of "set_attempt_status st" i]) (auto simp: update_attempt_status_def set_attempt_status_def)

lemma kept_receipt:
  "st \<noteq> AttFailed \<Longrightarrow>
     kept X d (d\<lparr>tx_attempts := update_rows t_id i (set_receipt st bn gas price logs reason) (tx_attempts d)\<rparr>)"
  by (rule kept_update_rows [of "set_receipt st bn gas price logs reason" i]) (auto simp: set_receipt_def)

lemma kept_attempt_row: "insert_attempt_row t d = Inr d' \<Longrightarrow> kept X d d'"
  by (auto simp: kept_def insert_attempt_row_Inr)

interpretation kp: relay_guarantee "kept X"
proof
  fix d d1 d2 show "kept X d d1 \<Longrightarrow> kept X d1 d2 \<Longrightarrow> kept X d d2" unfolding kept_def by fastforce
qed (auto intro: kept_same kept_attempt_status kept_receipt kept_attempt_row
    simp: update_request_status_def insert_relay_row_Inr notified_frame)

lemma inserted_live:
  assumes "attempt_insert E q a n h g i now d = Inr d'"
  shows "i \<notin> t_id ` set (tx_attempts d) \<and> live d' i (lowerHash E h)"
  using assms by (auto simp: live_def insert_attempt_row_Inr new_attempt_def elim!: attempt_insert_Inr)

section \<open>What an action does to the attempts\<close>

context relay_service
begin

lemma submit_step_owns:
  assumes run: "run_state (submit_step svc inp p) s = (p', s')"
  obtains
    (recorded) i r sg stx price aid where "p = PRecord i r sg stx price" "p' = PSend i r sg stx aid"
      "aid \<notin> t_id ` set (tx_attempts (db s))" "live (db s') aid (lowerHash (svc_env svc) (txHash (svc_env svc) stx))" "kept {} (db s) (db s')"
  | (accept) i r sg stx aid where "p = PSend i r sg stx aid" "p' = PMark i r sg stx aid" "db s' = db s"
  | (quiet) X where "owns p' = owns p \<or> owns p' = None" "sending p' = None" "logged p p' = []"
      "kept X (db s) (db s')" "\<forall>i \<in> X. owns p = Some i"
proof -
  have k: "kept {} (db s) (db s')" if "\<nexists>r aid e. p = PFailAttempt r aid e"
    by (rule guaranteesD [OF kp.step_guarantee [OF relay_service_axioms that] run])
  consider (rec) i r sg stx price where "p = PRecord i r sg stx price" | (send) i r sg stx aid where "p = PSend i r sg stx aid"
    | (fail) r aid e where "p = PFailAttempt r aid e"
    | (other) "\<nexists>r aid e. p = PFailAttempt r aid e" "\<nexists>i r sg stx price. p = PRecord i r sg stx price" "\<nexists>i r sg stx aid. p = PSend i r sg stx aid"
    by blast
  then show ?thesis
  proof cases
    case rec
    let ?E = "svc_env svc"
    let ?ins = "attempt_insert ?E i (sg_Address sg) (tx_nonce (payload_tx stx)) (txHash ?E stx) price"
    show ?thesis
    proof (cases rule: run_db_insert [of ?E ?ins s])
      case (failed e w)
      with run rec have "p' = PRewind r None (Wrap ''insert attempt'' e)" by (simp add: insertAttempt_def)
      with rec k show ?thesis by (intro quiet [of "{}"]) auto
    next
      case (applied aid now d' w)
      with run rec inserted_live [OF applied(1)] k show ?thesis by (intro recorded) (auto simp: insertAttempt_def)
    qed
  next
    case send
    then show ?thesis
    proof (cases "fst (sendTransaction (svc_env svc) stx (world s))")
      case (Inl e)
      with run send have "p' = PRewind r (Some aid) (Wrap ''submit'' e)" by (auto simp: run_ext)
      with send k show ?thesis by (intro quiet [of "{}"]) (auto simp: logged_def)
    next
      case (Inr u)
      with run send show ?thesis by (intro accept) (auto simp: run_ext)
    qed
  next
    case fail
    have "guarantees (kept {aid}) (submit_step svc inp p)"
      unfolding fail submit_step.simps markAttemptStatus_def
      by (intro kp.binds kp.pure_exec kept_attempt_status kp.leaving [OF leaves_return]) simp
    from guaranteesD [OF this run] show ?thesis
      using run fail by (intro quiet [of "{aid}"]) (auto split: prod.splits)
  next
    case other
    have "(owns p' = owns p \<or> owns p' = None) \<and> sending p' = None \<and> logged p p' = []"
      using run other
      by (cases p) (auto simp: run_attempt logged_def split: if_splits prod.splits sum.splits option.splits)
    with k [OF other(1)] show ?thesis by (intro quiet [of "{}"]) auto
  qed
qed

end

section \<open>The ledger\<close>

definition unshared :: "(SubmitInput \<times> pc) list \<Rightarrow> bool" where
  "unshared ts \<longleftrightarrow> (\<forall>j < length ts. \<forall>k < length ts. j \<noteq> k \<longrightarrow>
     owns (snd (ts ! j)) = None \<or> owns (snd (ts ! j)) \<noteq> owns (snd (ts ! k)))"

text \<open>
  The attempt of an accepted broadcast is not failed and no request owns it; an attempt that is
  owned exists, belongs to one request only, and is not failed while its broadcast is to come.
\<close>

definition ledger :: "'w env \<Rightarrow> (SubmitInput \<times> pc) list \<Rightarrow> (ref \<times> SignedTx) list \<Rightarrow> database \<Rightarrow> bool" where
  "ledger E ts log d \<longleftrightarrow>
     (\<forall>stx \<in> snd ` set log. \<exists>i. live d i (lowerHash E (txHash E stx)) \<and> (\<forall>x \<in> set ts. owns (snd x) \<noteq> Some i)) \<and>
     (\<forall>x \<in> set ts. \<forall>i. owns (snd x) = Some i \<longrightarrow> i \<in> t_id ` set (tx_attempts d) \<and>
        (\<forall>stx. sending (snd x) = Some stx \<longrightarrow> live d i (lowerHash E (txHash E stx)))) \<and>
     unshared ts"

lemma set_upd_cases:
  assumes "x \<in> set (ts[j := y])" and "j < length ts"
  obtains (new) "x = y" | (old) k where "k < length ts" "k \<noteq> j" "x = ts ! k"
  using assms by (auto simp: in_set_conv_nth nth_list_update split: if_splits)

lemma unshared_upd:
  assumes "unshared ts" and "j < length ts"
    and "owns p' = None \<or> owns p' = owns (snd (ts ! j)) \<or> (\<forall>x \<in> set ts. owns (snd x) \<noteq> owns p')"
  shows "unshared (ts[j := (inp, p')])"
  unfolding unshared_def
proof (intro allI impI)
  fix k l assume kl: "k < length (ts[j := (inp, p')])" "l < length (ts[j := (inp, p')])" "k \<noteq> l"
  then have "owns (snd (ts ! k)) = None \<or> owns (snd (ts ! k)) \<noteq> owns (snd (ts ! l))" "ts ! k \<in> set ts" "ts ! l \<in> set ts"
    using assms(1) by (auto simp: unshared_def)
  with assms(2,3) kl show "owns (snd (ts[j := (inp, p')] ! k)) = None \<or>
      owns (snd (ts[j := (inp, p')] ! k)) \<noteq> owns (snd (ts[j := (inp, p')] ! l))"
    by (cases "k = j"; cases "l = j") fastforce+
qed

text \<open>A move of one request that at most fails the attempt it owns.\<close>

lemma ledger_quiet:
  assumes led: "ledger E ts log d" and j: "j < length ts" "ts ! j = (inp, p)"
    and p': "owns p' = owns p \<or> owns p' = None" "sending p' = None"
    and k: "kept X d d'" "\<forall>i \<in> X. owns p = Some i"
  shows "ledger E (ts[j := (inp, p')]) log d'"
proof -
  have mem: "(inp, p) \<in> set ts" using j by (metis nth_mem)
  have other: "owns (snd (ts ! k)) \<noteq> Some i" if "k < length ts" "k \<noteq> j" "i \<in> X" for k i
    using that led j k(2) unfolding ledger_def unshared_def by (metis option.distinct(1) snd_conv)
  have "\<exists>i. live d' i (lowerHash E (txHash E stx)) \<and> (\<forall>x \<in> set (ts[j := (inp, p')]). owns (snd x) \<noteq> Some i)"
    if "stx \<in> snd ` set log" for stx
  proof -
    from led that obtain i where i: "live d i (lowerHash E (txHash E stx))" "\<forall>x \<in> set ts. owns (snd x) \<noteq> Some i"
      unfolding ledger_def by blast
    then have "i \<notin> X" using k(2) mem by fastforce
    moreover have "owns (snd x) \<noteq> Some i" if "x \<in> set (ts[j := (inp, p')])" for x
      using that j(1) by (rule set_upd_cases) (use i(2) mem p'(1) in auto)
    ultimately show ?thesis using kept_live [OF k(1) i(1)] by blast
  qed
  moreover have "i \<in> t_id ` set (tx_attempts d') \<and> (\<forall>stx. sending (snd x) = Some stx \<longrightarrow> live d' i (lowerHash E (txHash E stx)))"
    if x: "x \<in> set (ts[j := (inp, p')])" "owns (snd x) = Some i" for x i
    using x(1) j(1)
  proof (cases rule: set_upd_cases)
    case new
    with x(2) p' mem led kept_ids [OF k(1)] show ?thesis unfolding ledger_def by fastforce
  next
    case (old l)
    then have "x \<in> set ts" "i \<notin> X" using other x(2) by auto
    with x(2) led kept_ids [OF k(1)] kept_live [OF k(1)] show ?thesis unfolding ledger_def by blast
  qed
  moreover have "unshared (ts[j := (inp, p')])"
    using led j p'(1) by (intro unshared_upd) (auto simp: ledger_def)
  ultimately show ?thesis unfolding ledger_def by blast
qed

lemma ledger_kept:
  assumes "ledger E ts log d" and "kept {} d d'"
  shows "ledger E ts log d'"
proof -
  have l: "live d i h \<Longrightarrow> live d' i h" for i h using kept_live [OF assms(2)] by simp
  have i: "x \<in> t_id ` set (tx_attempts d) \<Longrightarrow> x \<in> t_id ` set (tx_attempts d')" for x using kept_ids [OF assms(2)] by blast
  show ?thesis using assms(1) unfolding ledger_def by (meson l i)
qed

lemma ledger_recorded:
  assumes led: "ledger E ts log d" and j: "j < length ts" "ts ! j = (inp, p)"
    and k: "kept {} d d'" and new: "aid \<notin> t_id ` set (tx_attempts d)" "live d' aid (lowerHash E (txHash E stx))"
  shows "ledger E (ts[j := (inp, PSend i r sg stx aid)]) log d'"
proof -
  let ?p = "PSend i r sg stx aid"
  have fresh: "owns (snd x) \<noteq> Some aid" if "x \<in> set ts" for x using that led new(1) unfolding ledger_def by blast
  have L: "ledger E ts log d'" by (rule ledger_kept [OF led k])
  have "\<exists>i. live d' i (lowerHash E (txHash E u)) \<and> (\<forall>x \<in> set (ts[j := (inp, ?p)]). owns (snd x) \<noteq> Some i)"
    if "u \<in> snd ` set log" for u
  proof -
    from led that obtain i where i: "live d i (lowerHash E (txHash E u))" "\<forall>x \<in> set ts. owns (snd x) \<noteq> Some i"
      unfolding ledger_def by blast
    have "owns (snd x) \<noteq> Some i" if "x \<in> set (ts[j := (inp, ?p)])" for x
      using that j(1) by (rule set_upd_cases) (use i(2) live_id [OF i(1)] new(1) in auto)
    then show ?thesis using kept_live [OF k i(1)] by blast
  qed
  moreover have "i \<in> t_id ` set (tx_attempts d') \<and> (\<forall>stx. sending (snd x) = Some stx \<longrightarrow> live d' i (lowerHash E (txHash E stx)))"
    if x: "x \<in> set (ts[j := (inp, ?p)])" "owns (snd x) = Some i" for x i
    using x(1) j(1)
  proof (cases rule: set_upd_cases)
    case new
    then show ?thesis using x(2) assms(6) live_id by auto
  next
    case (old l)
    then show ?thesis using L x(2) unfolding ledger_def by (metis nth_mem)
  qed
  moreover have "unshared (ts[j := (inp, ?p)])"
    using led j fresh by (intro unshared_upd) (auto simp: ledger_def)
  ultimately show ?thesis unfolding ledger_def by blast
qed

lemma ledger_accept:
  assumes led: "ledger E ts log d" and j: "j < length ts" "ts ! j = (inp, PSend i r sg stx aid)"
  shows "ledger E (ts[j := (inp, PMark i r sg stx aid)]) (log @ [(r, stx)]) d"
proof -
  let ?ts = "ts[j := (inp, PMark i r sg stx aid)]"
  have "ledger E ?ts log d"
    by (rule ledger_quiet [OF led j, of _ "{}"]) (simp_all add: kp.R_refl)
  moreover have "live d aid (lowerHash E (txHash E stx))"
    using led nth_mem [OF j(1)] j(2) unfolding ledger_def by force
  moreover have "owns (snd x) \<noteq> Some aid" if "x \<in> set ?ts" for x
    using that j(1)
  proof (cases rule: set_upd_cases)
    case (old k)
    have "owns (snd (ts ! j)) = None \<or> owns (snd (ts ! j)) \<noteq> owns (snd (ts ! k))"
      using led old(1,2) j(1) unfolding ledger_def unshared_def by blast
    then show ?thesis using old(3) j(2) by simp
  qed simp
  ultimately show ?thesis unfolding ledger_def by (auto simp: image_Un)
qed

context relay_service
begin

lemma act_ledger:
  assumes led: "ledger (svc_env svc) ts log (db s)" and j: "j < length ts" "ts ! j = (inp, p)"
    and run: "run_state (submit_step svc inp p) s = (p', s')"
  shows "ledger (svc_env svc) (ts[j := (inp, p')]) (log @ logged p p') (db s')"
  using run
proof (cases rule: submit_step_owns)
  case (recorded i r sg stx price aid)
  then have "logged p p' = []" by (simp add: logged_def)
  with ledger_recorded [OF led j recorded(5,3,4)] recorded(2) show ?thesis by simp
next
  case (accept i r sg stx aid)
  then have "logged p p' = [(r, stx)]" by (simp add: logged_def)
  with ledger_accept [OF led j(1)] j(2) accept show ?thesis by simp
next
  case (quiet X)
  with ledger_quiet [OF led j quiet(1,2,4,5)] show ?thesis by simp
qed

lemma step_ledger:
  assumes "step svc c c'" and led: "ledger (svc_env svc) (threads c) (accepted c) (db (shared c))"
    and ok: "data_ok (db (shared c))"
  shows "ledger (svc_env svc) (threads c') (accepted c') (db (shared c'))"
  using assms(1)
proof (cases rule: step.cases)
  case (arrive inp)
  have "unshared (threads c @ [(inp, PStart)])"
    using led unfolding ledger_def unshared_def by (auto simp: nth_append less_Suc_eq)
  with arrive led show ?thesis by (auto simp: ledger_def)
next
  case (act j inp p p' s')
  then show ?thesis using act_ledger [OF led act(2-4)] by simp
next
  case (watch t a wh x s')
  then show ?thesis using ledger_kept [OF led kp.process_guarantee [OF watcher_of [OF watch(4)] watch(5)]] by simp
next
  case (notify i u s')
  then show ?thesis using ledger_kept [OF led guaranteesD [OF kp.fireWebhook [OF relay_service_axioms] notify(2)]] by simp
next
  case (post v q y s')
  obtain w vs where "s' = (shared c)\<lparr>world := w, db := (db (shared c))\<lparr>webhook_deliveries := vs\<rparr>\<rparr>"
    using deliver_frame [of "svc_env svc" q "shared c"] post(4) by (auto simp: deliver_state_def)
  then show ?thesis using post(1) ledger_kept [OF led kept_same, of "db s'"] by simp
qed

end

end
