(* ===== verification/Alert.thy ===== *)
theory Alert
  imports Relay_Service
begin

text \<open>
  \<open>internal/alert\<close>: the notifiers an operator alert goes through. Each is a value of one
  datatype; \<open>Notify\<close> runs it. A throttled notifier keeps the time it last let a key through.
\<close>

section \<open>Notifiers\<close>

datatype Notifier =
    Discard
  | Multi "Notifier list"
  | Throttled nat Notifier int
  | Telegram string string string
  | AlertWebhook string

definition NewWebhook :: "string \<Rightarrow> Notifier" where
  "NewWebhook url = AlertWebhook url"

definition NewTelegram :: "string \<Rightarrow> string \<Rightarrow> Notifier" where
  "NewTelegram botToken chatID = Telegram ''https://api.telegram.org'' botToken chatID"

definition NewThrottled :: "nat \<Rightarrow> Notifier \<Rightarrow> int \<Rightarrow> Notifier" where
  "NewThrottled i inner interval = Throttled i inner interval"

text \<open>The \<open>sent\<close> map of each throttled notifier, by its identity; times are in nanoseconds.\<close>

record 'w alert_state = "'w pool_state" +
  sent :: "nat \<Rightarrow> string \<Rightarrow> int option"

type_synonym ('w, 'z, 'a) alert_op = "(('w, 'z) alert_state_scheme, 'a) state"

lemma sent_order [simp]:
  "s\<lparr>sent := m, world := w\<rparr> = s\<lparr>world := w, sent := m\<rparr>"
  "s\<lparr>sent := m, db := d\<rparr> = s\<lparr>db := d, sent := m\<rparr>"
  by simp_all

definition level_text :: "Level \<Rightarrow> string" where
  "level_text l = (case l of LevelInfo \<Rightarrow> ''info'' | LevelWarn \<Rightarrow> ''warn'' | LevelError \<Rightarrow> ''error'')"

definition telegram_text :: "Alert \<Rightarrow> string" where
  "telegram_text a =
     ''['' @ ToUpper (level_text (al_Level a)) @ ''] '' @ al_Title a @ [CHR 0x0A] @ al_Message a @
     concat (map (\<lambda>(k, v). [CHR 0x0A] @ k @ '': '' @ v) (al_Tags a))"

definition Telegram_Notify :: "'w env \<Rightarrow> string \<Rightarrow> string \<Rightarrow> string \<Rightarrow> Alert \<Rightarrow> ('w, 'z, unit res) op" where
  "Telegram_Notify E apiBase botToken chatID a =
     (let url = apiBase @ ''/bot'' @ botToken @ ''/sendMessage'' in
      attempt (ret (newRequest E url)) fail (\<lambda>_.
      attempt (ext (httpDo E url [(''Content-Type'', ''application/x-www-form-urlencoded'')]
                 (formEncode E [(''chat_id'', chatID), (''text'', telegram_text a)]))) fail (\<lambda>resp.
      if 400 \<le> resp_StatusCode resp
      then fail (ErrMsg (''telegram: HTTP '' @ big_String (resp_StatusCode resp) @ '': '' @ List.take 512 (resp_Body resp)))
      else ok ())))"

definition Webhook_Notify :: "'w env \<Rightarrow> string \<Rightarrow> Alert \<Rightarrow> ('w, 'z, unit res) op" where
  "Webhook_Notify E url a = do {
     t \<leftarrow> ext (timeNow E);
     attempt (ret (marshalAlert E a (t div 10 ^ 9))) fail (\<lambda>body.
     attempt (ret (newRequest E url)) fail (\<lambda>_.
     attempt (ext (httpDo E url [(''Content-Type'', ''application/json'')] body)) fail (\<lambda>resp.
     if 400 \<le> resp_StatusCode resp
     then fail (ErrMsg (''alert webhook: HTTP '' @ big_String (resp_StatusCode resp)))
     else ok ()))) }"

text \<open>Whether a throttled notifier lets a key through at a time.\<close>

definition suppressed :: "int \<Rightarrow> int \<Rightarrow> int option \<Rightarrow> bool" where
  "suppressed interval now prev = (case prev of None \<Rightarrow> False | Some t \<Rightarrow> now - t < interval)"

definition mark_sent :: "nat \<Rightarrow> string \<Rightarrow> int \<Rightarrow> (nat \<Rightarrow> string \<Rightarrow> int option) \<Rightarrow> nat \<Rightarrow> string \<Rightarrow> int option" where
  "mark_sent i k now m = m(i := (m i)(k \<mapsto> now))"

text \<open>\<open>errors.Join\<close>: nil when every part is.\<close>

definition errors_Join :: "error list \<Rightarrow> unit res" where
  "errors_Join es = (if es = [] then Inr () else Inl (Joined es))"

fun Notify :: "'w env \<Rightarrow> Notifier \<Rightarrow> Alert \<Rightarrow> ('w, 'z, unit res) alert_op"
  and notify_all :: "'w env \<Rightarrow> Notifier list \<Rightarrow> Alert \<Rightarrow> ('w, 'z, error list) alert_op" where
  "Notify E Discard a = ok ()"
| "Notify E (Multi ns) a = do { es \<leftarrow> notify_all E ns a; ret (errors_Join es) }"
| "Notify E (Throttled i inner interval) a = do {
     now \<leftarrow> ext (timeNow E);
     m \<leftarrow> reads sent;
     (if suppressed interval now (m i (al_Key a)) then ok ()
      else do { writes (\<lambda>s. s\<lparr>sent := mark_sent i (al_Key a) now (sent s)\<rparr>); Notify E inner a }) }"
| "Notify E (Telegram base token chat) a = Telegram_Notify E base token chat a"
| "Notify E (AlertWebhook url) a = Webhook_Notify E url a"
| "notify_all E [] a = ret []"
| "notify_all E (n # ns) a = do {
     r \<leftarrow> Notify E n a;
     es \<leftarrow> notify_all E ns a;
     ret (case r of Inl e \<Rightarrow> e # es | Inr _ \<Rightarrow> es) }"

section \<open>What a notification may change\<close>

lemma leaves_ext: "(\<And>s w. f (s\<lparr>world := w\<rparr>) = f s) \<Longrightarrow> leaves f (ext g)"
  by (simp add: leaves_def run_ext)

lemma transport_leaves:
  assumes "\<And>s w. f (s\<lparr>world := w\<rparr>) = f s"
  shows "leaves f (Telegram_Notify E b t c a)" "leaves f (Webhook_Notify E u a)"
  unfolding Telegram_Notify_def Webhook_Notify_def Let_def by (intro leaves_rules leaves_ext assms)+

lemma notify_all_leaves: "\<forall>n \<in> set ns. leaves f (Notify E n a) \<Longrightarrow> leaves f (notify_all E ns a)"
  by (induction ns) (auto intro!: leaves_rules)

text \<open>No notifier touches the database, the keystore files or the pools.\<close>

lemma Notify_leaves:
  assumes "\<And>s w. f (s\<lparr>world := w\<rparr>) = f s" and "\<And>s m. f (s\<lparr>sent := m\<rparr>) = f s"
  shows "leaves f (Notify E n a)"
proof (induction n)
  case (Multi ns)
  then show ?case by (auto intro!: leaves_rules notify_all_leaves)
qed (auto intro!: leaves_rules leaves_ext leaves_writes transport_leaves assms)

lemma Notify_leaves_db: "leaves db (Notify E n a)"
  by (rule Notify_leaves) simp_all

lemma Notify_leaves_pools: "leaves pools (Notify E n a)"
  by (rule Notify_leaves) simp_all

section \<open>Throttling\<close>

lemma mark_sent_same [simp]: "mark_sent i k now m i k = Some now"
  by (simp add: mark_sent_def)

lemma mark_sent_other: "j \<noteq> i \<or> k' \<noteq> k \<Longrightarrow> mark_sent i k now m j k' = m j k'"
  by (auto simp: mark_sent_def)

text \<open>The instances of \<open>Throttled\<close> inside a notifier.\<close>

primrec throttles :: "Notifier \<Rightarrow> nat set" where
  "throttles Discard = {}"
| "throttles (Multi ns) = \<Union> (set (map throttles ns))"
| "throttles (Throttled i inner interval) = insert i (throttles inner)"
| "throttles (Telegram b t c) = {}"
| "throttles (AlertWebhook u) = {}"

lemma Notify_leaves_sent: "i \<notin> throttles n \<Longrightarrow> leaves (\<lambda>s. sent s i) (Notify E n a)"
proof (induction n)
  case (Multi ns)
  then show ?case by (auto intro!: leaves_rules notify_all_leaves)
next
  case (Throttled j inner interval)
  then show ?case by (auto intro!: leaves_rules leaves_ext leaves_writes simp: mark_sent_def)
qed (auto intro!: leaves_rules transport_leaves)

text \<open>
  Go's clock readings, compared with \<open>Sub\<close>, use the monotonic clock: no call of a notifier takes
  it back.
\<close>

definition clock_mono :: "'w env \<Rightarrow> bool" where
  "clock_mono E \<longleftrightarrow> (\<forall>w. fst (timeNow E w) \<le> fst (timeNow E (snd (timeNow E w)))) \<and>
     (\<forall>u h x w. fst (timeNow E w) \<le> fst (timeNow E (snd (httpDo E u h x w))))"

abbreviation past :: "'w env \<Rightarrow> int \<Rightarrow> ('w, 'z) alert_state_scheme \<Rightarrow> bool" where
  "past E t s \<equiv> t \<le> fst (timeNow E (world s))"

lemma transport_past:
  assumes "clock_mono E"
  shows "keeps (past E t) (Telegram_Notify E b tk c a)" "keeps (past E t) (Webhook_Notify E u a)"
proof -
  have http: "keeps (past E t) (ext (httpDo E v h x))" and time: "keeps (past E t) (ext (timeNow E))" for v h x
    using assms by (auto simp: keeps_def run_ext clock_mono_def intro: order_trans)
  show "keeps (past E t) (Telegram_Notify E b tk c a)" "keeps (past E t) (Webhook_Notify E u a)"
    unfolding Telegram_Notify_def Webhook_Notify_def Let_def by (intro keeps_rules http time)+
qed

lemma notify_all_keeps: "\<forall>n \<in> set ns. keeps P (Notify E n a) \<Longrightarrow> keeps P (notify_all E ns a)"
  by (induction ns) (auto intro!: keeps_rules)

lemma Notify_past:
  assumes "clock_mono E"
  shows "keeps (past E t) (Notify E n a)"
proof (induction n)
  case (Multi ns)
  then show ?case by (auto intro!: keeps_rules notify_all_keeps)
next
  case (Throttled j inner interval)
  have "keeps (past E t) (ext (timeNow E))"
    using assms by (auto simp: keeps_def run_ext clock_mono_def intro: order_trans)
  moreover have "keeps (past E t) (writes (\<lambda>s. s\<lparr>sent := mark_sent j k now (sent s)\<rparr>))" for k now
    by (simp add: keeps_def)
  ultimately show ?case using Throttled by (auto intro!: keeps_rules)
qed (simp_all add: keeps_rules transport_past [OF assms])

text \<open>
  What happens around a notifier: an alert is sent through it, or something else runs, which has no
  access to the map and does not take the clock back.
\<close>

inductive alert_step ::
  "'w env \<Rightarrow> Notifier \<Rightarrow> ('w, 'z) alert_state_scheme \<Rightarrow> ('w, 'z) alert_state_scheme \<Rightarrow> bool" for E n where
  alerted: "run_state (Notify E n b) s = (r, s') \<Longrightarrow> alert_step E n s s'"
| elsewhere: "sent s' = sent s \<Longrightarrow> fst (timeNow E (world s)) \<le> fst (timeNow E (world s')) \<Longrightarrow> alert_step E n s s'"

text \<open>Since a key was let through at \<open>t\<close>: the clock has passed \<open>t\<close>, and so has the time kept for the key.\<close>

definition since :: "'w env \<Rightarrow> nat \<Rightarrow> string \<Rightarrow> int \<Rightarrow> ('w, 'z) alert_state_scheme \<Rightarrow> bool" where
  "since E i k t s \<longleftrightarrow> past E t s \<and> (\<exists>u. sent s i k = Some u \<and> t \<le> u)"

lemma let_through_since:
  assumes "clock_mono E" and "i \<notin> throttles inner"
    and "run_state (Notify E inner a) (s\<lparr>sent := mark_sent i k now (sent s)\<rparr>) = (r, s')" and "t \<le> now" and "past E t s"
    and "k' = k \<or> (\<exists>u. sent s i k' = Some u \<and> t \<le> u)"
  shows "since E i k' t s'"
proof -
  from leavesD [OF Notify_leaves_sent [OF assms(2)] assms(3)] have "sent s' i = mark_sent i k now (sent s) i" by simp
  moreover have "past E t s'" using keepsD [OF Notify_past [OF assms(1)] _ assms(3)] assms(5) by simp
  ultimately show ?thesis using assms(4,6) unfolding since_def by (cases "k' = k") (auto simp: mark_sent_other)
qed

lemma Throttled_since:
  assumes "clock_mono E" and "i \<notin> throttles inner" and "since E i k t s"
    and "run_state (Notify E (Throttled i inner interval) b) s = (r, s')"
  shows "since E i k t s'"
proof -
  let ?now = "fst (timeNow E (world s))" and ?s = "s\<lparr>world := snd (timeNow E (world s))\<rparr>"
  have p: "past E t ?s" "t \<le> ?now" using assms(1,3) by (auto simp: since_def clock_mono_def intro: order_trans)
  show ?thesis
  proof (cases "suppressed interval ?now (sent s i (al_Key b))")
    case True
    with assms(3,4) p(1) show ?thesis by (auto simp: run_ext since_def)
  next
    case False
    with assms(4) have "run_state (Notify E inner b) (?s\<lparr>sent := mark_sent i (al_Key b) ?now (sent ?s)\<rparr>) = (r, s')"
      by (simp add: run_ext)
    then show ?thesis by (rule let_through_since [OF assms(1,2) _ p(2,1)]) (use assms(3) in \<open>auto simp: since_def\<close>)
  qed
qed

lemma alert_steps_since:
  assumes "rtranclp (alert_step E (Throttled i inner interval)) s s'" and "clock_mono E" and "i \<notin> throttles inner" and "since E i k t s"
  shows "since E i k t s'"
  using assms(1,4)
proof (induction rule: rtranclp_induct)
  case (step s1 s2)
  from step.hyps(2) step.IH [OF step.prems] show ?case
    by cases (auto simp: since_def [of E i k t s2] dest: Throttled_since [OF assms(2,3)], auto simp: since_def)
qed

text \<open>
  After a notification that was let through at \<open>t\<close>, whatever the transports did with it and
  whatever alerts came between, the same key is silent for the interval.
\<close>

lemma Throttled_window:
  assumes "clock_mono E" and "i \<notin> throttles inner" and "\<not> suppressed interval (fst (timeNow E (world s))) (sent s i (al_Key a))"
    and "run_state (Notify E (Throttled i inner interval) a) s = (r, s1)"
    and "rtranclp (alert_step E (Throttled i inner interval)) s1 s2"
    and "fst (timeNow E (world s2)) - fst (timeNow E (world s)) < interval" and "al_Key b = al_Key a"
  shows "run_state (Notify E (Throttled i inner interval) b) s2 = (Inr (), s2\<lparr>world := snd (timeNow E (world s2))\<rparr>)"
proof -
  let ?now = "fst (timeNow E (world s))" and ?s = "s\<lparr>world := snd (timeNow E (world s))\<rparr>"
  from assms(3,4) have run: "run_state (Notify E inner a) (?s\<lparr>sent := mark_sent i (al_Key a) ?now (sent ?s)\<rparr>) = (r, s1)"
    by (simp add: run_ext)
  have "past E ?now ?s" using assms(1) by (simp add: clock_mono_def)
  then have "since E i (al_Key a) ?now s1" by (intro let_through_since [OF assms(1,2) run]) auto
  from alert_steps_since [OF assms(5,1,2) this] obtain u where "sent s2 i (al_Key a) = Some u" "?now \<le> u"
    by (auto simp: since_def)
  with assms(6,7) show ?thesis by (simp add: run_ext suppressed_def)
qed

section \<open>Fan-out\<close>

text \<open>Running the transports one after the other, with the state each leaves to the next.\<close>

fun fan_out :: "'w env \<Rightarrow> Notifier list \<Rightarrow> Alert \<Rightarrow> ('w, 'z) alert_state_scheme \<Rightarrow> unit res list \<times> ('w, 'z) alert_state_scheme" where
  "fan_out E [] a s = ([], s)"
| "fan_out E (n # ns) a s =
     (case run_state (Notify E n a) s of (r, s1) \<Rightarrow> case fan_out E ns a s1 of (rs, s2) \<Rightarrow> (r # rs, s2))"

definition failures :: "unit res list \<Rightarrow> error list" where
  "failures rs = List.map_filter (\<lambda>r. case r of Inl e \<Rightarrow> Some e | Inr _ \<Rightarrow> None) rs"

lemma failures_simps [simp]: "failures [] = []" "failures (Inl e # rs) = e # failures rs" "failures (Inr u # rs) = failures rs"
  by (simp_all add: failures_def List.map_filter_simps)

lemma notify_all_fan_out:
  "run_state (notify_all E ns a) s = (case fan_out E ns a s of (rs, s') \<Rightarrow> (failures rs, s'))"
  by (induction ns arbitrary: s) (auto split: prod.split sum.split)

lemma length_fan_out: "fan_out E ns a s = (rs, s') \<Longrightarrow> length rs = length ns"
  by (induction ns arbitrary: s rs) (auto split: prod.splits)

lemma failures_Nil: "failures rs = [] \<longleftrightarrow> (\<forall>r \<in> set rs. \<exists>u. r = Inr u)"
proof (induction rs)
  case (Cons r rs)
  then show ?case by (cases r) auto
qed simp

end
