(* ===== verification/Gas.thy ===== *)
theory Gas
  imports Alert "HOL-Library.Sublist"
begin

text \<open>
  \<open>internal/gas\<close>: the worker that tops up signers from their treasury. A tick walks the apps
  with a gas policy; for each it warns when the treasury is low and sends the refill amount
  to every signer below the minimum that was not topped up in the last minute.
\<close>

section \<open>Policies\<close>

definition recentTopupWindow :: int where "recentTopupWindow = 60 * 10 ^ 6"
definition topupGasLimit :: uint64 where "topupGasLimit = 21000"

text \<open>The thresholds are \<open>*big.Int\<close>, nil when the text of the column is not a decimal integer.\<close>

record appPolicy =
  pol_id :: string
  pol_treasury :: address
  pol_signerMinBalance :: "int option"
  pol_signerRefillAmount :: "int option"
  pol_treasuryMinBalance :: "int option"

definition policy_of :: "'w env \<Rightarrow> apps_row \<Rightarrow> appPolicy" where
  "policy_of E a =
     \<lparr>pol_id = a_id a, pol_treasury = hexToAddress E (a_treasury_address a),
      pol_signerMinBalance = SetString10 (numeric_text (a_signer_min_balance a)),
      pol_signerRefillAmount = SetString10 (numeric_text (a_signer_refill_amount a)),
      pol_treasuryMinBalance = SetString10 (numeric_text (a_treasury_min_balance a))\<rparr>"

definition has_policy :: "apps_row \<Rightarrow> bool" where
  "has_policy a = (numeric_positive (a_signer_min_balance a) \<and> numeric_positive (a_signer_refill_amount a))"

definition nil_deref :: error where
  "nil_deref = Panic ''invalid memory address or nil pointer dereference''"

section \<open>Top-ups\<close>

definition gas_listSigners :: "'w env \<Rightarrow> string \<Rightarrow> ('w, 'z, address list res) op" where
  "gas_listSigners E appID =
     attempt (db_query E (\<lambda>now d. Inr (signers_of appID d))) fail
       (\<lambda>rows. ok (map (\<lambda>r. hexToAddress E (s_address r)) rows))"

definition recent_topup :: "string \<Rightarrow> int \<Rightarrow> database \<Rightarrow> bool" where
  "recent_topup signer now d =
     list_ex (\<lambda>g. g_signer_address g = signer \<and> (g_status g = GasSubmitted \<or> g_status g = GasConfirmed) \<and>
        now - recentTopupWindow < g_submitted_at g) (gas_attempts d)"

definition hasRecentTopup :: "'w env \<Rightarrow> address \<Rightarrow> ('w, 'z, bool res) op" where
  "hasRecentTopup E signer = db_query E (\<lambda>now d. Inr (recent_topup (lowerHex E signer) now d))"

text \<open>\<open>String\<close> of a nil \<open>*big.Int\<close> is \<open><nil>\<close>, which the column refuses.\<close>

definition amount_text :: "int option \<Rightarrow> string" where
  "amount_text v = (case v of None \<Rightarrow> ''<nil>'' | Some x \<Rightarrow> big_String x)"

definition new_topup ::
  "'w env \<Rightarrow> appPolicy \<Rightarrow> uint64 \<Rightarrow> address \<Rightarrow> hash \<Rightarrow> string \<Rightarrow> int \<Rightarrow> numeric \<Rightarrow> numeric \<Rightarrow> gas_row" where
  "new_topup E p nonce signer h i now amt price =
     \<lparr>g_id = i, g_app_id = pol_id p, g_signer_address = lowerHex E signer, g_nonce = sint nonce,
      g_tx_hash = lowerHash E h, g_amount = amt, g_gas_price = price, g_status = GasSubmitted,
      g_submitted_at = now\<rparr>"

definition topup_insert ::
  "'w env \<Rightarrow> appPolicy \<Rightarrow> uint64 \<Rightarrow> int \<Rightarrow> address \<Rightarrow> hash \<Rightarrow> string \<Rightarrow> int \<Rightarrow> database \<Rightarrow> database res" where
  "topup_insert E p nonce gasPrice signer h i now d =
     (case (pgNumeric E (amount_text (pol_signerRefillAmount p)), pgNumeric E (big_String gasPrice)) of
        (Some amt, Some price) \<Rightarrow> insert_gas_row (new_topup E p nonce signer h i now amt price) d
      | _ \<Rightarrow> Inl (ErrBadValue ''invalid input syntax for type numeric''))"

definition refill ::
  "'w env \<Rightarrow> appPolicy \<Rightarrow> PrivateKey \<Rightarrow> uint64 \<Rightarrow> int \<Rightarrow> address \<Rightarrow> ('w, 'z, unit res) op" where
  "refill E p treasuryKey nonce gasPrice signer =
     attempt (ret (SignTx E (NewTransaction nonce signer (pol_signerRefillAmount p) topupGasLimit gasPrice []) treasuryKey))
       (fail_wrap ''sign'') (\<lambda>signed.
     attempt (SendTransaction E signed) (fail_wrap ''send'') (\<lambda>_.
     attempt (db_insert E (topup_insert E p nonce gasPrice signer (txHash E signed))) (\<lambda>_. ok ()) (\<lambda>_. ok ())))"

text \<open>The loop over the signers; its result lists the top-ups it logs, with their nonces.\<close>

fun refill_signers ::
  "'w env \<Rightarrow> appPolicy \<Rightarrow> PrivateKey \<Rightarrow> uint64 \<Rightarrow> int \<Rightarrow> address list \<Rightarrow> ('w, 'z, (address \<times> uint64) list res) op" where
  "refill_signers E p priv nonce gasPrice [] = ok []"
| "refill_signers E p priv nonce gasPrice (s # ss) =
     attempt (hasRecentTopup E s) (\<lambda>_. refill_signers E p priv nonce gasPrice ss) (\<lambda>recent.
     if recent then refill_signers E p priv nonce gasPrice ss
     else attempt (BalanceAt E s) (\<lambda>_. refill_signers E p priv nonce gasPrice ss) (\<lambda>bal.
     case pol_signerMinBalance p of
       None \<Rightarrow> fail nil_deref
     | Some mn \<Rightarrow>
         if mn \<le> bal then refill_signers E p priv nonce gasPrice ss
         else attempt (refill E p priv nonce gasPrice s) (\<lambda>_. refill_signers E p priv nonce gasPrice ss) (\<lambda>_.
              attempt (refill_signers E p priv (nonce + 1) gasPrice ss) fail (\<lambda>ups. ok ((s, nonce) # ups)))))"

section \<open>The worker\<close>

definition treasury_alert :: "'w env \<Rightarrow> appPolicy \<Rightarrow> int \<Rightarrow> int \<Rightarrow> Alert" where
  "treasury_alert E p tBal tMin =
     \<lparr>al_Key = ''treasury_low:'' @ pol_id p, al_Level = LevelWarn, al_Title = ''Treasury balance low'',
      al_Message = ''balance '' @ big_String tBal @ '' wei (min '' @ big_String tMin @ '' wei)'',
      al_Tags = [(''app_id'', pol_id p), (''treasury'', addrHex E (pol_treasury p))]\<rparr>"

definition processApp ::
  "'w env \<Rightarrow> Keystore \<Rightarrow> Notifier \<Rightarrow> appPolicy \<Rightarrow> ('w, 'z, (address \<times> uint64) list res) alert_op" where
  "processApp E K notifier p =
     attempt (BalanceAt E (pol_treasury p)) (fail_wrap ''treasury balance'') (\<lambda>tBal.
     case pol_treasuryMinBalance p of
       None \<Rightarrow> fail nil_deref
     | Some tMin \<Rightarrow> do {
         (if 0 < tMin \<and> tBal < tMin then do { Notify E notifier (treasury_alert E p tBal tMin); ret () } else ret ());
         attempt (gas_listSigners E (pol_id p)) (fail_wrap ''list signers'') (\<lambda>signers.
         if signers = [] then ok []
         else attempt (Keystore_Load E K (pol_treasury p)) (\<lambda>e. fail (Errorf ''load treasury key'' e)) (\<lambda>priv.
              attempt (PendingNonceAt E (pol_treasury p)) (fail_wrap ''treasury nonce'') (\<lambda>nonce.
              attempt (SuggestGasPrice E) (fail_wrap ''gas price'') (\<lambda>gasPrice.
              refill_signers E p priv nonce gasPrice signers)))) })"

text \<open>An error of an app is logged; a panic ends the process.\<close>

fun process_apps :: "'w env \<Rightarrow> Keystore \<Rightarrow> Notifier \<Rightarrow> appPolicy list \<Rightarrow> ('w, 'z, unit res) alert_op" where
  "process_apps E K notifier [] = ok ()"
| "process_apps E K notifier (p # ps) =
     attempt (processApp E K notifier p)
       (\<lambda>e. if is_panic e then fail e else process_apps E K notifier ps) (\<lambda>_. process_apps E K notifier ps)"

definition Gas_tick :: "'w env \<Rightarrow> Keystore \<Rightarrow> Notifier \<Rightarrow> ('w, 'z, unit res) alert_op" where
  "Gas_tick E K notifier =
     attempt (db_query E (\<lambda>now d. Inr (map (policy_of E) (filter has_policy (apps d)))))
       (fail_wrap ''list apps'') (process_apps E K notifier)"

section \<open>The worker\<close>

record 'w Gas_Worker =
  gw_env :: "'w env"
  gw_keystore :: Keystore
  gw_notifier :: Notifier
  gw_interval :: int

text \<open>A nil notifier is replaced by one that discards.\<close>

definition Gas_NewWorker :: "'w env \<Rightarrow> Keystore \<Rightarrow> Notifier option \<Rightarrow> int \<Rightarrow> 'w Gas_Worker" where
  "Gas_NewWorker E K notifier interval =
     \<lparr>gw_env = E, gw_keystore = K, gw_notifier = (case notifier of None \<Rightarrow> Discard | Some nt \<Rightarrow> nt), gw_interval = interval\<rparr>"

lemma Gas_NewWorker_sel [simp]:
  "gw_env (Gas_NewWorker E K nt d) = E" "gw_keystore (Gas_NewWorker E K nt d) = K" "gw_interval (Gas_NewWorker E K nt d) = d"
  "gw_notifier (Gas_NewWorker E K (Some n) d) = n" "gw_notifier (Gas_NewWorker E K None d) = Discard"
  by (simp_all add: Gas_NewWorker_def)

definition Gas_Tick :: "'w Gas_Worker \<Rightarrow> ('w, 'z, unit res) alert_op" where
  "Gas_Tick gw = Gas_tick (gw_env gw) (gw_keystore gw) (gw_notifier gw)"

definition Gas_Run :: "'w Gas_Worker \<Rightarrow> nat \<Rightarrow> ('w, 'z, unit res) alert_op" where
  "Gas_Run gw = run_ticker (gw_interval gw) (Gas_Tick gw)"

section \<open>What a top-up changes\<close>

definition topped :: "database \<Rightarrow> database \<Rightarrow> bool" where
  "topped d d' \<longleftrightarrow> (\<exists>gs. d' = d\<lparr>gas_attempts := gas_attempts d @ gs\<rparr>) \<and> (db_wf d \<longrightarrow> db_wf d')"

lemma topped_refl [simp]: "topped d d"
  unfolding topped_def by (intro conjI exI [of _ "[]"]) simp_all

lemma topped_trans: "topped a b \<Longrightarrow> topped b c \<Longrightarrow> topped a c"
  by (auto simp: topped_def)

lemma topup_insert_Inr:
  assumes "topup_insert E p n g a h i now d = Inr d'"
  obtains amt price where "insert_gas_row (new_topup E p n a h i now amt price) d = Inr d'"
    "d' = d\<lparr>gas_attempts := gas_attempts d @ [new_topup E p n a h i now amt price]\<rparr>"
  using assms by (auto simp: topup_insert_def insert_gas_row_Inr split: option.splits)

lemma topped_insert: "topup_insert E p n g a h i now d = Inr d' \<Longrightarrow> topped d d'"
  by (erule topup_insert_Inr) (auto simp: topped_def dest: db_wf_insert_gas)

lemma refill_run:
  obtains (failed) e w where "run_state (refill E p k n g a) s = (Inl e, s\<lparr>world := w\<rparr>)" "\<not> is_panic e"
  | (unstored) w where "run_state (refill E p k n g a) s = (Inr (), s\<lparr>world := w\<rparr>)"
  | (stored) h i now d' w where "topup_insert E p n g a h i now (db s) = Inr d'"
      "run_state (refill E p k n g a) s = (Inr (), s\<lparr>world := w, db := d'\<rparr>)"
proof (cases "SignTx E (NewTransaction n a (pol_signerRefillAmount p) topupGasLimit g []) k")
  case (Inl e)
  then show ?thesis by (intro failed [of "Wrap ''sign'' e" "world s"]) (simp_all add: refill_def)
next
  case (Inr stx)
  obtain x w where S: "sendTransaction E stx (world s) = (x, w)" by fastforce
  show ?thesis
  proof (cases x)
    case (Inl e)
    with Inr S show ?thesis by (intro failed [of "Wrap ''send'' e" w]) (simp_all add: refill_def run_ext)
  next
    case ok: (Inr u)
    let ?ins = "topup_insert E p n g a (txHash E stx)"
    show ?thesis
      by (cases rule: run_db_insert [of E ?ins "s\<lparr>world := w\<rparr>"])
        (use Inr S ok in \<open>auto simp: refill_def run_ext intro: unstored stored\<close>)
  qed
qed

text \<open>One signer of the loop: passed by, a panic on a nil threshold, or topped up, recorded or not.\<close>

lemma refill_signers_step:
  obtains (skipped) w where
      "run_state (refill_signers E p k n g (a # ss)) s = run_state (refill_signers E p k n g ss) (s\<lparr>world := w\<rparr>)"
  | (panicked) e w where "pol_signerMinBalance p = None" "run_state (refill_signers E p k n g (a # ss)) s = (Inl e, s\<lparr>world := w\<rparr>)"
  | (topped_up) v d' w where "\<not> recent_topup (lowerHex E a) (fst (dbNow E v)) (db s)"
      "d' = db s \<or> (\<exists>h i t. topup_insert E p n g a h i t (db s) = Inr d')"
      "run_state (refill_signers E p k n g (a # ss)) s =
        (case run_state (refill_signers E p k (n + 1) g ss) (s\<lparr>world := w, db := d'\<rparr>) of
           (r, s') \<Rightarrow> (map_sum id (\<lambda>ups. (a, n) # ups) r, s'))"
proof (cases "fst (dbFault E (world s))")
  case (Some e)
  then show ?thesis by (intro skipped) (simp add: hasRecentTopup_def db_query_def run_ext)
next
  case None
  let ?v = "snd (dbFault E (world s))"
  let ?now = "fst (dbNow E ?v)" and ?w = "snd (dbNow E ?v)"
  note q = None hasRecentTopup_def db_query_def run_ext
  show ?thesis
  proof (cases "recent_topup (lowerHex E a) ?now (db s)")
    case True
    then show ?thesis by (intro skipped [of ?w]) (simp add: q)
  next
    case old: False
    obtain x w2 where B: "balanceAt E a ?w = (x, w2)" by fastforce
    show ?thesis
    proof (cases "\<exists>bal mn. x = Inr bal \<and> pol_signerMinBalance p = Some mn \<and> bal < mn")
      case low: True
      show ?thesis
      proof (cases rule: refill_run [of E p k n g a "s\<lparr>world := w2\<rparr>"])
        case (failed e w3)
        with low B old show ?thesis by (intro skipped [of w3]) (auto simp: q)
      next
        case (unstored w3)
        have "s\<lparr>world := w3\<rparr> = s\<lparr>world := w3, db := db s\<rparr>" by simp
        with unstored low B old show ?thesis
          by (intro topped_up [of ?v "db s" w3]) (auto simp: q run_attempt split: sum.splits prod.splits)
      next
        case (stored h i t d' w3)
        with low B old show ?thesis
          by (intro topped_up [of ?v d' w3]) (auto simp: q run_attempt split: sum.splits prod.splits)
      qed
    next
      case high: False
      show ?thesis
      proof (cases "(\<exists>bal. x = Inr bal) \<and> pol_signerMinBalance p = None")
        case True
        with B old show ?thesis by (intro panicked [of nil_deref w2]) (auto simp: q)
      next
        case False
        with high B old show ?thesis by (intro skipped [of w2]) (cases x; cases "pol_signerMinBalance p"; auto simp: q)
      qed
    qed
  qed
qed

text \<open>The loop: consecutive nonces from the treasury's, for some of the signers in order.\<close>

lemma refill_signers_run:
  assumes "run_state (refill_signers E p k n g ss) s = (r, s')"
  shows "(\<exists>w d'. s' = s\<lparr>world := w, db := d'\<rparr> \<and> topped (db s) d') \<and>
    (\<forall>ups. r = Inr ups \<longrightarrow> consecutive n (map snd ups) \<and> subseq (map fst ups) ss) \<and>
    (\<forall>e. r = Inl e \<longrightarrow> pol_signerMinBalance p = None)"
  using assms
proof (induction ss arbitrary: n s r s')
  case Nil
  then show ?case by (auto intro!: exI [of _ "world s"] exI [of _ "db s"])
next
  case (Cons a ss)
  show ?case
  proof (cases rule: refill_signers_step [of E p k n g a ss s])
    case (skipped w)
    with Cons.IH [of n "s\<lparr>world := w\<rparr>" r s'] Cons.prems show ?thesis by (auto intro: list_emb_Cons)
  next
    case (panicked e w)
    with Cons.prems show ?thesis by (auto intro!: exI [of _ w] exI [of _ "db s"])
  next
    case (topped_up v d' w)
    obtain r2 s2 where rest: "run_state (refill_signers E p k (n + 1) g ss) (s\<lparr>world := w, db := d'\<rparr>) = (r2, s2)" by fastforce
    have "s' = s2" "r = map_sum id (\<lambda>ups. (a, n) # ups) r2" using topped_up(3) rest Cons.prems by simp_all
    moreover have "topped (db s) d'" using topped_insert topped_up(2) by auto
    ultimately show ?thesis using Cons.IH [OF rest] by (cases r2) (auto intro: consecutive_Cons topped_trans)
  qed
qed

text \<open>Every logged top-up was signed and accepted.\<close>

lemma refill_sent:
  assumes "run_state (refill E p k n g a) s = (Inr (), s')"
  shows "\<exists>signed. SignTx E (NewTransaction n a (pol_signerRefillAmount p) topupGasLimit g []) k = Inr signed \<and>
    answers (sendTransaction E signed) ()"
  using assms unfolding refill_def by (auto elim!: attempt_failE attempt_ext_failE)

lemma refill_signers_sent:
  assumes "run_state (refill_signers E p k n g ss) s = (Inr ups, s')"
  shows "\<forall>(a, m) \<in> set ups. \<exists>signed.
    SignTx E (NewTransaction m a (pol_signerRefillAmount p) topupGasLimit g []) k = Inr signed \<and> answers (sendTransaction E signed) ()"
  using assms
proof (induction ss arbitrary: n s ups s')
  case (Cons a ss)
  from Cons.prems show ?case
    by (auto simp: run_attempt split: prod.splits sum.splits if_splits option.splits dest!: Cons.IH refill_sent)
qed simp

section \<open>The worker as a whole\<close>

definition gas_frame :: "('w, 'z) alert_state_scheme \<Rightarrow> ('w, 'z) alert_state_scheme \<Rightarrow> bool" where
  "gas_frame s s' \<longleftrightarrow> topped (db s) (db s') \<and> pools s' = pools s \<and> files s' = files s"

lemma gas_frame_refl [simp]: "gas_frame s s" "gas_frame s (s\<lparr>world := w\<rparr>)"
  by (simp_all add: gas_frame_def)

lemma gas_frame_trans: "gas_frame a b \<Longrightarrow> gas_frame b c \<Longrightarrow> gas_frame a c"
  by (auto simp: gas_frame_def intro: topped_trans)

lemma gas_frame_leaves:
  "leaves db m \<Longrightarrow> leaves pools m \<Longrightarrow> leaves files m \<Longrightarrow> run_state m s = (r, s') \<Longrightarrow> gas_frame s s'"
  using leavesD [of db m s r s'] leavesD [of pools m s r s'] leavesD [of files m s r s'] by (simp add: gas_frame_def)

lemma gas_frame_refills: "run_state (refill_signers E p k n g ss) s = (r, s') \<Longrightarrow> gas_frame s s'"
  by (auto dest!: refill_signers_run simp: gas_frame_def)

text \<open>The thresholds that are proper numbers.\<close>

definition sound_policy :: "appPolicy \<Rightarrow> bool" where
  "sound_policy p \<longleftrightarrow> pol_signerMinBalance p \<noteq> None \<and> pol_signerRefillAmount p \<noteq> None \<and> pol_treasuryMinBalance p \<noteq> None"

lemma sound_policy_of: "sound_policy (policy_of E a) \<longleftrightarrow>
   a_signer_min_balance a \<noteq> NaN \<and> a_signer_refill_amount a \<noteq> NaN \<and> a_treasury_min_balance a \<noteq> NaN"
proof -
  have "SetString10 (numeric_text v) \<noteq> None \<longleftrightarrow> v \<noteq> NaN" for v
    by (cases v) (simp_all add: parse_digits_def is_digit_def)
  then show ?thesis by (simp add: sound_policy_def policy_of_def)
qed

text \<open>The part of \<open>processApp\<close> after the treasury balance was checked.\<close>

definition topup_pass ::
  "'w env \<Rightarrow> Keystore \<Rightarrow> appPolicy \<Rightarrow> ('w, 'z, (address \<times> uint64) list res) alert_op" where
  "topup_pass E K p =
     attempt (gas_listSigners E (pol_id p)) (fail_wrap ''list signers'') (\<lambda>signers.
     if signers = [] then ok []
     else attempt (Keystore_Load E K (pol_treasury p)) (\<lambda>e. fail (Errorf ''load treasury key'' e)) (\<lambda>priv.
          attempt (PendingNonceAt E (pol_treasury p)) (fail_wrap ''treasury nonce'') (\<lambda>nonce.
          attempt (SuggestGasPrice E) (fail_wrap ''gas price'') (\<lambda>gasPrice.
          refill_signers E p priv nonce gasPrice signers))))"

lemma db_query_leaves_files [leaves_rules]: "leaves files (db_query E q)"
  unfolding db_query_def by (intro leaves_rules leaves_ext; simp)

lemma gas_listSigners_leaves:
  "leaves db (gas_listSigners E i)" "leaves pools (gas_listSigners E i)" "leaves files (gas_listSigners E i)"
  unfolding gas_listSigners_def by (intro leaves_rules)+

text \<open>
  What a pass over an app's signers logged: each signer at most once, in the order of the
  query, with consecutive nonces from the one the chain reported for the treasury.
\<close>

definition topups_ok :: "'w env \<Rightarrow> appPolicy \<Rightarrow> database \<Rightarrow> (address \<times> uint64) list \<Rightarrow> bool" where
  "topups_ok E p d ups \<longleftrightarrow> ups = [] \<or>
     (\<exists>n w. fst (pendingNonceAt E (pol_treasury p) w) = Inr n \<and> consecutive n (map snd ups)) \<and>
     subseq (map fst ups) (map (\<lambda>r. hexToAddress E (s_address r)) (signers_of (pol_id p) d))"

text \<open>No file of the keystore makes its decryption panic; \<open>Load\<close> of such a keystore cannot panic.\<close>

definition safe_keys :: "'w env \<Rightarrow> Keystore \<Rightarrow> (string \<times> dirent) list \<Rightarrow> bool" where
  "safe_keys E K fs \<longleftrightarrow>
     (\<forall>n dat a e. map_of fs n = Some (Regular dat) \<longrightarrow> decode_key E K a dat = Inl e \<longrightarrow> \<not> is_panic e)"

lemma Load_no_panic:
  "safe_keys E K (files s) \<Longrightarrow> run_state (Keystore_Load E K a) s = (Inl e, s') \<Longrightarrow> \<not> is_panic e"
  by (auto simp: Keystore_Load_def os_ReadFile_def run_ext run_attempt safe_keys_def
      split: option.splits dirent.splits)

definition gas_run :: "'w env \<Rightarrow> Keystore \<Rightarrow> appPolicy \<Rightarrow> ('w, 'z) alert_state_scheme
    \<Rightarrow> (address \<times> uint64) list res \<Rightarrow> ('w, 'z) alert_state_scheme \<Rightarrow> bool" where
  "gas_run E K p s r s' \<longleftrightarrow> gas_frame s s' \<and> (\<forall>ups. r = Inr ups \<longrightarrow> topups_ok E p (db s) ups) \<and>
     (\<forall>e. r = Inl e \<longrightarrow> is_panic e \<longrightarrow> \<not> sound_policy p \<or> \<not> safe_keys E K (files s))"

lemma gas_listSigners_run:
  assumes "run_state (gas_listSigners E i) s = (Inr ss, s')"
  shows "ss = map (\<lambda>r. hexToAddress E (s_address r)) (signers_of i (db s))"
  using assms
  by (cases rule: run_db_query [of E "\<lambda>now d. Inr (signers_of i d)" s]) (auto simp: gas_listSigners_def)

lemma topup_pass_run:
  assumes run: "run_state (topup_pass E K p) s = (r, s')"
  shows "gas_run E K p s r s'"
proof -
  obtain l s1 where L: "run_state (gas_listSigners E (pol_id p)) s = (l, s1)" by fastforce
  have f1: "gas_frame s s1" using gas_frame_leaves [OF gas_listSigners_leaves L] .
  show ?thesis
  proof (cases l)
    case (Inl e)
    with L f1 run show ?thesis by (auto simp: topup_pass_def gas_run_def)
  next
    case signers: (Inr ss)
    obtain x s2 where K: "run_state (Keystore_Load E K (pol_treasury p)) s1 = (x, s2)" by fastforce
    have f2: "gas_frame s s2"
      using gas_frame_trans [OF f1 gas_frame_leaves [OF Load_leaves_db loader_leaves_pools(1) Load_leaves_files K]] .
    show ?thesis
    proof (cases "ss = [] \<or> (\<exists>e. x = Inl e)")
      case True
      have "\<not> is_panic e" if "x = Inl e" "safe_keys E K (files s)" for e
        using Load_no_panic [of E K s1 _ e s2] K f1 that by (auto simp: gas_frame_def)
      with True L signers K f1 f2 run show ?thesis
        by (auto simp: topup_pass_def gas_run_def topups_ok_def split: if_splits)
    next
      case False
      then obtain priv where priv: "x = Inr priv" by (cases x) auto
      obtain y w3 where N: "pendingNonceAt E (pol_treasury p) (world s2) = (y, w3)" by fastforce
      obtain z w4 where G: "suggestGasPrice E w3 = (z, w4)" by fastforce
      have f3: "gas_frame s (s2\<lparr>world := w\<rparr>)" for w using gas_frame_trans [OF f2] by simp
      show ?thesis
      proof (cases "\<exists>nonce gasPrice. y = Inr nonce \<and> z = Inr gasPrice")
        case True
        then obtain nonce gasPrice where ng: "y = Inr nonce" "z = Inr gasPrice" by blast
        with L signers K False priv N G run have R: "run_state (refill_signers E p priv nonce gasPrice ss) (s2\<lparr>world := w4\<rparr>) = (r, s')"
          by (auto simp: topup_pass_def run_ext)
        have n: "\<exists>w. fst (pendingNonceAt E (pol_treasury p) w) = Inr nonce" using N ng by (metis fst_conv)
        show ?thesis
          using refill_signers_run [OF R] gas_frame_trans [OF f3 gas_frame_refills [OF R]] n
            gas_listSigners_run [OF L [unfolded signers]]
          by (auto simp: gas_run_def topups_ok_def sound_policy_def)
      next
        case no: False
        with L signers K False priv N G run f3 show ?thesis
          by (cases y; cases z) (auto simp: topup_pass_def run_ext gas_run_def)
      qed
    qed
  qed
qed

lemma processApp_run:
  assumes run: "run_state (processApp E K nt p) s = (r, s')"
  shows "gas_run E K p s r s'"
proof -
  obtain x w where B: "balanceAt E (pol_treasury p) (world s) = (x, w)" by fastforce
  show ?thesis
  proof (cases "\<exists>tBal tMin. x = Inr tBal \<and> pol_treasuryMinBalance p = Some tMin")
    case True
    then obtain tBal tMin where t: "x = Inr tBal" "pol_treasuryMinBalance p = Some tMin" by blast
    let ?m = "if 0 < tMin \<and> tBal < tMin then do { Notify E nt (treasury_alert E p tBal tMin); ret () } else ret ()"
    obtain u s1 where N: "run_state ?m (s\<lparr>world := w\<rparr>) = (u, s1)" by (meson surj_pair)
    have "leaves db ?m" "leaves pools ?m" "leaves files ?m"
      by (intro leaves_rules Notify_leaves_db Notify_leaves_pools Notify_leaves; simp)+
    note lv = this [THEN leavesD, OF N]
    have "run_state (topup_pass E K p) s1 = (r, s')"
      using run B t N by (simp add: processApp_def topup_pass_def run_ext)
    from topup_pass_run [OF this] lv show ?thesis by (simp add: gas_run_def gas_frame_def)
  next
    case False
    with B run show ?thesis
      by (cases x; cases "pol_treasuryMinBalance p") (auto simp: processApp_def run_ext sound_policy_def gas_run_def)
  qed
qed

lemma processApp_sent:
  assumes "run_state (processApp E K nt p) s = (Inr ups, s')" and "ups \<noteq> []"
  shows "\<exists>priv g. pubkeyToAddress E priv = pol_treasury p \<and> answers (suggestGasPrice E) g \<and>
    (\<forall>(a, m) \<in> set ups. \<exists>signed.
       SignTx E (NewTransaction m a (pol_signerRefillAmount p) topupGasLimit g []) priv = Inr signed \<and> answers (sendTransaction E signed) ())"
proof -
  from assms(1) obtain s1 where "run_state (topup_pass E K p) s1 = (Inr ups, s')"
    by (auto simp: processApp_def topup_pass_def split: option.splits prod.splits elim!: attempt_ext_failE)
  then obtain priv n g ss s4 where "pubkeyToAddress E priv = pol_treasury p"
    "answers (suggestGasPrice E) g" "run_state (refill_signers E p priv n g ss) s4 = (Inr ups, s')"
    using assms(2) by (auto simp: topup_pass_def split: if_splits elim!: attempt_failE attempt_ext_failE dest!: Load_address)
  with refill_signers_sent show ?thesis by blast
qed

lemma process_apps_run:
  assumes "run_state (process_apps E K nt ps) s = (r, s')"
  shows "gas_frame s s' \<and> ((\<forall>p \<in> set ps. sound_policy p) \<longrightarrow> safe_keys E K (files s) \<longrightarrow> r = Inr ())"
  using assms(1)
proof (induction ps arbitrary: s)
  case (Cons p ps)
  obtain r1 s1 where P: "run_state (processApp E K nt p) s = (r1, s1)" by fastforce
  note p = processApp_run [OF P, unfolded gas_run_def]
  show ?case
  proof (cases "\<exists>e. r1 = Inl e \<and> is_panic e")
    case True
    with P Cons.prems p show ?thesis by auto
  next
    case False
    then have "run_state (process_apps E K nt ps) s1 = (r, s')" using P Cons.prems by (cases r1) auto
    from Cons.IH [OF this] p show ?thesis by (auto simp: gas_frame_def intro: topped_trans)
  qed
qed simp

lemma Gas_tick_run:
  assumes "run_state (Gas_tick E K nt) s = (r, s')"
  shows "gas_frame s s' \<and>
    ((\<forall>a \<in> set (apps (db s)). has_policy a \<longrightarrow> sound_policy (policy_of E a)) \<longrightarrow> safe_keys E K (files s) \<longrightarrow>
      (\<forall>e. r = Inl e \<longrightarrow> \<not> is_panic e))"
proof -
  let ?q = "\<lambda>now d. Inr (map (policy_of E) (filter has_policy (apps d))) :: appPolicy list res"
  show ?thesis
  proof (cases rule: run_db_query [of E ?q s])
    case (fault e w)
    with assms show ?thesis by (auto simp: Gas_tick_def)
  next
    case (ran now w)
    with assms(1) have "run_state (process_apps E K nt (map (policy_of E) (filter has_policy (apps (db s))))) (s\<lparr>world := w\<rparr>) = (r, s')"
      by (simp add: Gas_tick_def)
    from process_apps_run [OF this] show ?thesis by (auto simp: gas_frame_def)
  qed
qed

lemma topped_apps: "topped d d' \<Longrightarrow> apps d' = apps d"
  by (auto simp: topped_def)

lemma Gas_Run_total:
  assumes "0 < gw_interval gw" and "\<forall>a \<in> set (apps (db s)). has_policy a \<longrightarrow> sound_policy (policy_of (gw_env gw) a)"
    and "safe_keys (gw_env gw) (gw_keystore gw) (files s)"
  shows "\<exists>s'. run_state (Gas_Run gw n) s = (Inr (), s') \<and> gas_frame s s'"
proof -
  have tick: "gas_frame s x' \<and> (\<forall>e. r = Inl e \<longrightarrow> \<not> is_panic e)"
    if x: "gas_frame s x" and T: "run_state (Gas_Tick gw) x = (r, x')" for x r x'
  proof -
    have "apps (db x) = apps (db s)" "files x = files s" using x by (auto simp: gas_frame_def topped_apps)
    with Gas_tick_run [OF T [unfolded Gas_Tick_def]] assms(2,3) gas_frame_trans [OF x] show ?thesis by simp
  qed
  show ?thesis
    unfolding Gas_Run_def by (rule run_ticker_total [where P = "gas_frame s", OF assms(1)]) (simp, rule tick)
qed

text \<open>
  A treasury threshold of NaN: the comparison with the balance dereferences nil, so the tick
  that reaches the app ends the process, whatever apps come before it.
\<close>

lemma processApp_NaN:
  assumes "pol_treasuryMinBalance p = None" and "balanceAt E (pol_treasury p) (world s) = (Inr bal, w)"
  shows "run_state (processApp E K nt p) s = (Inl nil_deref, s\<lparr>world := w\<rparr>)"
  using assms by (simp add: processApp_def run_ext)

lemma process_apps_NaN:
  assumes "p \<in> set ps" and "pol_treasuryMinBalance p = None" and "\<And>w. \<exists>bal. fst (balanceAt E (pol_treasury p) w) = Inr bal"
  shows "\<exists>e s'. run_state (process_apps E K nt ps) s = (Inl e, s') \<and> is_panic e"
  using assms(1)
proof (induction ps arbitrary: s)
  case (Cons q ps)
  show ?case
  proof (cases "q = p")
    case True
    obtain bal w where "balanceAt E (pol_treasury p) (world s) = (Inr bal, w)"
      using assms(3) [of "world s"] by (metis prod.collapse)
    from processApp_NaN [OF assms(2) this, of K nt] True show ?thesis by (simp add: nil_deref_def)
  next
    case False
    with Cons.prems have p: "p \<in> set ps" by simp
    obtain r s1 where "run_state (processApp E K nt q) s = (r, s1)" by fastforce
    with Cons.IH [OF p, of s1] show ?thesis by (cases r) auto
  qed
qed simp

lemma Gas_tick_NaN:
  assumes "no_faults E" and "a \<in> set (apps (db s))" and "has_policy a" and "a_treasury_min_balance a = NaN"
    and "\<And>w. \<exists>bal. fst (balanceAt E (hexToAddress E (a_treasury_address a)) w) = Inr bal"
  shows "\<exists>e s'. run_state (Gas_tick E K nt) s = (Inl e, s') \<and> is_panic e"
proof -
  let ?ps = "map (policy_of E) (filter has_policy (apps (db s)))"
  let ?q = "\<lambda>now d. Inr (map (policy_of E) (filter has_policy (apps d))) :: appPolicy list res"
  obtain now w where q: "run_state (db_query E ?q) s = (?q now (db s), s\<lparr>world := w\<rparr>)"
    using run_db_query_ok [OF assms(1), of ?q s] by blast
  have "\<exists>e s'. run_state (process_apps E K nt ?ps) (s\<lparr>world := w\<rparr>) = (Inl e, s') \<and> is_panic e"
    by (rule process_apps_NaN [of "policy_of E a"])
       (use assms in \<open>auto simp: policy_of_def parse_digits_def is_digit_def\<close>)
  with q show ?thesis by (simp add: Gas_tick_def)
qed

text \<open>A recorded top-up silences the signer for the window: at every reading of the clock it is recent.\<close>

definition silenced :: "'w env \<Rightarrow> string \<Rightarrow> database \<Rightarrow> bool" where
  "silenced E addr d \<longleftrightarrow> (\<forall>w. recent_topup addr (fst (dbNow E w)) d)"

lemma silencedI:
  assumes "g \<in> set (gas_attempts d)" and "g_signer_address g = addr" and "g_status g = GasSubmitted \<or> g_status g = GasConfirmed"
    and "\<forall>w. fst (dbNow E w) < g_submitted_at g + recentTopupWindow"
  shows "silenced E addr d"
  unfolding silenced_def recent_topup_def list_ex_iff
proof
  fix w
  have "fst (dbNow E w) - recentTopupWindow < g_submitted_at g" using assms(4) by (simp add: algebra_simps)
  with assms(1-3) show "\<exists>g \<in> set (gas_attempts d). g_signer_address g = addr \<and> (g_status g = GasSubmitted \<or> g_status g = GasConfirmed) \<and>
      fst (dbNow E w) - recentTopupWindow < g_submitted_at g" by blast
qed

lemma silenced_skipped:
  assumes "silenced E (lowerHex E a) (db s)"
  shows "\<exists>w. run_state (refill_signers E p k n g (a # ss)) s = run_state (refill_signers E p k n g ss) (s\<lparr>world := w\<rparr>)"
proof (cases "fst (dbFault E (world s))")
  case None
  with assms show ?thesis
    by (intro exI [of _ "snd (dbNow E (snd (dbFault E (world s))))"]) (simp add: silenced_def hasRecentTopup_def db_query_def run_ext)
next
  case (Some e)
  then show ?thesis
    by (intro exI [of _ "snd (dbFault E (world s))"]) (simp add: hasRecentTopup_def db_query_def run_ext)
qed

lemma refill_signers_silenced:
  assumes "silenced E (lowerHex E a) (db s)" and "run_state (refill_signers E p k n g ss) s = (r, s')"
  shows "(\<forall>ups. r = Inr ups \<longrightarrow> a \<notin> fst ` set ups) \<and>
    filter (\<lambda>h. g_signer_address h = lowerHex E a) (gas_attempts (db s')) =
      filter (\<lambda>h. g_signer_address h = lowerHex E a) (gas_attempts (db s))"
  using assms
proof (induction ss arbitrary: n s r s')
  case (Cons x ss)
  show ?case
  proof (cases rule: refill_signers_step [of E p k n g x ss s])
    case (skipped w)
    with Cons.IH [of "s\<lparr>world := w\<rparr>" n r s'] Cons.prems show ?thesis by simp
  next
    case (panicked e w)
    with Cons.prems show ?thesis by auto
  next
    case (topped_up v d' w)
    have x: "lowerHex E x \<noteq> lowerHex E a" using topped_up(1) Cons.prems(1) by (auto simp: silenced_def)
    then have d': "filter (\<lambda>h. g_signer_address h = lowerHex E a) (gas_attempts d') =
        filter (\<lambda>h. g_signer_address h = lowerHex E a) (gas_attempts (db s))"
      using topped_up(2) by (auto elim!: topup_insert_Inr simp: new_topup_def)
    have "topped (db s) d'" using topped_insert topped_up(2) by auto
    with Cons.prems(1) have "silenced E (lowerHex E a) d'" by (auto simp: silenced_def recent_topup_def topped_def)
    moreover obtain r2 s2 where rest: "run_state (refill_signers E p k (n + 1) g ss) (s\<lparr>world := w, db := d'\<rparr>) = (r2, s2)" by fastforce
    moreover have "s' = s2" "r = map_sum id (\<lambda>ups. (x, n) # ups) r2" using topped_up(3) rest Cons.prems(2) by simp_all
    ultimately show ?thesis using Cons.IH [of "s\<lparr>world := w, db := d'\<rparr>" "n + 1" r2 s2] d' x by (cases r2) auto
  qed
qed auto

text \<open>A signer low on gas without a recent top-up is topped up.\<close>

lemma refill_signers_due:
  assumes "no_faults E" and "\<forall>w. \<not> recent_topup (lowerHex E a) (fst (dbNow E w)) (db s)" and "pol_signerMinBalance p = Some mn"
    and "\<forall>w. \<exists>bal. fst (balanceAt E a w) = Inr bal \<and> bal < mn"
    and "SignTx E (NewTransaction n a (pol_signerRefillAmount p) topupGasLimit g []) k = Inr stx"
    and "\<forall>w. fst (sendTransaction E stx w) = Inr ()"
    and run: "run_state (refill_signers E p k n g (a # ss)) s = (Inr ups, s')"
  shows "(a, n) \<in> set ups"
proof -
  let ?w = "snd (dbNow E (snd (dbFault E (world s))))"
  obtain bal w2 where B: "balanceAt E a ?w = (Inr bal, w2)" "bal < mn" using assms(4) by (metis prod.collapse)
  obtain s3 where "run_state (refill E p k n g a) (s\<lparr>world := w2\<rparr>) = (Inr (), s3)"
    using assms(5,6) by (cases rule: run_db_insert [of E "topup_insert E p n g a (txHash E stx)" "s\<lparr>world := snd (sendTransaction E stx w2)\<rparr>"])
      (auto simp: refill_def run_ext)
  with run B assms(1-3) show ?thesis
    by (auto simp: hasRecentTopup_def db_query_def run_ext no_faults_def run_attempt split: sum.splits prod.splits)
qed

end
