(* ===== verification/Config.thy ===== *)
theory Config
  imports Gas
begin

text \<open>
  \<open>internal/config\<close>, \<open>internal/chain\<close> (the dial) and the start-up of \<open>cmd/txmill\<close>: reading the
  process environment, refusing a node on another chain and choosing the notifier.
\<close>

section \<open>Configuration\<close>

record Config =
  c_APIListen :: string
  c_DBURL :: string
  c_KeystoreDir :: string
  c_KeystorePassword :: string
  c_RPCURL :: string
  c_ChainID :: uint64
  c_WatcherIntervalMs :: uint64
  c_WatcherBatchSize :: uint64
  c_GasIntervalMs :: uint64
  c_AlertWebhookURL :: string
  c_TelegramBotToken :: string
  c_TelegramChatID :: string
  c_AlertThrottleMs :: uint64

text \<open>\<open>os.Getenv\<close> is a parameter; an unset variable reads as the empty string.\<close>

definition getenv :: "(string \<Rightarrow> string) \<Rightarrow> string \<Rightarrow> string \<Rightarrow> string" where
  "getenv os key dflt = (if os key \<noteq> [] then os key else dflt)"

definition getenvUint64 :: "(string \<Rightarrow> string) \<Rightarrow> string \<Rightarrow> uint64 \<Rightarrow> uint64" where
  "getenvUint64 os key dflt =
     (let v = os key in
      if v = [] then dflt else (case ParseUint64 v of None \<Rightarrow> dflt | Some n \<Rightarrow> n))"

definition Config_Load :: "(string \<Rightarrow> string) \<Rightarrow> Config" where
  "Config_Load os =
     \<lparr>c_APIListen = getenv os ''TXMILL_API_LISTEN'' '':8080'',
      c_DBURL = os ''TXMILL_DB_URL'',
      c_KeystoreDir = getenv os ''TXMILL_KEYSTORE_DIR'' ''./data/keys'',
      c_KeystorePassword = os ''TXMILL_KEYSTORE_PASSWORD'',
      c_RPCURL = os ''TXMILL_RPC_URL'',
      c_ChainID = getenvUint64 os ''TXMILL_CHAIN_ID'' 146,
      c_WatcherIntervalMs = getenvUint64 os ''TXMILL_WATCHER_INTERVAL_MS'' 1000,
      c_WatcherBatchSize = getenvUint64 os ''TXMILL_WATCHER_BATCH_SIZE'' 50,
      c_GasIntervalMs = getenvUint64 os ''TXMILL_GAS_INTERVAL_MS'' 30000,
      c_AlertWebhookURL = os ''TXMILL_ALERT_WEBHOOK_URL'',
      c_TelegramBotToken = os ''TXMILL_TELEGRAM_BOT_TOKEN'',
      c_TelegramChatID = os ''TXMILL_TELEGRAM_CHAT_ID'',
      c_AlertThrottleMs = getenvUint64 os ''TXMILL_ALERT_THROTTLE_MS'' (30 * 60 * 1000)\<rparr>"

section \<open>The chain client\<close>

text \<open>
  A \<open>Client\<close> remembers the chain id it was dialled with; its calls to the node are those of theory
  \<open>Runtime\<close>.
\<close>

record Client =
  cl_chainID :: int

definition ChainID :: "Client \<Rightarrow> int" where
  "ChainID c = cl_chainID c"

text \<open>\<open>Dial\<close>: the results of connecting and of asking the node for its chain id are parameters.\<close>

definition Dial :: "unit res \<Rightarrow> int res \<Rightarrow> uint64 \<Rightarrow> Client res" where
  "Dial conn rpcChainID expected =
     (case conn of
        Inl e \<Rightarrow> Inl (Wrap ''chain: dial'' e)
      | Inr _ \<Rightarrow> (case rpcChainID of
           Inl e \<Rightarrow> Inl (Wrap ''chain: chain id'' e)
         | Inr got \<Rightarrow>
             if got \<noteq> uint expected
             then Inl (ErrMsg (''chain: chain id mismatch: rpc='' @ big_String got @ '' want='' @ big_String (uint expected)))
             else Inr \<lparr>cl_chainID = got\<rparr>))"

section \<open>Start-up\<close>

definition throttle_id :: nat where "throttle_id = 0"

text \<open>\<open>time.Duration(ms) * time.Millisecond\<close>: a signed 64-bit product of nanoseconds.\<close>

definition millis :: "uint64 \<Rightarrow> int" where
  "millis ms = sint (ms * 1000000)"

definition transports :: "Config \<Rightarrow> Notifier list" where
  "transports cfg =
     (if c_AlertWebhookURL cfg \<noteq> [] then [NewWebhook (c_AlertWebhookURL cfg)] else []) @
     (if c_TelegramBotToken cfg \<noteq> [] \<and> c_TelegramChatID cfg \<noteq> []
      then [NewTelegram (c_TelegramBotToken cfg) (c_TelegramChatID cfg)] else [])"

definition buildNotifier :: "Config \<Rightarrow> Notifier" where
  "buildNotifier cfg =
     (if transports cfg = [] then Discard
      else NewThrottled throttle_id (Multi (transports cfg)) (millis (c_AlertThrottleMs cfg)))"

text \<open>What start-up depends on before anything is built: settings, keystore and chain id.\<close>

record Wiring =
  wr_Config :: Config
  wr_Keystore :: Keystore
  wr_Chain :: Client

text \<open>
  \<open>main\<close> up to the recovery scan: exit code 2 for a missing setting and 1 for a failed
  dependency. The results of the database pool, of creating the keystore directory and of
  the node are parameters.
\<close>

definition startup ::
  "(string \<Rightarrow> string) \<Rightarrow> unit res \<Rightarrow> unit res \<Rightarrow> unit res \<Rightarrow> int res \<Rightarrow> nat + Wiring" where
  "startup os newPool mkdirAll conn rpcChainID =
     (let cfg = Config_Load os in
      if c_DBURL cfg = [] then Inl 2
      else if c_RPCURL cfg = [] then Inl 2
      else (case newPool of
        Inl e \<Rightarrow> Inl 1
      | Inr _ \<Rightarrow> (case New mkdirAll (c_KeystoreDir cfg) (c_KeystorePassword cfg) of
          Inl e \<Rightarrow> Inl 1
        | Inr K \<Rightarrow> (case Dial conn rpcChainID (c_ChainID cfg) of
            Inl e \<Rightarrow> Inl 1
          | Inr chainClient \<Rightarrow> Inr \<lparr>wr_Config = cfg, wr_Keystore = K, wr_Chain = chainClient\<rparr>))))"

section \<open>Facts about the configuration\<close>

lemma millis_exact:
  assumes "unat ms * 1000000 < 2 ^ 63"
  shows "millis ms = int (unat ms) * 1000000"
proof -
  have u: "unat (ms * 1000000) = unat ms * 1000000" using assms by (simp add: unat_mult_lem [THEN iffD1])
  then have ui: "uint (ms * 1000000) = int (unat ms * 1000000)" by (metis uint_nat)
  have "int (unat ms * 1000000) < int (2 ^ 63)" using assms by (simp only: of_nat_less_iff)
  then have "uint (ms * 1000000) < 2 ^ 63" unfolding ui by simp
  then have "sint (ms * 1000000) = uint (ms * 1000000)"
    using signed_take_bit_int_eq_self [of 63 "uint (ms * 1000000)"] uint_ge_0 [of "ms * 1000000"]
    by (simp add: sint_uint)
  then show ?thesis by (simp add: millis_def ui)
qed

lemma Dial_Inr: "Dial conn got expected = Inr c \<longleftrightarrow> conn = Inr () \<and> got = Inr (ChainID c) \<and> ChainID c = uint expected"
  by (cases c) (auto simp: Dial_def ChainID_def split: sum.splits if_splits)

lemma millis_zero [simp]: "millis 0 = 0"
  by (simp add: millis_def)

lemma sint_negative:
  assumes "2 ^ 63 \<le> unat (w :: uint64)"
  shows "sint w < 0"
proof -
  have u: "uint w < 2 ^ 64" using uint_lt2p [of w] by simp
  have g: "2 ^ 63 \<le> uint w" using assms by (metis of_nat_le_iff of_nat_numeral of_nat_power uint_nat)
  have "sint w = signed_take_bit 63 (uint w)" by (simp add: sint_uint)
  also have "\<dots> = uint w - 2 ^ 64"
  proof -
    have "signed_take_bit 63 (uint w) = (uint w + 2 ^ 63) mod 2 ^ 64 - 2 ^ 63"
      using signed_take_bit_eq_take_bit_shift [of 63 "uint w"] by (simp add: take_bit_eq_mod)
    also have "(uint w + 2 ^ 63) mod 2 ^ 64 = (uint w - 2 ^ 63 + 2 ^ 64) mod 2 ^ 64" by (simp add: add.commute)
    also have "\<dots> = uint w - 2 ^ 63" unfolding mod_add_self2 by (rule mod_pos_pos_trivial) (use u g in simp_all)
    finally show ?thesis by simp
  qed
  finally show ?thesis using u by simp
qed

text \<open>What a successful start-up was given.\<close>

lemma startup_started:
  assumes "startup os newPool mkdirAll conn rpcChainID = Inr wr"
  shows "rpcChainID = Inr (uint (c_ChainID (Config_Load os)))" "ChainID (wr_Chain wr) = uint (c_ChainID (Config_Load os))"
    "ks_password (wr_Keystore wr) \<noteq> []" "wr_Config wr = Config_Load os"
  using assms by (auto simp: startup_def Let_def New_def Dial_Inr split: if_splits sum.splits)

lemma throttles_buildNotifier: "buildNotifier cfg = Throttled i inner d \<Longrightarrow> i \<notin> throttles inner"
  by (auto simp: buildNotifier_def transports_def NewThrottled_def NewWebhook_def NewTelegram_def split: if_splits)

end
