(* ===== verification/Treasury.thy ===== *)
theory Treasury
  imports Relay_Service
begin

text \<open>
  \<open>internal/treasury\<close>: sweeping an app's treasury. Without an amount the whole balance less
  the gas cost is sent.
\<close>

definition sweepGasLimit :: uint64 where "sweepGasLimit = 21000"

record Treasury_Service =
  ts_keystore :: Keystore

definition Treasury_NewService :: "Keystore \<Rightarrow> Treasury_Service" where
  "Treasury_NewService ks = \<lparr>ts_keystore = ks\<rparr>"

record SweepResult =
  sw_TxHash :: hash
  sw_From :: address
  sw_To :: address
  sw_ValueWei :: int

definition sweep_amount :: "int \<Rightarrow> int \<Rightarrow> int res" where
  "sweep_amount bal gasPrice =
     (let gasCost = gasPrice * uint sweepGasLimit; send = bal - gasCost in
      if send \<le> 0
      then Inl (ErrMsg (''treasury balance '' @ big_String bal @ '' wei does not cover gas '' @ big_String gasCost @ '' wei''))
      else Inr send)"

definition treasury_address :: "string \<Rightarrow> database \<Rightarrow> string res" where
  "treasury_address appID d =
     (case lookup_row a_id appID (apps d) of None \<Rightarrow> Inl ErrNoRows | Some a \<Rightarrow> Inr (a_treasury_address a))"

definition Sweep ::
  "'w env \<Rightarrow> Keystore \<Rightarrow> string \<Rightarrow> address \<Rightarrow> int option \<Rightarrow> ('w, 'z, SweepResult res) ks_op" where
  "Sweep E K appID to amt =
     attempt (db_query E (\<lambda>now d. treasury_address appID d))
       (\<lambda>e. if errors_Is e ErrNoRows then fail ErrAppNotFound else fail_wrap ''treasury lookup'' e) (\<lambda>treasuryHex.
     let from = hexToAddress E treasuryHex in
     attempt (Keystore_Load E K from) (\<lambda>e. fail (Errorf ''load treasury key'' e)) (\<lambda>priv.
     attempt (PendingNonceAt E from) (fail_wrap ''treasury nonce'') (\<lambda>nonce.
     attempt (SuggestGasPrice E) (fail_wrap ''gas price'') (\<lambda>gasPrice.
     attempt (case amt of
                Some v \<Rightarrow> ok v
              | None \<Rightarrow> attempt (BalanceAt E from) (fail_wrap ''treasury balance'') (\<lambda>bal. ret (sweep_amount bal gasPrice)))
       fail (\<lambda>send.
     attempt (ret (SignTx E (NewTransaction nonce to (Some send) sweepGasLimit gasPrice []) priv)) (fail_wrap ''sign'') (\<lambda>signed.
     attempt (SendTransaction E signed) (fail_wrap ''send'') (\<lambda>_.
     ok \<lparr>sw_TxHash = txHash E signed, sw_From = from, sw_To = to, sw_ValueWei = send\<rparr>)))))))"

lemma Sweep_leaves_db: "leaves db (Sweep E K appID to amt)"
  unfolding Sweep_def Let_def by (intro leaves_rules)

lemma treasury_address_Inr:
  assumes "treasury_address appID d = Inr th"
  obtains a where "a \<in> set (apps d)" "a_id a = appID" "th = a_treasury_address a"
  using assms by (auto simp: treasury_address_def split: option.splits dest!: lookup_row_Some intro: that)

lemma sweep_amount_Inr: "sweep_amount bal p = Inr v \<longleftrightarrow> v = bal - p * uint sweepGasLimit \<and> 0 < v"
  by (auto simp: sweep_amount_def Let_def)

text \<open>What a successful sweep sent, and from where.\<close>

lemma Sweep_success:
  assumes run: "run_state (Sweep E K appID to amt) s = (Inr res, s')"
  obtains a nonce gasPrice priv signed where
    "a \<in> set (apps (db s))" "a_id a = appID" "sw_From res = hexToAddress E (a_treasury_address a)" "sw_To res = to"
    "answers (pendingNonceAt E (sw_From res)) nonce" "answers (suggestGasPrice E) gasPrice"
    "amt = Some (sw_ValueWei res) \<or> amt = None \<and> 0 < sw_ValueWei res \<and>
       answers (balanceAt E (sw_From res)) (sw_ValueWei res + gasPrice * uint sweepGasLimit)"
    "SignTx E (NewTransaction nonce to (Some (sw_ValueWei res)) sweepGasLimit gasPrice []) priv = Inr signed"
    "pubkeyToAddress E priv = sw_From res" "answers (sendTransaction E signed) ()" "sw_TxHash res = txHash E signed"
proof -
  let ?amount = "\<lambda>from gasPrice. case amt of Some v \<Rightarrow> ok v
    | None \<Rightarrow> attempt (BalanceAt E from) (fail_wrap ''treasury balance'') (\<lambda>bal. ret (sweep_amount bal gasPrice))"
  have amount: "amt = Some v \<or> amt = None \<and> 0 < v \<and> answers (balanceAt E src) (v + gasPrice * uint sweepGasLimit)"
    if "run_state (?amount src gasPrice) x = (Inr v, x')" for src gasPrice x v x'
    using that by (cases amt) (auto simp: sweep_amount_Inr elim!: attempt_ext_failE)
  from run obtain th where q: "treasury_address appID (db s) = Inr th"
    and rest: "\<exists>s1. run_state (let from = hexToAddress E th in
     attempt (Keystore_Load E K from) (\<lambda>e. fail (Errorf ''load treasury key'' e)) (\<lambda>priv.
     attempt (PendingNonceAt E from) (fail_wrap ''treasury nonce'') (\<lambda>nonce.
     attempt (SuggestGasPrice E) (fail_wrap ''gas price'') (\<lambda>gasPrice.
     attempt (?amount from gasPrice) fail (\<lambda>send.
     attempt (ret (SignTx E (NewTransaction nonce to (Some send) sweepGasLimit gasPrice []) priv)) (fail_wrap ''sign'') (\<lambda>signed.
     attempt (SendTransaction E signed) (fail_wrap ''send'') (\<lambda>_.
     ok \<lparr>sw_TxHash = txHash E signed, sw_From = from, sw_To = to, sw_ValueWei = send\<rparr>))))))) s1 = (Inr res, s')"
    unfolding Sweep_def
    by (cases rule: run_db_query [of E "\<lambda>now d. treasury_address appID d" s]; cases "treasury_address appID (db s)")
       (auto split: if_splits)
  from q obtain a where a: "a \<in> set (apps (db s))" "a_id a = appID" "th = a_treasury_address a"
    by (rule treasury_address_Inr)
  from rest a(3) show ?thesis
    by (auto simp: Let_def elim!: attempt_failE attempt_ext_failE dest!: amount Load_address intro!: that [OF a(1,2)])
qed

end
