(* ===== verification/Api.thy ===== *)
theory Api
  imports Gas Treasury
begin

text \<open>
  \<open>internal/api\<close>: the HTTP handlers behind the bearer-token middleware. Request parsing and
  routing are the web framework's; a handler takes the bound request (\<open>None\<close> when the body
  does not bind) and the path parameter, and returns the reply. An error a handler returns as
  it is, and a panic caught by the recovery middleware, become the framework's status 500.
\<close>

section \<open>Requests and replies\<close>

record createAppRequest =
  ca_Name :: string
  ca_PoolSize :: int
  ca_DefaultCallbackURL :: string
  ca_SignerMinBalance :: string
  ca_SignerRefillAmount :: string
  ca_TreasuryMinBalance :: string

record createAppResponse =
  cp_AppID :: string
  cp_BearerToken :: string
  cp_DefaultCallbackSecret :: string
  cp_TreasuryAddress :: string
  cp_SignerAddresses :: "string list"

record relayRequest =
  rq_ChainID :: uint64
  rq_To :: string
  rq_Data :: string
  rq_Value :: string
  rq_GasLimit :: uint64
  rq_Deadline :: int
  rq_CallbackURL :: string
  rq_CallbackMetadata :: string

record relayResponse =
  rr_RequestID :: string
  rr_TxHash :: string
  rr_Signer :: string

record sweepRequest =
  sq_To :: string
  sq_Value :: string

record sweepResponse =
  ss_TxHash :: string
  ss_From :: string
  ss_To :: string
  ss_ValueWei :: string

record balancesSigner =
  bs_Address :: string
  bs_BalanceWei :: string
  bs_LastUsedAt :: "int option"

datatype payload =
    JHealth
  | JApp createAppResponse
  | JSigners string "string list"
  | JBalances string string "balancesSigner list"
  | JSweep sweepResponse
  | JRelay relayResponse
  | JStatus Status

datatype reply = JSON int payload | HTTPError int string | Failed error

fun reply_status :: "reply \<Rightarrow> int" where
  "reply_status (JSON c p) = c"
| "reply_status (HTTPError c m) = c"
| "reply_status (Failed e) = 500"

section \<open>Authentication\<close>

definition extractBearerToken :: "string \<Rightarrow> string res" where
  "extractBearerToken hdr =
     (if \<not> HasPrefix hdr ''Bearer '' then Inl (ErrMsg ''not a bearer token'')
      else (let tok = TrimPrefix hdr ''Bearer '' in
        if tok = [] then Inl (ErrMsg ''empty token'') else Inr tok))"

definition bearerAuth :: "'w env \<Rightarrow> string \<Rightarrow> (string \<Rightarrow> ('w, 'z, reply) op) \<Rightarrow> ('w, 'z, reply) op" where
  "bearerAuth E hdr nxt =
     (case extractBearerToken hdr of
        Inl _ \<Rightarrow> ret (HTTPError 401 ''missing or invalid Authorization header'')
      | Inr tok \<Rightarrow>
          attempt (Authenticate E tok)
            (\<lambda>e. ret (if errors_Is e ErrInvalidToken then HTTPError 401 ''invalid token'' else Failed e))
            (\<lambda>ident. if id_Disabled ident then ret (HTTPError 403 ''app is disabled'') else nxt (id_AppID ident)))"

section \<open>Handlers\<close>

definition createApp :: "'w env \<Rightarrow> Keystore \<Rightarrow> createAppRequest option \<Rightarrow> ('w, 'z, reply) ks_op" where
  "createApp E K body =
     (case body of
        None \<Rightarrow> ret (HTTPError 400 ''invalid json body'')
      | Some req \<Rightarrow>
          attempt (Create E K
              \<lparr>ci_Name = TrimSpace (ca_Name req), ci_PoolSize = ca_PoolSize req,
               ci_DefaultCallbackURL = TrimSpace (ca_DefaultCallbackURL req),
               ci_SignerMinBalance = TrimSpace (ca_SignerMinBalance req),
               ci_SignerRefillAmount = TrimSpace (ca_SignerRefillAmount req),
               ci_TreasuryMinBalance = TrimSpace (ca_TreasuryMinBalance req)\<rparr>)
            (\<lambda>e. ret (HTTPError 400 (Error e)))
            (\<lambda>res. ret (JSON 201 (JApp
               \<lparr>cp_AppID = cr_AppID res, cp_BearerToken = cr_BearerToken res,
                cp_DefaultCallbackSecret = cr_DefaultCallbackSecret res,
                cp_TreasuryAddress = addrHex E (cr_TreasuryAddress res),
                cp_SignerAddresses = map (addrHex E) (cr_SignerAddresses res)\<rparr>))))"

definition listSigners :: "'w env \<Rightarrow> string \<Rightarrow> string \<Rightarrow> ('w, 'z, reply) op" where
  "listSigners E idParam callerID =
     (if idParam \<noteq> callerID then ret (HTTPError 404 ''not found'')
      else attempt (ListSigners E callerID) (\<lambda>e. ret (Failed e))
             (\<lambda>addrs. ret (JSON 200 (JSigners callerID (map (addrHex E) addrs)))))"

text \<open>The concurrent balance queries: one answer or error per address, all awaited.\<close>

fun fetch_balances :: "'w env \<Rightarrow> address list \<Rightarrow> ('w, 'z, int res list) op" where
  "fetch_balances E [] = ret []"
| "fetch_balances E (a # as) = do { b \<leftarrow> BalanceAt E a; bs \<leftarrow> fetch_balances E as; ret (b # bs) }"

fun first_error :: "int res list \<Rightarrow> error option" where
  "first_error [] = None"
| "first_error (Inl e # rs) = Some e"
| "first_error (Inr _ # rs) = first_error rs"

definition balance_text :: "int res \<Rightarrow> string" where
  "balance_text r = (case r of Inr v \<Rightarrow> big_String v | Inl _ \<Rightarrow> ''<nil>'')"

text \<open>The chain client may be nil; otherwise it is the node it asks.\<close>

definition getBalances :: "'w env \<Rightarrow> 'w env option \<Rightarrow> string \<Rightarrow> string \<Rightarrow> ('w, 'z, reply) op" where
  "getBalances E Chain idParam appID =
     (if idParam \<noteq> appID then ret (HTTPError 404 ''not found'')
      else (case Chain of
        None \<Rightarrow> ret (HTTPError 503 ''chain client not configured'')
      | Some client \<Rightarrow> attempt (Accounts E appID) (\<lambda>e. ret (Failed e)) (\<lambda>acc. do {
        bs \<leftarrow> fetch_balances client (aa_Treasury acc # map si_Address (aa_Signers acc));
        ret (case first_error bs of
               Some e \<Rightarrow> HTTPError 502 (''balance fetch: '' @ Error e)
             | None \<Rightarrow> JSON 200 (JBalances (addrHex E (aa_Treasury acc)) (balance_text (hd bs))
                 (map2 (\<lambda>s b. \<lparr>bs_Address = addrHex E (si_Address s), bs_BalanceWei = balance_text b,
                              bs_LastUsedAt = si_LastUsedAt s\<rparr>) (aa_Signers acc) (tl bs)))) })))"

definition sweepTreasury ::
  "'w env \<Rightarrow> Treasury_Service option \<Rightarrow> string \<Rightarrow> sweepRequest option \<Rightarrow> string \<Rightarrow> ('w, 'z, reply) ks_op" where
  "sweepTreasury E treasury idParam body appID =
     (if idParam \<noteq> appID then ret (HTTPError 404 ''not found'')
      else (case (treasury, body) of
        (None, _) \<Rightarrow> ret (HTTPError 503 ''treasury service not configured'')
      | (_, None) \<Rightarrow> ret (HTTPError 400 ''invalid json body'')
      | (Some t, Some req) \<Rightarrow>
          if \<not> isHexAddress E (sq_To req) then ret (HTTPError 400 ''to is not a valid address'')
          else (let v = SetString10 (sq_Value req) in
            if sq_Value req \<noteq> [] \<and> (case v of None \<Rightarrow> True | Some x \<Rightarrow> x \<le> 0)
            then ret (HTTPError 400 ''value must be a positive decimal string'')
            else attempt (Sweep E (ts_keystore t) appID (hexToAddress E (sq_To req)) (if sq_Value req = [] then None else v))
                   (\<lambda>e. ret (if is_panic e then Failed e
                             else if errors_Is e ErrAppNotFound then HTTPError 404 ''not found'' else HTTPError 502 (Error e)))
                   (\<lambda>res. ret (JSON 202 (JSweep
                      \<lparr>ss_TxHash = hashHex E (sw_TxHash res), ss_From = addrHex E (sw_From res),
                       ss_To = addrHex E (sw_To res), ss_ValueWei = big_String (sw_ValueWei res)\<rparr>))))))"

definition maxCallbackMetadataLen :: nat where "maxCallbackMetadataLen = 1024"

definition decodeHexBytes :: "string \<Rightarrow> bytes res" where
  "decodeHexBytes s0 =
     (let s = TrimPrefix s0 ''0x'' in if s = [] then Inr [] else hex_DecodeString s)"

definition relay_input :: "'w env \<Rightarrow> string \<Rightarrow> relayRequest \<Rightarrow> bytes \<Rightarrow> int \<Rightarrow> SubmitInput" where
  "relay_input E appID req dat v =
     \<lparr>in_AppID = appID, in_ChainID = rq_ChainID req, in_To = hexToAddress E (rq_To req), in_Data = Some dat,
      in_Value = Some v, in_GasLimit = rq_GasLimit req, in_Deadline = rq_Deadline req,
      in_CallbackURL = TrimSpace (rq_CallbackURL req), in_CallbackMetadata = rq_CallbackMetadata req\<rparr>"

definition postRelay ::
  "('w, 'z) Service \<Rightarrow> relayRequest option \<Rightarrow> string \<Rightarrow> ('w, 'z, reply) pool_op" where
  "postRelay svc body appID = (let E = svc_env svc in
     (case body of
        None \<Rightarrow> ret (HTTPError 400 ''invalid json body'')
      | Some req \<Rightarrow>
          if \<not> isHexAddress E (rq_To req) then ret (HTTPError 400 ''to is not a valid address'')
          else (case decodeHexBytes (rq_Data req) of
            Inl e \<Rightarrow> ret (HTTPError 400 (''data: '' @ Error e))
          | Inr dat \<Rightarrow> (let v = SetString10 (rq_Value req) in
              if rq_Value req \<noteq> [] \<and> (case v of None \<Rightarrow> True | Some x \<Rightarrow> x < 0)
              then ret (HTTPError 400 ''value must be a non-negative decimal string'')
              else if maxCallbackMetadataLen < length (rq_CallbackMetadata req)
              then ret (HTTPError 400 ''callback_metadata exceeds limit'')
              else attempt (Submit svc (relay_input E appID req dat (case v of None \<Rightarrow> 0 | Some x \<Rightarrow> x)))
                     (\<lambda>e. ret (if is_panic e then Failed e
                               else if errors_Is e ErrChainIDMismatch \<or> errors_Is e ErrPastDeadline
                               then HTTPError 400 (Error e) else HTTPError 502 (Error e)))
                     (\<lambda>res. ret (JSON 202 (JRelay
                        \<lparr>rr_RequestID = sr_RequestID res, rr_TxHash = hashHex E (sr_TxHash res),
                         rr_Signer = addrHex E (sr_Signer res)\<rparr>)))))))"

definition getRelay :: "'w env \<Rightarrow> string \<Rightarrow> string \<Rightarrow> ('w, 'z, reply) op" where
  "getRelay E requestID appID =
     attempt (Get E requestID appID)
       (\<lambda>e. ret (if errors_Is e ErrNotFound then HTTPError 404 ''not found'' else Failed e))
       (\<lambda>st. ret (JSON 200 (JStatus st)))"

definition health :: "('w, 'z, reply) op" where
  "health = ret (JSON 200 JHealth)"

section \<open>Routes\<close>

datatype route =
    Health
  | PostApps "createAppRequest option"
  | GetSigners string
  | GetBalances string
  | PostSweep string "sweepRequest option"
  | PostRelay "relayRequest option"
  | GetRelay string

text \<open>
  The services behind the handlers, each nil or there; \<open>h_env\<close> is the node and the database they
  share.
\<close>

record ('w, 'z) Handlers =
  h_env :: "'w env"
  h_Apps :: "App_Service option"
  h_Relay :: "('w, 'z) Service option"
  h_Chain :: "'w env option"
  h_Treasury :: "Treasury_Service option"

definition not_found :: "('w, 'z, reply) pool_op" where
  "not_found = ret (HTTPError 404 ''Not Found'')"

text \<open>
  \<open>NewRouter\<close>: \<open>/health\<close> is always there, the other routes only with the app service, behind the
  token except for creating an app; those of the treasury and of the relay only with their service.
  A route that is not registered under the protected group is still behind the token.
\<close>

definition NewRouter :: "('w, 'z) Handlers \<Rightarrow> string \<Rightarrow> route \<Rightarrow> ('w, 'z, reply) pool_op" where
  "NewRouter h hdr r = (let E = h_env h in
     (case r of
        Health \<Rightarrow> health
      | _ \<Rightarrow> (case h_Apps h of
          None \<Rightarrow> not_found
        | Some a \<Rightarrow> (case r of
            Health \<Rightarrow> health
          | PostApps body \<Rightarrow> createApp E (as_ks a) body
          | GetSigners i \<Rightarrow> bearerAuth E hdr (listSigners E i)
          | GetBalances i \<Rightarrow> bearerAuth E hdr (getBalances E (h_Chain h) i)
          | PostSweep i body \<Rightarrow> bearerAuth E hdr (case h_Treasury h of
                None \<Rightarrow> (\<lambda>_. not_found) | Some t \<Rightarrow> sweepTreasury E (h_Treasury h) i body)
          | PostRelay body \<Rightarrow> bearerAuth E hdr (case h_Relay h of
                None \<Rightarrow> (\<lambda>_. not_found) | Some svc \<Rightarrow> postRelay svc body)
          | GetRelay i \<Rightarrow> bearerAuth E hdr (case h_Relay h of
                None \<Rightarrow> (\<lambda>_. not_found) | Some svc \<Rightarrow> getRelay E i)))))"

text \<open>The handlers that \<open>main\<close> builds, with every service.\<close>

definition main_handlers :: "('w, 'z) Service \<Rightarrow> Keystore \<Rightarrow> ('w, 'z) Handlers" where
  "main_handlers svc K = \<lparr>h_env = svc_env svc, h_Apps = Some (App_NewService K), h_Relay = Some svc,
     h_Chain = Some (svc_env svc), h_Treasury = Some (Treasury_NewService K)\<rparr>"

definition serve :: "('w, 'z) Service \<Rightarrow> Keystore \<Rightarrow> string \<Rightarrow> route \<Rightarrow> ('w, 'z, reply) pool_op" where
  "serve svc K = NewRouter (main_handlers svc K)"

lemma serve_routes:
  "serve svc K hdr r = (let E = svc_env svc in
     (case r of
        Health \<Rightarrow> health
      | PostApps body \<Rightarrow> createApp E K body
      | GetSigners i \<Rightarrow> bearerAuth E hdr (listSigners E i)
      | GetBalances i \<Rightarrow> bearerAuth E hdr (getBalances E (Some E) i)
      | PostSweep i body \<Rightarrow> bearerAuth E hdr (sweepTreasury E (Some (Treasury_NewService K)) i body)
      | PostRelay body \<Rightarrow> bearerAuth E hdr (postRelay svc body)
      | GetRelay i \<Rightarrow> bearerAuth E hdr (getRelay E i)))"
  by (cases r) (simp_all add: serve_def main_handlers_def NewRouter_def App_NewService_def)

section \<open>Who gets past the middleware\<close>

lemma extractBearerToken_Inr: "extractBearerToken hdr = Inr tok \<longleftrightarrow> hdr = ''Bearer '' @ tok \<and> tok \<noteq> []"
proof (cases "\<exists>t. hdr = ''Bearer '' @ t")
  case True
  then obtain t where "hdr = ''Bearer '' @ t" by blast
  then show ?thesis
    using HasPrefix_append [of "''Bearer ''" t] TrimPrefix_append [of "''Bearer ''" t]
    by (auto simp: extractBearerToken_def Let_def)
next
  case False
  then show ?thesis using HasPrefix_iff [of hdr "''Bearer ''"] by (auto simp: extractBearerToken_def)
qed

lemma Authenticate_run:
  obtains (refused) e w where "run_state (Authenticate E tok) s = (Inl e, s\<lparr>world := w\<rparr>)"
  | (known) a w where "a \<in> set (apps (db s))" "a_bearer_token_hash a = sha256 E tok" "tok \<noteq> []"
      "run_state (Authenticate E tok) s =
         (Inr \<lparr>id_AppID = a_id a, id_PoolSize = a_pool_size a, id_Disabled = a_disabled a\<rparr>, s\<lparr>world := w\<rparr>)"
proof (cases "tok = []")
  case True
  then show ?thesis by (intro refused [of ErrInvalidToken "world s"]) (simp add: Authenticate_def)
next
  case False
  let ?q = "\<lambda>now d. case lookup_row a_bearer_token_hash (sha256 E tok) (apps d) of
             None \<Rightarrow> Inl ErrNoRows
           | Some a \<Rightarrow> Inr \<lparr>id_AppID = a_id a, id_PoolSize = a_pool_size a, id_Disabled = a_disabled a\<rparr>"
  have none: ?thesis if "run_state (db_query E ?q) s = (Inl e, s\<lparr>world := w\<rparr>)" for e w
    using that False
    by (intro refused [of "if errors_Is e ErrNoRows then ErrInvalidToken else Wrap ''authenticate'' e" w])
       (simp add: Authenticate_def Let_def)
  show ?thesis
  proof (cases rule: run_db_query [of E ?q s])
    case (ran now w)
    show ?thesis
    proof (cases "lookup_row a_bearer_token_hash (sha256 E tok) (apps (db s))")
      case None
      with ran none show ?thesis by simp
    next
      case (Some a)
      with ran False lookup_row_Some [OF Some] show ?thesis by (intro known) (auto simp: Authenticate_def Let_def)
    qed
  qed (rule none)
qed

lemma bearerAuth_run:
  obtains (refused) x w where "run_state (bearerAuth E hdr nxt) s = (x, s\<lparr>world := w\<rparr>)" "reply_status x \<in> {401, 403, 500}"
      "\<nexists>c p. x = JSON c p"
  | (admitted) a tok w where "hdr = ''Bearer '' @ tok" "a \<in> set (apps (db s))" "a_bearer_token_hash a = sha256 E tok"
      "\<not> a_disabled a" "run_state (bearerAuth E hdr nxt) s = run_state (nxt (a_id a)) (s\<lparr>world := w\<rparr>)"
proof (cases "extractBearerToken hdr")
  case (Inl e)
  then show ?thesis
    by (intro refused [of "HTTPError 401 ''missing or invalid Authorization header''" "world s"]) (simp_all add: bearerAuth_def)
next
  case (Inr tok)
  show ?thesis
  proof (cases rule: Authenticate_run [of E tok s])
    case (refused e w)
    with Inr show ?thesis
      by (intro that(1) [of "if errors_Is e ErrInvalidToken then HTTPError 401 ''invalid token'' else Failed e" w])
         (simp_all add: bearerAuth_def)
  next
    case (known a w)
    show ?thesis
    proof (cases "a_disabled a")
      case True
      with Inr known show ?thesis
        by (intro that(1) [of "HTTPError 403 ''app is disabled''" w]) (simp_all add: bearerAuth_def)
    next
      case False
      have "hdr = ''Bearer '' @ tok" using Inr by (simp only: extractBearerToken_Inr)
      with Inr known False show ?thesis by (intro that(2) [of tok a w]) (simp_all add: bearerAuth_def)
    qed
  qed
qed

text \<open>Reading endpoints change nothing.\<close>

lemma Accounts_leaves_db [leaves_rules]: "leaves db (Accounts E i)"
  unfolding Accounts_def by (intro leaves_rules)

lemma fetch_balances_leaves [leaves_rules]: "leaves db (fetch_balances E as)"
  by (induction as) (auto intro!: leaves_rules)

lemma fetch_balances_length: "length (fst (run_state (fetch_balances E as) s)) = length as"
  by (induction as arbitrary: s) (auto simp: case_prod_beta)

lemma read_handlers_leave_db:
  "leaves db (listSigners E i a)" "leaves db (getBalances E C i a)" "leaves db (getRelay E i a)"
  unfolding listSigners_def getBalances_def getRelay_def by (intro leaves_rules)+

text \<open>What the status endpoint can show: a request of the caller's own app.\<close>

lemma getRelay_own:
  assumes "run_state (getRelay E i appID) s = (JSON c (JStatus st), s')"
  obtains r where "r \<in> set (relay_requests (db s))" "pgUuid E i = Some (r_id r)" "r_app_id r = appID"
    "st = status_document r (latest_attempt (r_id r) (db s))"
proof -
  let ?q = "\<lambda>now d. own_row E i appID d"
  from assms have "own_row E i appID (db s) = Inr st"
    by (cases rule: run_db_query [of E ?q s]; cases "own_row E i appID (db s)")
       (auto simp: getRelay_def Get_def run_attempt split: if_splits)
  then show ?thesis by (rule own_row_Inr) (rule that)
qed

lemma getRelay_shape: "fst (run_state (getRelay E i a) s) = JSON c p \<Longrightarrow> \<exists>st. p = JStatus st"
  by (auto simp: getRelay_def run_attempt split: prod.splits sum.splits if_splits)

text \<open>Call data survives its transport encoding.\<close>

lemma decodeHexBytes_encode: "decodeHexBytes (''0x'' @ hex_EncodeToString b) = Inr b"
proof -
  have "TrimPrefix (''0x'' @ hex_EncodeToString b) ''0x'' = hex_EncodeToString b" by (rule TrimPrefix_append)
  moreover have "hex_EncodeToString b = [] \<longleftrightarrow> b = []" using arg_cong [OF length_hex_Encode [of b], of "\<lambda>n. n = 0"] by (simp del: length_hex_Encode)
  ultimately show ?thesis by (auto simp: decodeHexBytes_def Let_def)
qed

text \<open>A relay request that is accepted was submitted, as the body says.\<close>

lemma postRelay_accepted:
  assumes "run_state (postRelay svc (Some req) appID) s = (JSON c p, s')"
  obtains dat v res where "decodeHexBytes (rq_Data req) = Inr dat" "0 \<le> v"
    "run_state (Submit svc (relay_input (svc_env svc) appID req dat v)) s = (Inr res, s')" "c = 202"
    "p = JRelay \<lparr>rr_RequestID = sr_RequestID res, rr_TxHash = hashHex (svc_env svc) (sr_TxHash res),
                rr_Signer = addrHex (svc_env svc) (sr_Signer res)\<rparr>"
proof -
  let ?v = "case SetString10 (rq_Value req) of None \<Rightarrow> 0 | Some x \<Rightarrow> x"
  from assms obtain dat where dat: "decodeHexBytes (rq_Data req) = Inr dat"
    by (auto simp: postRelay_def Let_def split: if_splits sum.splits)
  obtain x s1 where sub: "run_state (Submit svc (relay_input (svc_env svc) appID req dat ?v)) s = (x, s1)" by fastforce
  have v: "rq_Value req = [] \<or> 0 \<le> ?v"
    using assms dat by (auto simp: postRelay_def Let_def split: if_splits option.splits)
  then have "0 \<le> ?v" by auto
  with assms dat sub show ?thesis
    by (cases x) (auto simp: postRelay_def Let_def split: if_splits intro!: that)
qed

end
