(* ===== verification/Programs.thy ===== *)
theory Programs
  imports Config Api Watcher
begin

text \<open>
  The commands: \<open>cmd/txmill\<close> (start-up of the whole service), \<open>cmd/alert-test\<close> and
  \<open>cmd/migrate\<close>, with \<open>internal/store/db.go\<close>. What the libraries they call return is a parameter;
  a command that ends returns its exit code. \<open>main_exit\<close> is the whole of \<open>main\<close>, to the end of the
  process.
\<close>

section \<open>The database pool\<close>

definition store_NewPool :: "unit res \<Rightarrow> unit res \<Rightarrow> unit res" where
  "store_NewPool pgxNew ping =
     (case pgxNew of
        Inl e \<Rightarrow> Inl (Wrap ''pgxpool new'' e)
      | Inr _ \<Rightarrow> (case ping of Inl e \<Rightarrow> Inl (Wrap ''pgxpool ping'' e) | Inr _ \<Rightarrow> Inr ()))"

section \<open>txmill\<close>

text \<open>
  What runs after start-up: the relay service with its webhooks, the three workers, the HTTP
  handlers, and the outcome of the recovery scan, which is only logged.
\<close>

record ('w, 'z) System =
  sys_Keystore :: Keystore
  sys_Service :: "('w, 'z) Service"
  sys_Watcher :: "('w, 'z pool_state_ext ks_state_ext) Watcher"
  sys_WebhookWorker :: "'w Webhook_Worker"
  sys_GasWorker :: "'w Gas_Worker"
  sys_Handlers :: "('w, 'z) Handlers"
  sys_Recovery :: "RecoveryReport res"

text \<open>
  \<open>main\<close> up to the HTTP server: the services talk to the node of the chain id that \<open>Dial\<close> has
  verified, and the signer pool and the throttle start empty.
\<close>

definition main ::
  "(string \<Rightarrow> string) \<Rightarrow> unit res \<Rightarrow> unit res \<Rightarrow> unit res \<Rightarrow> unit res \<Rightarrow> int res \<Rightarrow> 'w env
   \<Rightarrow> ('w, 'z, nat + ('w, 'z alert_state_ext) System) alert_op" where
  "main os pgxNew ping mkdirAll conn rpcChainID E =
     (case startup os (store_NewPool pgxNew ping) mkdirAll conn rpcChainID of
        Inl code \<Rightarrow> ret (Inl code)
      | Inr wr \<Rightarrow> (let E' = E\<lparr>chainID := ChainID (wr_Chain wr)\<rparr>; K = wr_Keystore wr; cfg = wr_Config wr in do {
          report \<leftarrow> Recover E';
          writes (\<lambda>s. s\<lparr>pools := NewPool, sent := (\<lambda>_. Map.empty)\<rparr>);
          ret (Inr
            \<lparr>sys_Keystore = K, sys_Service = txmill_service E' K,
             sys_Watcher = txmill_watcher E' (millis (c_WatcherIntervalMs cfg)) (sint (c_WatcherBatchSize cfg)),
             sys_WebhookWorker = Webhook_NewWorker E' (millis (c_WatcherIntervalMs cfg)) (sint (c_WatcherBatchSize cfg)),
             sys_GasWorker = Gas_NewWorker E' K (Some (buildNotifier cfg)) (millis (c_GasIntervalMs cfg)),
             sys_Handlers = main_handlers (txmill_service E' K) K, sys_Recovery = report\<rparr>) }))"

subsection \<open>The end of the process\<close>

text \<open>
  What can happen in the running process: \<open>Start\<close> of the HTTP server returns, the \<open>Run\<close> of a worker
  returns, a \<open>SIGINT\<close> or \<open>SIGTERM\<close> arrives, or the main goroutine finishes the call it is in. A
  server that stops other than by being closed makes \<open>os.Exit(1)\<close>, and a panic of a worker, which no
  goroutine recovers, ends a Go program with status 2: both at any moment, and without the deferred
  calls. (The panic of an HTTP handler is recovered by \<open>net/http\<close>.)
\<close>

datatype proc_event = ServerReturned "unit res" | WorkerReturned "unit res" | Signalled | MainNext

fun crash_code :: "proc_event \<Rightarrow> nat option" where
  "crash_code (ServerReturned (Inl e)) = (if \<not> errors_Is e ErrServerClosed then Some 1 else None)"
| "crash_code (WorkerReturned (Inl e)) = (if is_panic e then Some 2 else None)"
| "crash_code _ = None"

text \<open>
  The first signal ends the wait of the main goroutine. What it then does is a list of calls, the
  deferred ones last, the latest first. When it has made them all, the process ends with code 0.
\<close>

datatype teardown = CancelWorkers | ShutdownServer int | CancelTimeout | CloseChain | ClosePool

definition main_shutdown :: "teardown list" where
  "main_shutdown = [CancelWorkers, ShutdownServer (5 * 10 ^ 9)] @ [CancelTimeout, CancelWorkers, CloseChain, ClosePool]"

text \<open>The exit code and the calls made; \<open>None\<close> while nothing has ended the process.\<close>

fun main_stop :: "teardown list \<Rightarrow> teardown list \<Rightarrow> proc_event list \<Rightarrow> (nat \<times> teardown list) option" where
  "main_stop [] made es = Some (0, made)"
| "main_stop (c # cs) made [] = None"
| "main_stop (c # cs) made (e # es) =
     (case crash_code e of
        Some code \<Rightarrow> Some (code, made)
      | None \<Rightarrow> if e = MainNext then main_stop cs (made @ [c]) es else main_stop (c # cs) made es)"

fun main_wait :: "proc_event list \<Rightarrow> (nat \<times> teardown list) option" where
  "main_wait [] = None"
| "main_wait (e # es) =
     (case crash_code e of
        Some code \<Rightarrow> Some (code, [])
      | None \<Rightarrow> if e = Signalled then main_stop main_shutdown [] es else main_wait es)"

definition main_exit ::
  "(string \<Rightarrow> string) \<Rightarrow> unit res \<Rightarrow> unit res \<Rightarrow> unit res \<Rightarrow> unit res \<Rightarrow> int res \<Rightarrow> 'w env \<Rightarrow> proc_event list
   \<Rightarrow> ('w, 'z, (nat \<times> teardown list) option) alert_op" where
  "main_exit os pgxNew ping mkdirAll conn rpcChainID E es = do {
     out \<leftarrow> main os pgxNew ping mkdirAll conn rpcChainID E;
     ret (case out of Inl code \<Rightarrow> Some (code, []) | Inr sys \<Rightarrow> main_wait es) }"

text \<open>
  Events that do not crash the process let the wait go on, and after a signal let the main goroutine
  make as many calls as it finishes.
\<close>

abbreviation calls_made :: "proc_event list \<Rightarrow> nat" where
  "calls_made es \<equiv> length (filter ((=) MainNext) es)"

lemma main_wait_append:
  "\<forall>x \<in> set ds. x \<noteq> Signalled \<and> crash_code x = None \<Longrightarrow> main_wait (ds @ es) = main_wait es"
  by (induction ds) auto

lemma main_wait_quiet: "\<forall>x \<in> set es. x \<noteq> Signalled \<and> crash_code x = None \<Longrightarrow> main_wait es = None"
  using main_wait_append [of es "[]"] by simp

lemma main_wait_crash:
  "\<forall>x \<in> set ds. x \<noteq> Signalled \<and> crash_code x = None \<Longrightarrow> crash_code e = Some code \<Longrightarrow> main_wait (ds @ e # us) = Some (code, [])"
  by (simp add: main_wait_append)

lemma main_stop_append:
  "\<forall>x \<in> set fs. crash_code x = None \<Longrightarrow> main_stop cs made (fs @ es) =
     (if length cs \<le> calls_made fs then Some (0, made @ cs)
      else main_stop (drop (calls_made fs) cs) (made @ List.take (calls_made fs) cs) es)"
proof (induction fs arbitrary: cs made)
  case Nil
  show ?case by (cases cs) auto
next
  case (Cons f fs)
  then show ?case by (cases cs) auto
qed

lemma main_stop_next: "cs \<noteq> [] \<Longrightarrow> main_stop cs made [] = None"
  "cs \<noteq> [] \<Longrightarrow> crash_code e = Some code \<Longrightarrow> main_stop cs made (e # es) = Some (code, made)"
  by (cases cs; simp)+

text \<open>The whole wait after a signal, by the events up to the first crash.\<close>

lemma main_wait_signalled:
  assumes "\<forall>x \<in> set ds. x \<noteq> Signalled \<and> crash_code x = None" and "\<forall>x \<in> set fs. crash_code x = None"
  shows "calls_made fs \<ge> 6 \<Longrightarrow> main_wait (ds @ Signalled # fs @ us) = Some (0, main_shutdown)"
    and "calls_made fs < 6 \<Longrightarrow> main_wait (ds @ Signalled # fs) = None"
    and "calls_made fs < 6 \<Longrightarrow> crash_code e = Some code \<Longrightarrow>
      main_wait (ds @ Signalled # fs @ e # us) = Some (code, List.take (calls_made fs) main_shutdown)"
proof -
  have len: "length main_shutdown = 6" by (simp add: main_shutdown_def)
  have d: "drop (calls_made fs) main_shutdown \<noteq> []" if "calls_made fs < 6" using that len by simp
  have wait: "main_wait (ds @ Signalled # vs) = main_stop main_shutdown [] vs" for vs
    using main_wait_append [OF assms(1)] by simp
  note stop = main_stop_append [OF assms(2), of main_shutdown "[]"]
  show "main_wait (ds @ Signalled # fs @ us) = Some (0, main_shutdown)" if "calls_made fs \<ge> 6"
    using that len by (simp add: wait stop)
  show "main_wait (ds @ Signalled # fs) = None" if "calls_made fs < 6"
    using that len d [OF that] stop [of "[]"] by (simp add: wait main_stop_next)
  show "main_wait (ds @ Signalled # fs @ e # us) = Some (code, List.take (calls_made fs) main_shutdown)"
    if "calls_made fs < 6" "crash_code e = Some code"
    using that(2) d [OF that(1)] that(1) len by (simp add: wait stop main_stop_next)
qed

lemma main_cases:
  obtains (stopped) code where "run_state (main os pgxNew ping mkdirAll conn rpcChainID E) s = (Inl code, s)" "code = 1 \<or> code = 2"
      "code = 2 \<longleftrightarrow> c_DBURL (Config_Load os) = [] \<or> c_RPCURL (Config_Load os) = []"
  | (started) sys s' where "run_state (main os pgxNew ping mkdirAll conn rpcChainID E) s = (Inr sys, s')" "db s' = db s"
      "c_DBURL (Config_Load os) \<noteq> []" "c_RPCURL (Config_Load os) \<noteq> []"
proof (cases "startup os (store_NewPool pgxNew ping) mkdirAll conn rpcChainID")
  case (Inl code)
  then have "code = 1 \<or> code = 2" "code = 2 \<longleftrightarrow> c_DBURL (Config_Load os) = [] \<or> c_RPCURL (Config_Load os) = []"
    by (auto simp: startup_def Let_def split: if_splits sum.splits)
  with Inl show ?thesis by (intro stopped) (simp_all add: main_def)
next
  case (Inr wr)
  then have "c_DBURL (Config_Load os) \<noteq> []" "c_RPCURL (Config_Load os) \<noteq> []"
    by (auto simp: startup_def Let_def split: if_splits)
  moreover obtain rep s1 where "run_state (Recover (E\<lparr>chainID := ChainID (wr_Chain wr)\<rparr>)) s = (rep, s1)" "db s1 = db s"
    using leavesD [OF Recover_reads] by (metis prod.collapse)
  ultimately show ?thesis using Inr
    by (intro started [of _ "s1\<lparr>pools := NewPool, sent := (\<lambda>_. Map.empty)\<rparr>"]) (auto simp: main_def Let_def)
qed

section \<open>alert-test\<close>

text \<open>\<open>stamp\<close> is the formatted current time.\<close>

definition alert_test :: "(string \<Rightarrow> string) \<Rightarrow> string \<Rightarrow> 'w env \<Rightarrow> ('w, 'z, nat) alert_op" where
  "alert_test os stamp E =
     (let ts = transports (Config_Load os) in
      if ts = [] then ret 2
      else attempt (Notify E (Multi ts)
             \<lparr>al_Key = ''alert_test'', al_Level = LevelInfo, al_Title = ''txmill alert test'',
              al_Message = ''Test alert dispatched at '' @ stamp, al_Tags = [(''source'', ''alert-test'')]\<rparr>)
             (\<lambda>_. ret 1) (\<lambda>_. ret 0))"

section \<open>migrate\<close>

definition migrate ::
  "string list \<Rightarrow> (string \<Rightarrow> string) \<Rightarrow> unit res \<Rightarrow> unit res \<Rightarrow> (string \<Rightarrow> string list \<Rightarrow> unit res) \<Rightarrow> nat" where
  "migrate argv os sqlOpen setDialect gooseRun =
     (if length argv < 2 then 2
      else if c_DBURL (Config_Load os) = [] then 2
      else (case sqlOpen of Inl e \<Rightarrow> 1
        | Inr _ \<Rightarrow> (case setDialect of Inl e \<Rightarrow> 1
        | Inr _ \<Rightarrow> (case gooseRun (argv ! 1) (drop 2 argv) of Inl e \<Rightarrow> 1
        | Inr _ \<Rightarrow> 0))))"

end
