(* ===== verification/System.thy ===== *)
theory System
  imports Relay_Ledger Programs
begin

text \<open>
  The whole program: the interleaved relay requests and workers of \<open>Relay_Steps\<close> together with
  every other HTTP request and the gas worker. What the relay guarantees of signers, nonces and
  the database survives them, because none of them touches the pools and all of them keep the
  schema and the recorded transactions.
\<close>

section \<open>Steps of the program\<close>

text \<open>
  A relay request runs as a thread of \<open>step\<close>; the other requests, and the handling of one app by
  the gas worker with a policy it read at some time, act at once.
\<close>

inductive system_step :: "('w, 'z alert_state_ext) Service \<Rightarrow> Keystore \<Rightarrow> Notifier
    \<Rightarrow> ('w, 'z alert_state_ext) config \<Rightarrow> ('w, 'z alert_state_ext) config \<Rightarrow> bool"
  for svc K n where
  relay: "step svc c c' \<Longrightarrow> system_step svc K n c c'"
| request: "\<forall>body. rt \<noteq> PostRelay body \<Longrightarrow> run_state (serve svc K hdr rt) (shared c) = (x, s') \<Longrightarrow>
    system_step svc K n c (c\<lparr>shared := s'\<rparr>)"
| topup: "run_state (processApp (svc_env svc) K n p) (shared c) = (y, s') \<Longrightarrow>
    system_step svc K n c (c\<lparr>shared := s'\<rparr>)"

inductive system_reachable for svc K n where
  start: "system_reachable svc K n c c"
| next_step: "system_reachable svc K n c c1 \<Longrightarrow> system_step svc K n c1 c2 \<Longrightarrow> system_reachable svc K n c c2"

section \<open>The other requests\<close>

lemma file_ops_leave_pools [leaves_rules]:
  "leaves pools (os_WriteFile E f b)" "leaves pools (os_Rename E f g)" "leaves pools (os_Remove E f)"
  unfolding os_WriteFile_def os_Rename_def os_Remove_def by (intro leaves_rules leaves_writes; simp)+

lemma Generate_leaves_pools [leaves_rules]: "leaves pools (Generate E K)"
  unfolding Generate_def Keystore_write_def replace_file_def Let_def by (intro leaves_rules)

lemma generate_signers_leaves_pools [leaves_rules]: "leaves pools (generate_signers E K i n)"
  by (induction E K i n rule: generate_signers.induct) (auto intro!: leaves_rules)

lemma Create_leaves_pools [leaves_rules]: "leaves pools (Create E K inp)"
  unfolding Create_def Let_def newBearerToken_def newCallbackSecret_def App_insert_def
  by (intro leaves_rules)

lemma fetch_balances_leaves_pools [leaves_rules]: "leaves pools (fetch_balances E as)"
  by (induction as) (auto intro!: leaves_rules)

lemma handlers_leave_pools [leaves_rules]:
  "leaves pools (createApp E K body)" "leaves pools (listSigners E i a)" "leaves pools (getBalances E C i a)"
  "leaves pools (sweepTreasury E T i sw a)" "leaves pools (getRelay E i a)" "leaves pools health"
  unfolding createApp_def listSigners_def getBalances_def sweepTreasury_def getRelay_def Get_def Accounts_def Sweep_def
    health_def Let_def
  by (intro leaves_rules)+

text \<open>The requests other than relays, and the gas worker, leave the attempts alone.\<close>

definition calm :: "database \<Rightarrow> database \<Rightarrow> bool" where
  "calm d d' \<longleftrightarrow> (data_ok d \<longrightarrow> data_ok d') \<and> tx_attempts d' = tx_attempts d"

interpretation cm: db_guarantee calm
  by unfold_locales (auto simp: calm_def)

lemma Create_calm: "guarantees calm (Create E K inp)"
  unfolding guarantees_def
proof
  fix s :: "('a, 'b) ks_state_scheme"
  obtain r s' where run: "run_state (Create E K inp) s = (r, s')" by fastforce
  have wf: "db_wf (db s) \<Longrightarrow> db_wf (db s')" using keepsD [OF Create_keeps_wf _ run] by simp
  show "calm (db s) (db (snd (run_state (Create E K inp) s)))"
  proof (cases r)
    case (Inl e)
    with run all_or_nothingD [OF Create_all_or_nothing] show ?thesis by (fastforce simp: calm_def)
  next
    case (Inr res)
    with run Create_success [of E K inp s res s']
    have "webhook_deliveries (db s') = webhook_deliveries (db s) \<and> tx_attempts (db s') = tx_attempts (db s)" by fastforce
    with wf run show ?thesis by (simp add: calm_def data_ok_def deliveries_ok_def)
  qed
qed

lemma bearerAuth_calm:
  assumes "run_state (bearerAuth E hdr nxt) s = (x, s')"
    and "\<And>a w y t. run_state (nxt a) (s\<lparr>world := w\<rparr>) = (y, t) \<Longrightarrow> pools t = pools s \<and> calm (db s) (db t)"
  shows "pools s' = pools s \<and> calm (db s) (db s')"
  by (cases rule: bearerAuth_run [of E hdr nxt s]) (use assms cm.R_refl in auto)

lemma handlers_leave_db:
  "leaves db (listSigners E i a)" "leaves db (getBalances E C i a)" "leaves db (sweepTreasury E T i sw a)"
  "leaves db (getRelay E i a)" "leaves db health"
  unfolding sweepTreasury_def health_def Let_def
  by (intro read_handlers_leave_db leaves_rules Sweep_leaves_db)+

lemma createApp_calm: "guarantees calm (createApp E K body)"
proof (cases body)
  case (Some req)
  then show ?thesis unfolding createApp_def
    by (simp, intro cm.attempts Create_calm) (rule cm.leaving, rule leaves_return)+
qed (simp add: createApp_def cm.leaving leaves_return)

lemma serve_calm:
  assumes "\<forall>body. rt \<noteq> PostRelay body" and "run_state (serve svc K hdr rt) s = (x, s')"
  shows "pools s' = pools s \<and> calm (db s) (db s')"
proof -
  have quiet: "pools t = pools u \<and> calm (db u) (db t)" if "leaves pools m" "leaves db m" "run_state m u = (y, t)" for m u y t
    using leavesD [OF that(1,3)] leavesD [OF that(2,3)] cm.R_refl by simp
  show ?thesis
  proof (cases rt)
    case Health
    with assms(2) show ?thesis by (intro quiet [of health]) (auto simp: serve_routes Let_def handlers_leave_pools handlers_leave_db)
  next
    case (PostApps body)
    with assms(2) have "run_state (createApp (svc_env svc) K body) s = (x, s')" by (simp add: serve_routes Let_def)
    with guaranteesD [OF createApp_calm] leavesD [OF handlers_leave_pools(1)] show ?thesis by blast
  qed (use assms in \<open>auto simp: serve_routes Let_def elim!: bearerAuth_calm dest!: quiet [rotated 2] intro: handlers_leave_pools handlers_leave_db\<close>)
qed

lemma processApp_calm:
  assumes "run_state (processApp E K n p) s = (y, s')"
  shows "pools s' = pools s \<and> calm (db s) (db s')"
  using processApp_run [OF assms]
  by (auto simp: gas_run_def gas_frame_def topped_def calm_def data_ok_def deliveries_ok_def)

section \<open>Invariants of the program\<close>

text \<open>What the relay keeps: ownership and nonces of the signers, the schema, write-ahead and the ledger.\<close>

definition system_pools :: "('w, 'z) config \<Rightarrow> bool" where
  "system_pools c \<longleftrightarrow> threads_ok (threads c) \<and> pool_inv (held_of (threads c)) (pools (shared c)) \<and>
     nonces_ok (threads c) (accepted c) (pools (shared c))"

definition system_data :: "'w env \<Rightarrow> ('w, 'z) config \<Rightarrow> bool" where
  "system_data E c \<longleftrightarrow> data_ok (db (shared c)) \<and> written_ahead E c \<and>
     ledger E (threads c) (accepted c) (db (shared c))"

lemma system_calm:
  assumes "pools s' = pools (shared c) \<and> calm (db (shared c)) (db s')"
  shows "system_pools c \<Longrightarrow> system_pools (c\<lparr>shared := s'\<rparr>)" "system_data E c \<Longrightarrow> system_data E (c\<lparr>shared := s'\<rparr>)"
proof -
  have "ledger E ts log (db (shared c)) \<Longrightarrow> ledger E ts log (db s')" for ts log
    using assms by (auto simp: calm_def intro: ledger_kept kept_same)
  with assms show "system_pools c \<Longrightarrow> system_pools (c\<lparr>shared := s'\<rparr>)" "system_data E c \<Longrightarrow> system_data E (c\<lparr>shared := s'\<rparr>)"
    by (auto simp: system_pools_def system_data_def written_ahead_def hashes_def calm_def)
qed

lemma system_step_inv:
  assumes "system_step (txmill_service E K) K n c c'"
  shows "system_pools c \<Longrightarrow> system_pools c'" "system_data E c \<Longrightarrow> system_data E c'"
proof -
  from assms have "(system_pools c \<longrightarrow> system_pools c') \<and> (system_data E c \<longrightarrow> system_data E c')"
  proof (cases rule: system_step.cases)
    case relay
    then show ?thesis
      using txmill.step_threads_ok [OF relay] txmill.step_pool_inv [OF relay] txmill.step_nonces_ok [OF relay] txmill.step_db [OF relay]
        txmill.step_written_ahead [OF relay] txmill.step_ledger [OF relay] by (auto simp: system_pools_def system_data_def)
  next
    case (request rt hdr x s')
    then show ?thesis using system_calm [OF serve_calm [OF request(2,3)]] by blast
  next
    case (topup p y s')
    then show ?thesis using system_calm [OF processApp_calm [OF topup(2)]] by blast
  qed
  then show "system_pools c \<Longrightarrow> system_pools c'" "system_data E c \<Longrightarrow> system_data E c'" by blast+
qed

lemma system_initial:
  "initial c \<Longrightarrow> system_pools c" "initial c \<Longrightarrow> data_ok (db (shared c)) \<Longrightarrow> system_data E c"
proof -
  have "nonces_ok [] [] NewPool" by (simp add: nonces_ok_def NewPool_def)
  then show "initial c \<Longrightarrow> system_pools c" "initial c \<Longrightarrow> data_ok (db (shared c)) \<Longrightarrow> system_data E c"
    by (simp_all add: system_pools_def system_data_def initial_def written_ahead_def threads_ok_def
      ledger_def unshared_def)
qed

lemma system_reachable_pools:
  "system_reachable (txmill_service E K) K n c0 c \<Longrightarrow> initial c0 \<Longrightarrow> system_pools c"
  by (induction rule: system_reachable.induct) (auto intro: system_initial system_step_inv)

lemma system_reachable_data:
  "system_reachable (txmill_service E K) K n c0 c \<Longrightarrow> initial c0 \<Longrightarrow> data_ok (db (shared c0)) \<Longrightarrow> system_data E c"
  by (induction rule: system_reachable.induct) (auto intro: system_initial system_step_inv)

lemma system_step_extends:
  assumes "system_step (txmill_service E K) K n c c'"
  shows "extends (pools (shared c)) (pools (shared c'))"
  using assms
proof (cases rule: system_step.cases)
  case relay
  then show ?thesis by (rule txmill.step_extends)
next
  case (request rt hdr x s')
  then show ?thesis using serve_calm [OF request(2,3)] by simp
next
  case (topup p y s')
  then show ?thesis using processApp_calm [OF topup(2)] by simp
qed

lemma system_reachable_extends:
  "system_reachable (txmill_service E K) K n c0 c \<Longrightarrow> extends (pools (shared c0)) (pools (shared c))"
  by (induction rule: system_reachable.induct) (auto intro: extends_trans system_step_extends)

lemma reachable_system: "reachable svc c0 c \<Longrightarrow> system_reachable svc K n c0 c"
proof (induction rule: reachable.induct)
  case (next_step c1 c2)
  then show ?case by (meson system_reachable.next_step system_step.relay)
qed (rule system_reachable.start)

section \<open>From start-up\<close>

text \<open>\<open>main\<close> leaves the database alone and starts the service with nothing loaded or in flight.\<close>

lemma main_started:
  assumes "run_state (main os pgxNew ping mkdirAll conn rpcChainID E) s = (Inr sys, s')"
  obtains K E' cfg where "E' = E\<lparr>chainID := uint (c_ChainID cfg)\<rparr>" "cfg = Config_Load os" "rpcChainID = Inr (uint (c_ChainID cfg))"
    "sys_Keystore sys = K" "ks_password K \<noteq> []" "sys_Service sys = txmill_service E' K"
    "sys_Watcher sys = txmill_watcher E' (millis (c_WatcherIntervalMs cfg)) (sint (c_WatcherBatchSize cfg))"
    "sys_WebhookWorker sys = Webhook_NewWorker E' (millis (c_WatcherIntervalMs cfg)) (sint (c_WatcherBatchSize cfg))"
    "sys_GasWorker sys = Gas_NewWorker E' K (Some (buildNotifier cfg)) (millis (c_GasIntervalMs cfg))"
    "sys_Handlers sys = main_handlers (txmill_service E' K) K"
    "db s' = db s" "files s' = files s" "initial \<lparr>threads = [], shared = s', accepted = []\<rparr>" "sent s' = (\<lambda>_. Map.empty)"
proof (cases "startup os (store_NewPool pgxNew ping) mkdirAll conn rpcChainID")
  case (Inl code)
  with assms show ?thesis by (simp add: main_def)
next
  case (Inr wr)
  let ?E = "E\<lparr>chainID := ChainID (wr_Chain wr)\<rparr>"
  obtain rep s1 where run: "run_state (Recover ?E) s = (rep, s1)" by fastforce
  have "leaves files (Recover ?E)" unfolding Recover_def by (intro leaves_rules)
  from leavesD [OF this run] leavesD [OF Recover_reads run] Inr assms run startup_started [OF Inr] show ?thesis
    by (intro that [of ?E "Config_Load os" "wr_Keystore wr"]) (auto simp: main_def Let_def initial_def)
qed

end
