(* ===== verification/Progress.thy ===== *)
theory Progress
  imports System
begin

text \<open>
  What the program comes to. A request that waits for a signer can be served: whoever holds one
  of the app's signers gives it back within nine actions of its own. And what a process has
  broadcast is resolved by the next one, at whatever moment the first one died.
\<close>

section \<open>Requests come to an end\<close>

lemma thread_finishes:
  assumes "j < length (threads c)" and "threads c ! j = (inp, p)"
  shows "\<exists>n c' out. n \<le> remaining p \<and> (step svc ^^ n) c c' \<and> threads c' = (threads c)[j := (inp, PDone out)]"
  using assms
proof (induction "remaining p" arbitrary: p c rule: less_induct)
  case less
  show ?case
  proof (cases "remaining p")
    case 0
    then obtain out where "p = PDone out" by (auto simp: remaining_done)
    then have "threads c = (threads c)[j := (inp, PDone out)]" using less.prems by (metis list_update_id)
    then show ?thesis by (intro exI [of _ 0] exI [of _ c] exI [of _ out]) simp
  next
    case (Suc m)
    obtain p1 s1 where run: "run_state (submit_step svc inp p) (shared c) = (p1, s1)" by fastforce
    let ?c = "c\<lparr>threads := (threads c)[j := (inp, p1)], shared := s1, accepted := accepted c @ logged p p1\<rparr>"
    have st: "step svc c ?c" by (rule step.act [OF less.prems run])
    have le: "remaining p1 \<le> m" using step_remaining [of svc inp p "shared c"] run Suc by simp
    then have "remaining p1 < remaining p" using Suc by simp
    from less.hyps [OF this, of ?c] less.prems(1) obtain n c' out where
      n: "n \<le> remaining p1" "(step svc ^^ n) ?c c'" "threads c' = (threads c)[j := (inp, PDone out)]" by auto
    have "(step svc ^^ Suc n) c c'" by (rule relpowp_Suc_I2 [where P = "step svc", OF st n(2)])
    moreover have "Suc n \<le> remaining p" using n(1) le Suc by simp
    ultimately show ?thesis using n(3) by blast
  qed
qed

lemma holds_remaining: "holds p = Some r \<Longrightarrow> remaining p \<le> 9"
  by (cases p) auto

lemma steps_reachable:
  "(step svc ^^ n) c c' \<Longrightarrow> system_reachable svc K nt c0 c \<Longrightarrow> system_reachable svc K nt c0 c'"
proof (induction n arbitrary: c')
  case (Suc n)
  then obtain c1 where "(step svc ^^ n) c c1" "step svc c1 c'" by auto
  then show ?case using Suc by (meson system_reachable.next_step system_step.relay)
qed simp

section \<open>Waiting for a signer\<close>

lemma in_held_ofE:
  assumes "r \<in># held_of ts"
  obtains j inp p where "j < length ts" "ts ! j = (inp, p)" "holds p = Some r"
proof -
  have "\<exists>x \<in> set ts. holds (snd x) = Some r"
    using assms by (induction ts) (auto simp: held_by_def split: option.splits)
  then show ?thesis using that by (metis in_set_conv_nth prod.collapse)
qed

lemma held_of_done:
  assumes "pool_inv (held_of ts) P" and "j < length ts" and "ts ! j = (inp, p)" and "holds p = Some r"
  shows "r \<notin># held_of (ts[j := (inp, PDone out)])"
proof -
  have "count (held_of ts) r = Suc (count (held_of (others j ts)) r)"
    using held_of_nth [OF assms(2,3)] assms(4) by simp
  with pool_inv_once [OF assms(1), of r] have "r \<notin># held_of (others j ts)" by (simp add: not_in_iff)
  then show ?thesis using held_of_upd [OF assms(2)] by simp
qed

text \<open>A signer of the app that nobody holds is in the idle channel.\<close>

lemma idle_or_held:
  assumes "pool_inv held p" and "pool_apps p a = Some ap" and "r \<in> set (ap_signers ap)" and "r \<notin># held"
  shows "\<exists>r p'. checkout False a p = (Inr r, p')"
proof -
  have "r \<in># mset (ap_idle ap) + filter_mset (\<lambda>r. sg_AppID (heap p ! r) = a) held"
    using pool_inv_appD [OF assms(1,2)] assms(3) by (simp add: app_inv_def)
  then have "ap_idle ap \<noteq> []" using assms(4) by auto
  then show ?thesis using assms(2) by (cases "ap_idle ap") (auto simp: checkout_def)
qed

lemma checkout_comes:
  assumes reach: "system_reachable (txmill_service E K) K nt c0 c" and "initial c0"
    and ap: "pool_apps (pools (shared c)) a = Some ap"
  shows "\<exists>n c'. n \<le> 9 \<and> (step (txmill_service E K) ^^ n) c c' \<and>
    (n = 0 \<and> c' = c \<or> (\<exists>j inp p q out. j < length (threads c) \<and> threads c ! j = (inp, p) \<and> holds p = Some q \<and>
       threads c' = (threads c)[j := (inp, PDone out)])) \<and>
    (\<forall>k < length (threads c). holds (snd (threads c ! k)) = None \<longrightarrow> threads c' ! k = threads c ! k) \<and>
    (\<exists>r p'. checkout False a (pools (shared c')) = (Inr r, p'))"
proof -
  let ?svc = "txmill_service E K"
  have inv: "pool_inv (held_of (threads x)) (pools (shared x))" if "system_reachable ?svc K nt c0 x" for x
    using system_reachable_pools [OF that assms(2)] by (simp add: system_pools_def)
  have "ap_signers ap \<noteq> []" using pool_inv_appD [OF inv [OF reach] ap] by (simp add: app_inv_def)
  then obtain r where r: "r \<in> set (ap_signers ap)" using hd_in_set by blast
  show ?thesis
  proof (cases "r \<in># held_of (threads c)")
    case False
    from idle_or_held [OF inv [OF reach] ap r this] show ?thesis by (intro exI [of _ 0] exI [of _ c]) simp
  next
    case True
    then obtain j inp p where j: "j < length (threads c)" "threads c ! j = (inp, p)" "holds p = Some r" by (rule in_held_ofE)
    from thread_finishes [OF j(1,2), of ?svc] obtain n c' out where
      n: "n \<le> remaining p" "(step ?svc ^^ n) c c'" and ts: "threads c' = (threads c)[j := (inp, PDone out)]" by blast
    note reach' = steps_reachable [OF n(2) reach]
    have "extends (pools (shared c)) (pools (shared c'))"
      using system_reachable_extends [OF steps_reachable [OF n(2) system_reachable.start]] .
    with ap obtain ap' where ap': "pool_apps (pools (shared c')) a = Some ap'" "ap_signers ap' = ap_signers ap"
      unfolding extends_def by blast
    have "r \<notin># held_of (threads c')" using held_of_done [OF inv [OF reach] j] ts by simp
    from idle_or_held [OF inv [OF reach'] ap'(1) _ this] r ap'(2)
    have "\<exists>r p'. checkout False a (pools (shared c')) = (Inr r, p')" by simp
    moreover have "threads c' ! k = threads c ! k" if "holds (snd (threads c ! k)) = None" for k
      using that ts j(2,3) by (cases "k = j") auto
    moreover have "\<exists>j inp p q out. j < length (threads c) \<and> threads c ! j = (inp, p) \<and> holds p = Some q \<and>
        threads c' = (threads c)[j := (inp, PDone out)]" using j ts by blast
    ultimately show ?thesis using n holds_remaining [OF j(3)] by (intro exI [of _ n] exI [of _ c']) simp
  qed
qed

section \<open>After a crash\<close>

text \<open>What a process that died at some configuration has broadcast, in the database it leaves.\<close>

lemma broadcasts_live:
  assumes "system_reachable (txmill_service E K) K nt c0 c" and "initial c0" and "data_ok (db (shared c0))"
    and "stx \<in> snd ` set (accepted c)"
  obtains i where "live (db (shared c)) i (lowerHash E (txHash E stx))"
  using system_reachable_data [OF assms(1-3)] assms(4) unfolding system_data_def ledger_def by blast

lemma live_cases:
  assumes "live d i h"
  shows "\<exists>t \<in> set (tx_attempts d). t_tx_hash t = h \<and> (inflight t \<or> t_status t \<in> {AttConfirmed, AttReverted})"
proof -
  from assms obtain t where t: "t \<in> set (tx_attempts d)" "t_tx_hash t = h" "t_status t \<noteq> AttFailed" by (auto simp: live_def)
  then show ?thesis by (intro bexI [of _ t]) (cases "t_status t"; simp add: inflight_def)+
qed

text \<open>The watcher resolves what was live.\<close>

lemma watcher_settles:
  fixes s :: "('w, 'z) pool_state_scheme"
  assumes "no_faults E" and "0 < d" and "0 \<le> b" and "data_ok (db s)" and "all_mined E (db s)"
    and "length (filter inflight (tx_attempts (db s))) \<le> n * nat b"
  obtains s' where "run_state (Watcher_Run (txmill_watcher E d b) n) s = (Inr (), s')"
    "\<And>i h. live (db s) i h \<Longrightarrow> \<exists>t \<in> set (tx_attempts (db s')). t_tx_hash t = h \<and> t_status t \<in> {AttConfirmed, AttReverted}"
proof -
  obtain s' where run: "run_state (Watcher_Run (txmill_watcher E d b) n) s = (Inr (), s')"
    and c: "length (filter inflight (tx_attempts (db s'))) = length (filter inflight (tx_attempts (db s))) - n * nat b"
    using txw.run_drains [OF assms(1-5), of n] by (auto simp: Watcher_Run_txmill)
  have none: "\<not> inflight t" if "t \<in> set (tx_attempts (db s'))" for t
    using c assms(6) that by (simp add: filter_empty_conv)
  have "kept {} (db s) (db s')"
    by (rule guaranteesD [OF kp.run_guarantee [OF kp.tick_guarantee [OF txw.watcher_axioms]] run [unfolded Watcher_Run_txmill]])
  then have "live (db s') i h" if "live (db s) i h" for i h using kept_live that by simp
  then show ?thesis using live_cases none by (intro that [OF run]) blast
qed

end
