(* ===== verification/Sample_World.thy ===== *)
theory Sample_World
  imports Progress
begin

text \<open>
  A concrete environment and a concrete state: a node that answers every call, a database
  without faults, addresses and hashes printed as hexadecimal text, key files in a
  length-tagged encoding, and one app with one signer. The witnesses of the properties run
  the program here.
\<close>

section \<open>Hexadecimal text of fixed width\<close>

fun hex_fixed :: "nat \<Rightarrow> nat \<Rightarrow> string" where
  "hex_fixed 0 n = []"
| "hex_fixed (Suc k) n = hex_fixed k (n div 16) @ [hex_digit (n mod 16)]"

definition hex_number :: "string \<Rightarrow> nat" where
  "hex_number s = foldl (\<lambda>n c. 16 * n + (case hex_val c of None \<Rightarrow> 0 | Some d \<Rightarrow> d)) 0 (drop 2 s)"

lemma hex_fixed_number:
  "foldl (\<lambda>n c. 16 * n + (case hex_val c of None \<Rightarrow> 0 | Some d \<Rightarrow> d)) 0 (hex_fixed k n) = n mod 16 ^ k"
  by (induction k arbitrary: n) (simp_all add: mod_mult2_eq)

lemma length_hex_fixed: "length (hex_fixed k n) = k"
  by (induction k arbitrary: n) simp_all

lemma hex_digit_lower: "d < 16 \<Longrightarrow> lower_hex_char (hex_digit d) \<and> lower_char (hex_digit d) = hex_digit d"
  by (simp add: lower_hex_char_def lower_char_def hex_digit_def)

lemma hex_fixed_lower: "list_all lower_hex_char (hex_fixed k n) \<and> map lower_char (hex_fixed k n) = hex_fixed k n"
  by (induction k arbitrary: n) (simp_all add: hex_digit_lower)

definition hex_text :: "nat \<Rightarrow> 'a::len word \<Rightarrow> string" where
  "hex_text k a = ''0x'' @ hex_fixed k (unat a)"

lemma ToLower_hex_text [simp]: "ToLower (hex_text k a) = hex_text k a"
  by (simp add: ToLower_def hex_text_def hex_fixed_lower) (simp add: lower_char_def)

lemma hex_check_hex_text [simp]: "hex_check k (hex_text k a)"
  by (simp add: hex_check_def hex_text_def HasPrefix_def length_hex_fixed hex_fixed_lower)

lemma hex_number_hex_text:
  assumes "LENGTH('a) = 4 * k"
  shows "of_nat (hex_number (hex_text k (a :: 'a::len word))) = a"
proof -
  have "unat a < 2 ^ LENGTH('a)" by (rule unsigned_less)
  then have "unat a < 16 ^ k" using assms by (simp add: power_mult)
  then show ?thesis by (simp add: hex_number_def hex_text_def hex_fixed_number)
qed

section \<open>An encoding of the key file\<close>

fun put_field :: "string \<Rightarrow> bytes" where
  "put_field [] = [CHR ''.'']"
| "put_field (c # s) = CHR ''='' # c # put_field s"

fun get_field :: "bytes \<Rightarrow> (string \<times> bytes) option" where
  "get_field (t # c # b) =
     (if t = CHR ''='' then map_option (\<lambda>(s, r). (c # s, r)) (get_field b) else if t = CHR ''.'' then Some ([], c # b) else None)"
| "get_field [t] = (if t = CHR ''.'' then Some ([], []) else None)"
| "get_field [] = None"

lemma get_put_field: "get_field (put_field s @ b) = Some (s, b)"
proof (induction s)
  case Nil
  then show ?case by (cases b) simp_all
qed simp

fun get_fields :: "nat \<Rightarrow> bytes \<Rightarrow> string list option" where
  "get_fields 0 b = (if b = [] then Some [] else None)"
| "get_fields (Suc n) b = (case get_field b of None \<Rightarrow> None | Some (s, r) \<Rightarrow> map_option ((#) s) (get_fields n r))"

lemma get_put_fields: "get_fields (length ss) (concat (map put_field ss)) = Some ss"
  by (induction ss) (simp_all add: get_put_field)

definition doc_fields :: "fileFormat \<Rightarrow> string list" where
  "doc_fields f =
     [big_String (ff_Version f), ff_Address f, kdf_Name (ff_KDF f), kdf_Salt (ff_KDF f),
      show_nat (unat (kdf_Time (ff_KDF f))), show_nat (unat (kdf_Memory (ff_KDF f))),
      show_nat (unat (kdf_Threads (ff_KDF f))), show_nat (unat (kdf_KeyLen (ff_KDF f))),
      cb_Name (ff_Cipher f), cb_Nonce (ff_Cipher f), cb_Ciphertext (ff_Cipher f)]"

definition word_field :: "string \<Rightarrow> 'a::len word" where
  "word_field s = (case parse_digits s of None \<Rightarrow> 0 | Some n \<Rightarrow> of_nat n)"

fun doc_of :: "string list \<Rightarrow> fileFormat res" where
  "doc_of [v, a, kn, ks, kt, km, kp, kl, cn, co, ct] =
     Inr \<lparr>ff_Version = (case SetString10 v of None \<Rightarrow> 0 | Some x \<Rightarrow> x), ff_Address = a,
          ff_KDF = \<lparr>kdf_Name = kn, kdf_Salt = ks, kdf_Time = word_field kt, kdf_Memory = word_field km,
                    kdf_Threads = word_field kp, kdf_KeyLen = word_field kl\<rparr>,
          ff_Cipher = \<lparr>cb_Name = cn, cb_Nonce = co, cb_Ciphertext = ct\<rparr>\<rparr>"
| "doc_of _ = Inl (External ''unexpected end of JSON input'')"

definition doc_bytes :: "fileFormat \<Rightarrow> bytes" where
  "doc_bytes f = concat (map put_field (doc_fields f))"

definition put_doc :: "fileFormat \<Rightarrow> bytes res" where
  "put_doc f = Inr (doc_bytes f)"

definition get_doc :: "bytes \<Rightarrow> fileFormat res" where
  "get_doc b = (case get_fields 11 b of None \<Rightarrow> Inl (External ''invalid character'') | Some fs \<Rightarrow> doc_of fs)"

lemma word_field_show [simp]: "word_field (show_nat (unat w)) = w"
  by (simp add: word_field_def)

lemma doc_of_fields: "doc_of (doc_fields f) = Inr f"
  by (simp add: doc_fields_def)

lemma get_put_doc:
  assumes "put_doc f = Inr b"
  shows "get_doc b = Inr f"
proof -
  have "length (doc_fields f) = 11" by (simp add: doc_fields_def)
  with assms get_put_fields [of "doc_fields f"] show ?thesis
    by (auto simp: put_doc_def doc_bytes_def get_doc_def doc_of_fields)
qed

section \<open>The environment\<close>

definition sample_receipt :: Receipt where
  "sample_receipt = \<lparr>rc_Status = 1, rc_BlockNumber = 90, rc_GasUsed = 21000, rc_EffectiveGasPrice = Some 7, rc_Logs = []\<rparr>"

definition sample_env :: "nat env" where
  "sample_env = \<lparr>
     dbFault = Pair None, dbNow = (\<lambda>w. (int w, Suc w)), genUuid = (\<lambda>w. (show_nat w, Suc w)),
     pgNumeric = (\<lambda>s. if s = ''NaN'' then Some NaN
        else (case SetString10 s of None \<Rightarrow> None | Some v \<Rightarrow> if \<bar>v\<bar> < 10 ^ 78 then Some (Num v) else None)),
     pgUuid = Some, pgJsonb = Some, timeNow = (\<lambda>w. (int w * 10 ^ 9, Suc w)), randRead = (\<lambda>n w. (Inr (replicate n CHR ''r''), Suc w)),
     selectDone = Pair False, sha256 = (\<lambda>b. b), hmacSha256 = (\<lambda>k b. k @ b),
     addrHex = (\<lambda>a. hex_text 40 a), hexToAddress = (\<lambda>s. of_nat (hex_number s)),
     isHexAddress = (\<lambda>s. hex_check 40 (ToLower s)),
     hashHex = (\<lambda>h. hex_text 64 h), hexToHash = (\<lambda>s. of_nat (hex_number s)),
     chainID = 146, estimateGas = (\<lambda>_. Pair (Inr 21000)), suggestGasPrice = Pair (Inr 7),
     sendTransaction = (\<lambda>_. Pair (Inr ())), pendingNonceAt = (\<lambda>_. Pair (Inr 5)), balanceAt = (\<lambda>_. Pair (Inr 100)),
     transactionReceipt = (\<lambda>_. Pair (Inr sample_receipt)), callContract = (\<lambda>_ _. Pair (Inr [])),
     signTx = (\<lambda>_ _ _. Inr ''sig''), txHash = (\<lambda>t. ucast (tx_nonce (payload_tx t))),
     marshalLogs = (\<lambda>_. Inr ''[]''), marshalStatus = (\<lambda>st. Inr (st_RequestID st)),
     generateKey = (\<lambda>w. (Inr (PrivateKey w), Suc w)), pubkeyToAddress = (\<lambda>k. case k of PrivateKey n \<Rightarrow> of_nat n),
     fromECDSA = (\<lambda>k. case k of PrivateKey n \<Rightarrow> show_nat n),
     toECDSA = (\<lambda>b. case parse_digits b of None \<Rightarrow> Inl (External ''invalid key'') | Some n \<Rightarrow> Inr (PrivateKey n)),
     argon2IDKey = (\<lambda>pw salt t m p l. replicate 32 CHR ''k''),
     gcmSeal = (\<lambda>key n pt. pt), gcmOpen = (\<lambda>key n ct. Inr ct),
     marshalAlert = (\<lambda>a t. Inr (al_Title a)), formEncode = (\<lambda>kvs. concat (map snd kvs)),
     marshalKeyFile = put_doc, unmarshalKeyFile = get_doc, fsFault = Pair None, fsPartial = Pair None,
     newRequest = (\<lambda>_. Inr ()),
     httpDo = (\<lambda>_ _ _. Pair (Inr \<lparr>resp_StatusCode = 200, resp_Body = ''ok''\<rparr>))\<rparr>"

section \<open>A state with one app\<close>

definition sample_app :: apps_row where
  "sample_app = \<lparr>a_id = ''app'', a_name = ''demo'', a_treasury_address = hex_text 40 (1 :: address),
     a_bearer_token_hash = ''tk_1'', a_pool_size = 1, a_default_callback_url = Some ''http://cb'',
     a_default_callback_secret = Some ''whsec_1'', a_signer_min_balance = Num 500, a_signer_refill_amount = Num 900,
     a_treasury_min_balance = Num 0, a_disabled = False, a_created_at = 0\<rparr>"

definition sample_signer :: signers_row where
  "sample_signer = \<lparr>s_address = hex_text 40 (2 :: address), s_app_id = ''app'', s_created_at = 0, s_last_used_at = None\<rparr>"

definition sample_db :: database where
  "sample_db = \<lparr>apps = [sample_app], signers = [sample_signer], relay_requests = [], tx_attempts = [],
     webhook_deliveries = [], gas_attempts = []\<rparr>"

definition sample_keystore :: Keystore where
  "sample_keystore = \<lparr>ks_dir = ''keys'', ks_password = ''pw''\<rparr>"

text \<open>The encrypted key of a signer or of the treasury, as \<open>write\<close> leaves it.\<close>

definition sample_doc :: "nat \<Rightarrow> bytes" where
  "sample_doc k = doc_bytes
     (key_document sample_env (of_nat k) (defaultKDF\<lparr>kdf_Salt := ''salt''\<rparr>) (replicate 12 CHR ''n'') (show_nat k))"

definition sample_pool :: Pool where
  "sample_pool = install ''app'' [\<lparr>sg_AppID = ''app'', sg_Address = 2, sg_Key = PrivateKey 2, sg_nonce = 5\<rparr>] NewPool"

definition sample_state :: "nat pool_state" where
  "sample_state = \<lparr>world = 10, db = sample_db, files = [(path sample_env 1, Regular (sample_doc 1)), (path sample_env 2, Regular (sample_doc 2))], pools = sample_pool\<rparr>"

text \<open>The same at start-up, with the throttle of the notifier: no pool is loaded yet.\<close>

definition gas_state :: "nat alert_state" where
  "gas_state = \<lparr>world = 10, db = sample_db,
     files = [(path sample_env 1, Regular (sample_doc 1)), (path sample_env 2, Regular (sample_doc 2))],
     pools = NewPool, sent = (\<lambda>_ _. None)\<rparr>"

definition sample_input :: SubmitInput where
  "sample_input = \<lparr>in_AppID = ''app'', in_ChainID = 146, in_To = 9, in_Data = Some ''abc'', in_Value = Some 3,
     in_GasLimit = 0, in_Deadline = 0, in_CallbackURL = [], in_CallbackMetadata = ''m''\<rparr>"

lemma keystore_laws_sample: "keystore_laws sample_env"
  by (auto simp: keystore_laws_def sample_env_def get_put_doc split: PrivateKey.split)

lemma big_String_not_NaN: "big_String v \<noteq> ''NaN''"
proof
  assume "big_String v = ''NaN''"
  then have "SetString10 ''NaN'' = Some v" by (metis SetString_String)
  then show False by (simp add: parse_digits_def is_digit_def)
qed

lemma sample_env_sel [simp]:
  "dbFault sample_env w = (None, w)" "dbNow sample_env w = (int w, Suc w)" "genUuid sample_env w = (show_nat w, Suc w)"
  "pgUuid sample_env i = Some i" "pgJsonb sample_env j = Some j" "timeNow sample_env w = (int w * 10 ^ 9, Suc w)"
  "pgNumeric sample_env (big_String v) = (if \<bar>v\<bar> < 10 ^ 78 then Some (Num v) else None)"
  "selectDone sample_env w = (False, w)" "chainID sample_env = 146"
  "hexToAddress sample_env (hex_text 40 (a :: address)) = a" "hexToHash sample_env (hex_text 64 (h :: hash)) = h"
  "lowerHex sample_env a = hex_text 40 a" "lowerHash sample_env h = hex_text 64 h"
  "estimateGas sample_env m w = (Inr 21000, w)" "suggestGasPrice sample_env w = (Inr 7, w)"
  "sendTransaction sample_env t w = (Inr (), w)" "signTx sample_env c tx k = Inr ''sig''"
  "txHash sample_env t = ucast (tx_nonce (payload_tx t))" "marshalStatus sample_env st = Inr (st_RequestID st)"
  by (simp_all add: sample_env_def lowerHex_def lowerHash_def hex_number_hex_text big_String_not_NaN)

lemmas sample_defs = sample_state_def sample_db_def sample_app_def sample_signer_def sample_pool_def sample_input_def
  install_def NewPool_def Let_def

lemmas run_defs = run_ext db_query_def db_exec_def db_insert_def tx_begin_def tx_two_def tx_exec_def tx_commit_def
  run_attempt

lemmas submit_defs = Submit_def insertRequest_def request_insert_def fits_int4_def text_param_def insert_relay_row_def new_request_def
  amount_def txmill_load_def txmill_fetch_def Pool_Load_def load_with_def Load_fetch_def Load_install_def Pool_Checkout_def checkout_def submit_held_def gas_limit_def broadcast_def
  draw_nonce_def SignTx_def insertAttempt_def attempt_insert_def insert_attempt_row_def new_attempt_def markSubmitted_def
  markAttemptStatus_def give_back_nonce_def rewindNonce_def RewindNonce_def fireWebhook_def Enqueue_unfold GetRaw_def raw_row_def
  lookup_row_def UseNonce_def useNonce_def relay_tx_def NewTransaction_def update_request_status_def
  update_attempt_status_def update_rows_def insert_delivery_row_def new_delivery_def Pool_Release_def markRequestStatus_def
  reject_def status_document_def effective_url_def effective_secret_def latest_attempt_def

text \<open>The key files decode, and the pool of the app loads.\<close>

lemma hex_text_inj: "hex_text 40 (a :: address) = hex_text 40 b \<longleftrightarrow> a = b"
  by (metis sample_env_sel(10))

lemma sample_decode:
  "decode_key sample_env sample_keystore 1 (sample_doc 1) = Inr (PrivateKey 1)"
  "decode_key sample_env sample_keystore 2 (sample_doc 2) = Inr (PrivateKey 2)"
proof -
  have "decode_key sample_env sample_keystore (pubkeyToAddress sample_env (PrivateKey k)) (sample_doc k) = Inr (PrivateKey k)" for k
    by (rule decode_key_document [OF keystore_laws_sample, of "replicate 12 CHR ''n''" sample_keystore "''salt''"
          "replicate 32 CHR ''k''" "replicate 32 CHR ''k''"])
       (simp_all add: gcmNonceSize_def IDKey_def newGCM_def defaultKDF_def sample_env_def put_doc_def sample_doc_def)
  from this [of 1] this [of 2]
  show "decode_key sample_env sample_keystore 1 (sample_doc 1) = Inr (PrivateKey 1)"
    "decode_key sample_env sample_keystore 2 (sample_doc 2) = Inr (PrivateKey 2)"
    by (simp_all add: sample_env_def)
qed

lemma sample_read [simp]:
  "fsFault sample_env w = (None, w)" "pendingNonceAt sample_env a w = (Inr 5, w)" "balanceAt sample_env a w = (Inr 100, w)"
  "transactionReceipt sample_env h w = (Inr sample_receipt, w)" "marshalLogs sample_env l = Inr ''[]''"
  by (simp_all add: sample_env_def)

lemma sample_path [simp]: "path sample_env a = path sample_env b \<longleftrightarrow> a = b"
  by (simp add: path_def hex_text_inj)

lemmas load_defs = Keystore_Load_def os_ReadFile_def ListSigners_def signers_of_def order_by_def sample_decode

lemma sample_load:
  "run_state (txmill_load sample_env sample_keystore ''app'') (sample_state\<lparr>pools := NewPool\<rparr>) = (Inr (), sample_state\<lparr>world := 11\<rparr>)"
  by (simp add: sample_defs run_defs submit_defs load_defs)

lemma sample_no_faults: "no_faults sample_env"
  by (simp add: no_faults_def)

lemma sample_pool_inv: "pool_inv {#} (pools sample_state)"
  unfolding sample_state_def sample_pool_def by (simp add: pool_inv_install)

lemma sample_data_ok: "data_ok (db sample_state)"
  by (simp add: data_ok_def db_wf_def deliveries_ok_def sample_defs)

abbreviation sample_service :: "nat env \<Rightarrow> (nat, 'z) Service" where
  "sample_service E \<equiv> txmill_service E sample_keystore"

lemma sample_submit: "\<exists>res s'. run_state (Submit (sample_service sample_env) sample_input) sample_state = (Inr res, s')"
  by (simp add: sample_defs run_defs submit_defs)


text \<open>The sample world with a submitted request and its attempt.\<close>

definition sample_request :: relay_row where
  "sample_request = set_request_status ReqSubmitted 2 (new_request sample_env ''req'' 1 sample_input ''abc'' (Num 3))"

definition sample_attempt :: attempt_row where
  "sample_attempt = set_attempt_status AttSubmitted (new_attempt sample_env ''att'' 1 ''req'' 2 5 5 (Num 7))"

definition flying_state :: "nat pool_state" where
  "flying_state = sample_state\<lparr>db := sample_db\<lparr>relay_requests := [sample_request], tx_attempts := [sample_attempt]\<rparr>\<rparr>"

lemmas flying_defs = flying_state_def sample_request_def sample_attempt_def new_request_def new_attempt_def
  set_request_status_def set_attempt_status_def sample_defs

lemma flying_data: "data_ok (db flying_state)"
  by (simp add: data_ok_def db_wf_def deliveries_ok_def flying_defs)

lemma flying_batch: "inflight_batch 5 (db flying_state) = [pending_attempt sample_attempt sample_request]"
  by (simp add: inflight_batch_def order_by_def flying_defs inflight_def pending_attempt_def lookup_row_def
      List.map_filter_simps)

lemma flying_linked: "linked (db flying_state)"
  by (simp add: linked_def flying_defs)

section \<open>A process and its receipts\<close>

lemma sample_storable: "storable_receipt sample_env sample_receipt"
  by (simp add: storable_receipt_def sample_receipt_def effectiveGasPriceString_def)

lemma sample_mined: "mined (sample_env\<lparr>chainID := i\<rparr>) h"
  using sample_storable by (simp add: mined_def storable_receipt_def)

definition sample_os :: "string \<Rightarrow> string" where
  "sample_os k = (if k = ''TXMILL_DB_URL'' then ''pg'' else if k = ''TXMILL_RPC_URL'' then ''rpc''
     else if k = ''TXMILL_KEYSTORE_PASSWORD'' then ''pw'' else [])"

lemma sample_settings:
  "c_ChainID (Config_Load sample_os) = 146" "c_WatcherIntervalMs (Config_Load sample_os) = 1000"
  "c_WatcherBatchSize (Config_Load sample_os) = 50"
  by (simp_all add: Config_Load_def getenvUint64_def sample_os_def)

lemma sample_main:
  "\<exists>sys s'. run_state (main sample_os (Inr ()) (Inr ()) (Inr ()) (Inr ()) (Inr 146) sample_env) s = (Inr sys, s') \<and>
     sys_Watcher sys = txmill_watcher (sample_env\<lparr>chainID := 146\<rparr>) 1000000000 50"
proof -
  have "\<exists>wr. startup sample_os (Inr ()) (Inr ()) (Inr ()) (Inr 146) = Inr wr"
    by (simp add: startup_def Let_def New_def Dial_def sample_settings) (simp add: Config_Load_def sample_os_def)
  then obtain sys s' where run: "run_state (main sample_os (Inr ()) (Inr ()) (Inr ()) (Inr ()) (Inr 146) sample_env) s = (Inr sys, s')"
    by (auto simp: main_def store_NewPool_def Let_def case_prod_beta)
  then show ?thesis
    by (elim main_started) (use run in \<open>auto simp: sample_settings millis_def\<close>)
qed

end
