(* ===== verification/Relay_Properties.thy ===== *)
theory Relay_Properties
  imports Sample_World
begin

text \<open>
  The properties of the relay: what any interleaving of requests and workers guarantees of
  signers, nonces and the database, and what one run of \<open>Submit\<close> does on each of its paths.
  Every property with a hypothesis is followed by a witness in the sample world.
\<close>

section \<open>Interleaved requests\<close>

text \<open>The sample world at start-up, and after one request has run some of its actions.\<close>

definition sample_start :: "(nat, unit alert_state_ext) config" where
  "sample_start = \<lparr>threads = [], shared = gas_state, accepted = []\<rparr>"

definition sample_config :: "nat \<Rightarrow> (nat, unit alert_state_ext) config" where
  "sample_config n =
     \<lparr>threads = [(sample_input, fst (run_state (run_thread (sample_service sample_env) sample_input n PStart) (shared sample_start)))],
      shared = snd (run_state (run_thread (sample_service sample_env) sample_input n PStart) (shared sample_start)),
      accepted = thread_log (sample_service sample_env) sample_input n PStart (shared sample_start)\<rparr>"

lemma sample_start_initial: "initial sample_start"
  by (simp add: initial_def sample_start_def gas_state_def)

lemma sample_start_data: "data_ok (db (shared sample_start))"
  using sample_data_ok by (simp add: sample_start_def gas_state_def sample_state_def)

lemma sample_reachable: "system_reachable (sample_service sample_env) sample_keystore nt sample_start (sample_config n)"
proof (rule reachable_system)
  let ?svc = "sample_service sample_env" and ?c = "sample_start\<lparr>threads := [(sample_input, PStart)]\<rparr>"
  have "step ?svc sample_start (sample_start\<lparr>threads := threads sample_start @ [(sample_input, PStart)]\<rparr>)"
    by (rule step.arrive)
  from reachable.next_step [OF reachable.start this] have "reachable ?svc sample_start ?c"
    by (simp add: sample_start_def)
  from single_thread_reachable [OF this] show "reachable ?svc sample_start (sample_config n)"
    by (auto simp: sample_config_def sample_start_def)
qed

lemmas thread_defs = sample_start_def gas_state_def logged_def load_failed_def sample_defs run_defs submit_defs load_defs

lemma sample_holds: "holds (snd (threads (sample_config 4) ! 0)) = Some 0"
proof -
  have 4: "4 = Suc (Suc (Suc (Suc 0)))" by simp
  show ?thesis unfolding sample_config_def 4 by (simp add: thread_defs)
qed

lemma sample_empty:
  "pool_apps (pools (shared (sample_config 4))) ''app'' = Some \<lparr>ap_signers = [0], ap_idle = [], ap_cap = 1\<rparr>"
proof -
  have 4: "4 = Suc (Suc (Suc (Suc 0)))" by simp
  show ?thesis unfolding sample_config_def 4 by (simp add: thread_defs)
qed

text \<open>
  C1. In every configuration the whole program can reach from start-up (any number of concurrent
  \<open>Submit\<close> calls and other requests, the receipt watcher, the webhook worker, the gas worker): two
  requests never hold the same signer, a held signer is in no idle channel, and the channel send
  in \<open>Release\<close> never blocks.
\<close>

theorem signer_exclusive:
  assumes "system_reachable (txmill_service E K) K nt c0 c" and "initial c0"
  shows "(\<forall>i j r. i < length (threads c) \<longrightarrow> j < length (threads c) \<longrightarrow> i \<noteq> j \<longrightarrow>
      holds (snd (threads c ! i)) = Some r \<longrightarrow> holds (snd (threads c ! j)) \<noteq> Some r) \<and>
    (\<forall>i r a ap. i < length (threads c) \<longrightarrow> holds (snd (threads c ! i)) = Some r \<longrightarrow>
      \<not> release_blocks r (pools (shared c)) \<and> (pool_apps (pools (shared c)) a = Some ap \<longrightarrow> r \<notin> set (ap_idle ap)))"
proof -
  have inv: "pool_inv (held_of (threads c)) (pools (shared c))"
    using system_reachable_pools [OF assms] by (simp add: system_pools_def)
  have "r \<in># held_of (threads c)" if "i < length (threads c)" "holds (snd (threads c ! i)) = Some r" for i r
    using that by (intro in_held_of [of "fst (threads c ! i)" "snd (threads c ! i)"]) simp_all
  with exclusive_nth [OF inv] held_ready [OF inv] show ?thesis by blast
qed

theorem signer_exclusive_witness:
  "holds (snd (threads (sample_config 4) ! 0)) = Some 0 \<and> \<not> release_blocks 0 (pools (shared (sample_config 4)))"
proof -
  have "0 < length (threads (sample_config 4))" by (simp add: sample_config_def)
  with signer_exclusive [OF sample_reachable sample_start_initial, of 4] sample_holds show ?thesis by blast
qed

text \<open>
  C2. Under every interleaving, the nonces of a signer's accepted broadcasts are consecutive
  64-bit numbers from some first nonce (so none is skipped, and none is used twice before
  \<open>2^64\<close> of them), and the signer's counter stands right behind them, one further only while
  a request has a nonce drawn and neither broadcast nor given back.
\<close>

theorem nonces_consecutive:
  assumes "system_reachable (txmill_service E K) K nt c0 c" and "initial c0" and "r < length (heap (pools (shared c)))"
  shows "\<exists>n0. consecutive n0 (spent r (accepted c)) \<and>
    (length (spent r (accepted c)) \<le> 2 ^ 64 \<longrightarrow> distinct (spent r (accepted c))) \<and>
    sg_nonce (heap (pools (shared c)) ! r) =
      n0 + of_nat (length (spent r (accepted c))) + (if drawn (threads c) r then 1 else 0)"
  using system_reachable_pools [OF assms(1,2)] assms(3) consecutive_distinct
  unfolding system_pools_def nonces_ok_def nonce_agrees_def by blast

lemma sample_accepted: "length (heap (pools (shared (sample_config 13)))) = 1 \<and> spent 0 (accepted (sample_config 13)) = [5]"
proof -
  have 13: "13 = Suc (Suc (Suc (Suc (Suc (Suc (Suc (Suc (Suc (Suc (Suc (Suc (Suc 0))))))))))))" by simp
  show ?thesis unfolding sample_config_def 13 by (simp add: thread_defs spent_def)
qed

theorem nonces_consecutive_witness:
  "spent 0 (accepted (sample_config 13)) = [5] \<and>
   (\<exists>n0. consecutive n0 [5] \<and> sg_nonce (heap (pools (shared (sample_config 13))) ! 0) =
      n0 + 1 + (if drawn (threads (sample_config 13)) 0 then 1 else 0))"
  using nonces_consecutive [OF sample_reachable sample_start_initial, of 0 13] sample_accepted by simp

text \<open>
  C3. Under every interleaving, a transaction is recorded before it is broadcast: every
  accepted broadcast, and every broadcast about to be made, has its row in \<open>tx_attempts\<close>, by
  its hash; and the keys, references and delivery counts of the schema hold throughout.
\<close>

theorem write_ahead:
  assumes "system_reachable (txmill_service E K) K nt c0 c" and "initial c0" and "data_ok (db (shared c0))"
  shows "data_ok (db (shared c)) \<and>
    (\<forall>(r, stx) \<in> set (accepted c). \<exists>t \<in> set (tx_attempts (db (shared c))). t_tx_hash t = lowerHash E (txHash E stx)) \<and>
    (\<forall>(inp, p) \<in> set (threads c). \<forall>stx. sending p = Some stx \<longrightarrow>
       (\<exists>t \<in> set (tx_attempts (db (shared c))). t_tx_hash t = lowerHash E (txHash E stx)))"
  using system_reachable_data [OF assms]
  by (fastforce simp: system_data_def written_ahead_def hashes_def)

theorem write_ahead_witness:
  "\<exists>r stx. (r, stx) \<in> set (accepted (sample_config 13)) \<and>
     (\<exists>t \<in> set (tx_attempts (db (shared (sample_config 13)))). t_tx_hash t = lowerHash sample_env (txHash sample_env stx))"
proof -
  have "spent 0 (accepted (sample_config 13)) \<noteq> []" using sample_accepted by simp
  then obtain r stx where "(r, stx) \<in> set (accepted (sample_config 13))" by (auto simp: spent_def filter_empty_conv)
  with write_ahead [OF sample_reachable sample_start_initial sample_start_data, of 13] show ?thesis by blast
qed

text \<open>
  C4. No accepted broadcast is lost when the process dies. Let it stop in any configuration, in
  the middle of any request or tick, and be started again on the database it left: every
  transaction the node had accepted has its attempt there, in flight or resolved and never
  failed, and the new process starts from a sound database with nothing in hand. With the
  database up, receipts for the attempts in flight and enough ticks, its watcher confirms or
  reverts every one of those transactions.
\<close>

theorem crash_recovery:
  assumes "system_reachable (txmill_service E K) K nt c0 c" and "initial c0" and "data_ok (db (shared c0))"
    and "run_state (main os pgxNew ping mkdirAll conn rpcChainID E2) s = (Inr sys, s')" and "db s = db (shared c)"
  shows "data_ok (db s') \<and> initial \<lparr>threads = [], shared = s', accepted = []\<rparr> \<and>
    (\<forall>(r, stx) \<in> set (accepted c). \<exists>t \<in> set (tx_attempts (db s')). t_tx_hash t = lowerHash E (txHash E stx) \<and>
       (inflight t \<or> t_status t \<in> {AttConfirmed, AttReverted})) \<and>
    (let wt = sys_Watcher sys in
     no_faults (wt_env wt) \<longrightarrow> 0 < wt_interval wt \<longrightarrow> 0 \<le> wt_batchSize wt \<longrightarrow> all_mined (wt_env wt) (db s') \<longrightarrow>
     length (filter inflight (tx_attempts (db s'))) \<le> n * nat (wt_batchSize wt) \<longrightarrow>
       (\<exists>s''. run_state (Watcher_Run wt n) s' = (Inr (), s'') \<and>
         (\<forall>(r, stx) \<in> set (accepted c). \<exists>t \<in> set (tx_attempts (db s'')). t_tx_hash t = lowerHash E (txHash E stx) \<and>
            t_status t \<in> {AttConfirmed, AttReverted})))"
proof (rule main_started [OF assms(4)])
  fix K' E' cfg
  assume up: "sys_Watcher sys = txmill_watcher E' (millis (c_WatcherIntervalMs cfg)) (sint (c_WatcherBatchSize cfg))"
    "db s' = db s" "initial \<lparr>threads = [], shared = s', accepted = []\<rparr>"
  have ok: "data_ok (db s')" using system_reachable_data [OF assms(1-3)] up(2) assms(5) by (simp add: system_data_def)
  have lv: "\<exists>i. live (db s') i (lowerHash E (txHash E stx))" if "(r, stx) \<in> set (accepted c)" for r stx
    using broadcasts_live [OF assms(1-3), of stx] that up(2) assms(5) by (metis image_eqI snd_conv)
  have settles: "\<exists>s''. run_state (Watcher_Run (sys_Watcher sys) n) s' = (Inr (), s'') \<and>
      (\<forall>(r, stx) \<in> set (accepted c). \<exists>t \<in> set (tx_attempts (db s'')). t_tx_hash t = lowerHash E (txHash E stx) \<and>
         t_status t \<in> {AttConfirmed, AttReverted})"
    if calm: "no_faults (wt_env (sys_Watcher sys))" "0 < wt_interval (sys_Watcher sys)" "0 \<le> wt_batchSize (sys_Watcher sys)"
      "all_mined (wt_env (sys_Watcher sys)) (db s')"
      "length (filter inflight (tx_attempts (db s'))) \<le> n * nat (wt_batchSize (sys_Watcher sys))"
  proof -
    obtain s'' where w: "run_state (Watcher_Run (sys_Watcher sys) n) s' = (Inr (), s'')"
      and settled: "\<And>i h. live (db s') i h \<Longrightarrow>
        \<exists>t \<in> set (tx_attempts (db s'')). t_tx_hash t = h \<and> t_status t \<in> {AttConfirmed, AttReverted}"
      by (rule watcher_settles [OF _ _ _ ok, of E' "wt_interval (sys_Watcher sys)" "wt_batchSize (sys_Watcher sys)" n])
         (use calm in \<open>simp_all add: up(1)\<close>)
    have "\<exists>t \<in> set (tx_attempts (db s'')). t_tx_hash t = lowerHash E (txHash E stx) \<and> t_status t \<in> {AttConfirmed, AttReverted}"
      if "(r, stx) \<in> set (accepted c)" for r stx using lv [OF that] settled by blast
    with w show ?thesis by blast
  qed
  show ?thesis unfolding Let_def using ok up(3) lv settles live_cases by blast
qed

theorem crash_recovery_witness:
  "\<exists>sys s' n s'' r stx. run_state (main sample_os (Inr ()) (Inr ()) (Inr ()) (Inr ()) (Inr 146) sample_env) (shared (sample_config 13)) =
       (Inr sys, s') \<and> (r, stx) \<in> set (accepted (sample_config 13)) \<and> run_state (Watcher_Run (sys_Watcher sys) n) s' = (Inr (), s'') \<and>
     (\<exists>t \<in> set (tx_attempts (db s'')). t_tx_hash t = lowerHash sample_env (txHash sample_env stx) \<and> t_status t \<in> {AttConfirmed, AttReverted})"
proof -
  let ?c = "sample_config 13"
  obtain sys s' where run: "run_state (main sample_os (Inr ()) (Inr ()) (Inr ()) (Inr ()) (Inr 146) sample_env) (shared ?c) = (Inr sys, s')"
    and wt: "sys_Watcher sys = txmill_watcher (sample_env\<lparr>chainID := 146\<rparr>) 1000000000 50" using sample_main [of "shared ?c"] by blast
  have "spent 0 (accepted ?c) \<noteq> []" using sample_accepted by simp
  then obtain r stx where acc: "(r, stx) \<in> set (accepted ?c)" by (auto simp: spent_def filter_empty_conv)
  let ?n = "length (filter inflight (tx_attempts (db s')))" and ?wt = "sys_Watcher sys"
  have "all_mined (wt_env ?wt) (db s')" "no_faults (wt_env ?wt)" "0 < wt_interval ?wt" "0 \<le> wt_batchSize ?wt"
    "?n \<le> ?n * nat (wt_batchSize ?wt)"
    using sample_mined sample_no_faults by (simp_all add: wt all_mined_def no_faults_def)
  with crash_recovery [OF sample_reachable sample_start_initial sample_start_data run refl, of ?n, unfolded Let_def] run acc
  show ?thesis by blast
qed

text \<open>
  C5. An app's pool is loaded once, although \<open>Load\<close> reads keys and nonces without holding the
  mutex: whatever the program does after an app was loaded, the app keeps the same signers, and
  every signer its app, address and key; a request that comes to install the signers it read
  meanwhile changes nothing.
\<close>

theorem pool_loaded_once:
  assumes "system_reachable (txmill_service E K) K nt c c'" and "pool_apps (pools (shared c)) a = Some ap"
  shows "(\<exists>ap'. pool_apps (pools (shared c')) a = Some ap' \<and> ap_signers ap' = ap_signers ap) \<and>
    (\<forall>r < length (heap (pools (shared c))). r < length (heap (pools (shared c'))) \<and>
       identity (heap (pools (shared c')) ! r) = identity (heap (pools (shared c)) ! r)) \<and>
    (\<forall>inp i ss. in_AppID inp = a \<longrightarrow>
       run_state (submit_step (txmill_service E K) inp (PInstall i ss)) (shared c') = (PCheckout i, shared c'))"
proof -
  from system_reachable_extends [OF assms(1)] assms(2) obtain ap' where
    ap': "pool_apps (pools (shared c')) a = Some ap'" "ap_signers ap' = ap_signers ap" unfolding extends_def by blast
  then have "install a ss (pools (shared c')) = pools (shared c')" for ss by (simp add: install_def)
  with ap' system_reachable_extends [OF assms(1)] show ?thesis by (auto simp: extends_def Load_install_def)
qed

text \<open>Two requests have read the signers of the same app; one of them has installed them.\<close>

definition late_signers :: "Signer list" where
  "late_signers = [\<lparr>sg_AppID = ''app'', sg_Address = 2, sg_Key = PrivateKey 2, sg_nonce = 5\<rparr>]"

definition racing_config :: "(nat, unit alert_state_ext) config" where
  "racing_config = \<lparr>threads = [(sample_input, PInstall ''late'' late_signers)],
     shared = gas_state\<lparr>pools := sample_pool\<rparr>, accepted = []\<rparr>"

theorem pool_loaded_once_witness:
  "\<exists>c'. system_reachable (sample_service sample_env) sample_keystore Discard racing_config c' \<and>
     threads c' = [(sample_input, PCheckout ''late'')] \<and> (\<exists>ap'. pool_apps (pools (shared c')) ''app'' = Some ap' \<and> ap_signers ap' = [0])"
proof -
  let ?svc = "sample_service sample_env" and ?p = "PInstall ''late'' late_signers" and ?s = "shared racing_config"
  have ap: "pool_apps (pools ?s) ''app'' = Some \<lparr>ap_signers = [0], ap_idle = [0], ap_cap = 1\<rparr>"
    by (simp add: racing_config_def sample_defs)
  have th: "threads racing_config = [(sample_input, ?p)]" by (simp add: racing_config_def)
  have "in_AppID sample_input = ''app''" by (simp add: sample_input_def)
  with pool_loaded_once [OF system_reachable.start ap]
  have run: "run_state (submit_step ?svc sample_input ?p) ?s = (PCheckout ''late'', ?s)" by blast
  from step.act [OF _ _ run, of 0] th
  have "step ?svc racing_config (racing_config\<lparr>threads := [(sample_input, PCheckout ''late'')], shared := ?s,
      accepted := accepted racing_config @ logged ?p (PCheckout ''late'')\<rparr>)" (is "step _ _ ?c") by simp
  then have r: "system_reachable ?svc sample_keystore Discard racing_config ?c"
    by (meson system_reachable.intros system_step.relay)
  moreover from pool_loaded_once [OF r ap] have "\<exists>ap'. pool_apps (pools (shared ?c)) ''app'' = Some ap' \<and> ap_signers ap' = [0]" by simp
  ultimately show ?thesis by (intro exI [of _ ?c]) simp
qed

text \<open>
  C6. A request that waits for a signer is not stuck: in every configuration, once the app's pool
  is loaded, at most nine actions of one request that holds a signer (none, if one is idle) bring
  the program to a configuration where \<open>Checkout\<close> succeeds: that request is done, and every other one
  stands where it stood.
\<close>

theorem checkout_served:
  assumes "system_reachable (txmill_service E K) K nt c0 c" and "initial c0"
    and "pool_apps (pools (shared c)) a = Some ap"
  shows "\<exists>n c'. n \<le> 9 \<and> (step (txmill_service E K) ^^ n) c c' \<and>
    (n = 0 \<and> c' = c \<or> (\<exists>j inp p q out. j < length (threads c) \<and> threads c ! j = (inp, p) \<and> holds p = Some q \<and>
       threads c' = (threads c)[j := (inp, PDone out)])) \<and>
    (\<forall>k < length (threads c). holds (snd (threads c ! k)) = None \<longrightarrow> threads c' ! k = threads c ! k) \<and>
    (\<exists>r p'. checkout False a (pools (shared c')) = (Inr r, p'))"
  by (rule checkout_comes [OF assms])

theorem checkout_served_witness:
  "fst (checkout False ''app'' (pools (shared (sample_config 4)))) = Inl ContextDone \<and>
   (\<exists>n c' r p'. n \<le> 9 \<and> (step (sample_service sample_env) ^^ n) (sample_config 4) c' \<and>
      checkout False ''app'' (pools (shared c')) = (Inr r, p'))"
proof -
  have ap: "pool_apps (pools (shared (sample_config 4))) ''app'' = Some \<lparr>ap_signers = [0], ap_idle = [], ap_cap = 1\<rparr>"
    by (rule sample_empty)
  then have "fst (checkout False ''app'' (pools (shared (sample_config 4)))) = Inl ContextDone" by (simp add: checkout_def)
  with checkout_served [OF sample_reachable sample_start_initial ap] show ?thesis by blast
qed

text \<open>
  C7. The atomic actions the interleaving semantics is made of are \<open>Submit\<close>: a thread that runs
  alone is done after at most thirteen of them, with \<open>Submit\<close>'s result and \<open>Submit\<close>'s state. Among
  others, too, a thread has at most thirteen actions: whatever state they leave it, each action
  takes one off the bound on those that remain, and none remain exactly when it is done.
\<close>

theorem submit_by_actions:
  "run_thread svc inp (13 + m) PStart = do { out \<leftarrow> Submit svc inp; ret (PDone out) } \<and>
   remaining PStart = 13 \<and> remaining (fst (run_state (submit_step svc inp p) s)) \<le> remaining p - 1 \<and>
   (remaining p = 0 \<longleftrightarrow> (\<exists>out. p = PDone out))"
  using run_thread_Submit [of "13 + m" svc inp] step_remaining [of svc inp p s] by (simp add: remaining_done)

section \<open>One request\<close>

text \<open>The service with a node that refuses broadcasts, or cannot price them.\<close>

definition refusing_env :: "nat env" where
  "refusing_env = sample_env\<lparr>sendTransaction := (\<lambda>_. Pair (Inl (External ''nonce too low'')))\<rparr>"

definition mute_env :: "nat env" where
  "mute_env = sample_env\<lparr>suggestGasPrice := Pair (Inl (External ''timeout''))\<rparr>"

lemma refusing_env_sel [simp]:
  "lowerHex refusing_env = lowerHex sample_env" "lowerHash refusing_env = lowerHash sample_env"
  "sendTransaction refusing_env t w = (Inl (External ''nonce too low''), w)"
  "dbFault refusing_env = dbFault sample_env" "dbNow refusing_env = dbNow sample_env"
  "genUuid refusing_env = genUuid sample_env" "pgNumeric refusing_env = pgNumeric sample_env"
  "timeNow refusing_env = timeNow sample_env" "selectDone refusing_env = selectDone sample_env"
  "chainID refusing_env = chainID sample_env" "estimateGas refusing_env = estimateGas sample_env"
  "suggestGasPrice refusing_env = suggestGasPrice sample_env" "signTx refusing_env = signTx sample_env"
  "txHash refusing_env = txHash sample_env" "marshalStatus refusing_env = marshalStatus sample_env"
  by (simp_all add: lowerHex_def lowerHash_def refusing_env_def fun_eq_iff)

lemma mute_env_sel [simp]:
  "lowerHex mute_env = lowerHex sample_env" "lowerHash mute_env = lowerHash sample_env"
  "suggestGasPrice mute_env w = (Inl (External ''timeout''), w)"
  "dbFault mute_env = dbFault sample_env" "dbNow mute_env = dbNow sample_env"
  "genUuid mute_env = genUuid sample_env" "pgNumeric mute_env = pgNumeric sample_env"
  "timeNow mute_env = timeNow sample_env" "selectDone mute_env = selectDone sample_env"
  "chainID mute_env = chainID sample_env" "estimateGas mute_env = estimateGas sample_env"
  "sendTransaction mute_env = sendTransaction sample_env" "signTx mute_env = signTx sample_env"
  "txHash mute_env = txHash sample_env" "marshalStatus mute_env = marshalStatus sample_env"
  by (simp_all add: lowerHex_def lowerHash_def mute_env_def fun_eq_iff)

lemma sample_not_sent: "\<exists>e s'. run_state (Submit (sample_service refusing_env) sample_input) sample_state = (Inl (Wrap ''submit'' e), s')"
  by (simp add: sample_defs run_defs submit_defs)

lemma sample_rejected:
  "\<exists>e s'. run_state (Submit (sample_service mute_env) sample_input) sample_state = (Inl (Wrap ''suggest gas price'' e), s')"
  by (simp add: sample_defs run_defs submit_defs)

text \<open>
  C8. A \<open>Submit\<close> that succeeds: the transaction carries the request's target, amount and data
  and the next nonce of a signer of the caller's app that nobody else held; it is signed with
  that signer's key; the result names the new request, the transaction's hash and the signer.
  The tables gain exactly one request, marked submitted, and one attempt of it with that
  signer, nonce and hash, marked submitted. No counter but that signer's moves, and it moves by one.
\<close>

theorem submit_success:
  assumes "pool_inv held (pools s)" and "run_state (Submit (txmill_service E K) inp) s = (Inr res, s')"
  shows "\<exists>p r sg tx sig rq att.
    loaded (in_AppID inp) (pools s) p \<and> r < length (heap p) \<and> sg = heap p ! r \<and> r \<notin># held \<and> sg_AppID sg = in_AppID inp \<and>
    heap (pools s') = (heap p)[r := sg\<lparr>sg_nonce := sg_nonce sg + 1\<rparr>] \<and>
    tx_nonce tx = sg_nonce sg \<and> tx_to tx = in_To inp \<and> tx_value tx = amount inp \<and> in_Data inp = Some (tx_data tx) \<and>
    signTx E (chainID E) tx (sg_Key sg) = Inr sig \<and>
    sr_Signer res = sg_Address sg \<and> sr_TxHash res = txHash E \<lparr>payload_tx = tx, tx_signature = sig\<rparr> \<and>
    relay_requests (db s') = relay_requests (db s) @ [rq] \<and> r_id rq = sr_RequestID res \<and>
    r_id rq \<notin> r_id ` set (relay_requests (db s)) \<and> r_app_id rq = in_AppID inp \<and> r_status rq = ReqSubmitted \<and>
    r_call_data rq = tx_data tx \<and> r_to_address rq = lowerHex E (in_To inp) \<and>
    tx_attempts (db s') = tx_attempts (db s) @ [att] \<and> t_request_id att = r_id rq \<and> t_status att = AttSubmitted \<and>
    t_signer_address att = lowerHex E (sg_Address sg) \<and> t_nonce att = sint (tx_nonce tx) \<and>
    t_tx_hash att = lowerHash E (sr_TxHash res)"
proof (rule txmill.Submit_success [OF assms])
  fix p r tx sig now dat v aid t0 pr t1 q0
  assume "loaded (in_AppID inp) (pools s) p" "r < length (heap p)" "sg_AppID (heap p ! r) = in_AppID inp" "r \<notin># held"
    "heap (pools s') = (heap p)[r := (heap p ! r)\<lparr>sg_nonce := sg_nonce (heap p ! r) + 1\<rparr>]"
    "tx_nonce tx = sg_nonce (heap p ! r)" "tx_to tx = in_To inp" "tx_value tx = amount inp" "tx_data tx = dat"
    "signTx (svc_env (txmill_service E K)) (chainID (svc_env (txmill_service E K))) tx (sg_Key (heap p ! r)) = Inr sig"
    "res = \<lparr>sr_RequestID = q0, sr_TxHash = txHash (svc_env (txmill_service E K)) \<lparr>payload_tx = tx, tx_signature = sig\<rparr>,
            sr_Signer = sg_Address (heap p ! r)\<rparr>"
    "in_Data inp = Some dat"
    "relay_requests (db s') = relay_requests (db s) @
       [set_request_status ReqSubmitted t1 (new_request (svc_env (txmill_service E K)) q0 now inp dat v)]"
    "tx_attempts (db s') = tx_attempts (db s) @
       [set_attempt_status AttSubmitted (new_attempt (svc_env (txmill_service E K)) aid t0 q0 (sr_Signer res) (tx_nonce tx) (sr_TxHash res) pr)]"
    "q0 \<notin> r_id ` set (relay_requests (db s))"
  then show ?thesis
    by (intro exI [of _ p] exI [of _ r] exI [of _ "heap p ! r"] exI [of _ tx] exI [of _ sig]
        exI [of _ "set_request_status ReqSubmitted t1 (new_request E q0 now inp dat v)"]
        exI [of _ "set_attempt_status AttSubmitted (new_attempt E aid t0 q0 (sr_Signer res) (tx_nonce tx) (sr_TxHash res) pr)"])
       (simp add: set_request_status_def set_attempt_status_def new_request_def new_attempt_def)
qed

theorem submit_success_witness:
  "\<exists>res s' att. run_state (Submit (sample_service sample_env) sample_input) sample_state = (Inr res, s') \<and>
     tx_attempts (db s') = [att] \<and> t_status att = AttSubmitted \<and> t_tx_hash att = lowerHash sample_env (sr_TxHash res)"
proof -
  obtain res s' where run: "run_state (Submit (sample_service sample_env) sample_input) sample_state = (Inr res, s')"
    using sample_submit by blast
  have "tx_attempts (db sample_state) = []" by (simp add: sample_defs)
  with submit_success [OF sample_pool_inv run] run show ?thesis by auto
qed

text \<open>
  C9. Every run of \<open>Submit\<close>, whatever fails on the way, hands every signer back (the ownership
  of the pool is what it was before) and keeps the keys, references and delivery counts of
  the database. A run that fails gives its nonce back on every path: apart from signers it may
  have loaded, all counters are what they were. The one exception is a broadcast that the node
  accepted and that could not be marked afterwards, where the nonce is spent.
\<close>

theorem submit_invariant:
  assumes "pool_inv held (pools s)" and "data_ok (db s)" and "run_state (Submit (txmill_service E K) inp) s = (out, s')"
  shows "pool_inv held (pools s') \<and> data_ok (db s') \<and>
    (\<forall>e. out = Inl e \<longrightarrow> (\<nexists>e'. e = Wrap ''mark submitted'' e') \<longrightarrow>
       (\<exists>p. loaded (in_AppID inp) (pools s) p \<and> heap (pools s') = heap p))"
  using txmill.Submit_keeps [OF assms] txmill.Submit_failed_nonces [OF assms(1)] assms(3) by blast

theorem submit_invariant_witness:
  "\<exists>e s' p. run_state (Submit (sample_service refusing_env) sample_input) sample_state = (Inl (Wrap ''submit'' e), s') \<and>
     pool_inv {#} (pools s') \<and> data_ok (db s') \<and> loaded ''app'' (pools sample_state) p \<and> heap (pools s') = heap p"
proof -
  obtain e s' where run: "run_state (Submit (sample_service refusing_env) sample_input) sample_state = (Inl (Wrap ''submit'' e), s')"
    using sample_not_sent by blast
  have "\<nexists>e'. Wrap ''submit'' e = Wrap ''mark submitted'' e'" by simp
  with submit_invariant [OF sample_pool_inv sample_data_ok run] run show ?thesis by (auto simp: sample_input_def)
qed

text \<open>
  C10. The requests that \<open>Submit\<close> turns down. A wrong chain id or a deadline in the past leaves no
  trace. When the pool cannot be loaded, no signer is to be had, or the node cannot price the
  transaction, it leaves one new request of the caller's app and no attempt: the request is
  rejected, or, when that update itself failed, still pending and without a webhook. When the
  node refuses the broadcast, the request stays pending with its attempt recorded (failed, or
  still submitting when that update failed too), and no webhook is queued: the failure is only
  in the HTTP reply.
\<close>

theorem submit_rejected:
  assumes "pool_inv held (pools s)" and "run_state (Submit (txmill_service E K) inp) s = (Inl err, s')"
  shows "(in_ChainID inp \<noteq> word_of_int (chainID E) \<longrightarrow> err = ErrChainIDMismatch \<and> s' = s) \<and>
    (in_ChainID inp = word_of_int (chainID E) \<longrightarrow> 0 < in_Deadline inp \<longrightarrow>
      in_Deadline inp < fst (timeNow E (world s)) div 10 ^ 9 \<longrightarrow> err = ErrPastDeadline \<and> (\<exists>w. s' = s\<lparr>world := w\<rparr>)) \<and>
    (\<forall>m e. err = Wrap m e \<longrightarrow> m \<in> {''load signer pool'', ''checkout'', ''estimate gas'', ''suggest gas price''} \<longrightarrow>
      (\<exists>rq. relay_requests (db s') = relay_requests (db s) @ [rq] \<and> tx_attempts (db s') = tx_attempts (db s) \<and>
        r_app_id rq = in_AppID inp \<and>
        (r_status rq = ReqRejected \<or> r_status rq = ReqPending \<and> webhook_deliveries (db s') = webhook_deliveries (db s)))) \<and>
    (\<forall>e. err = Wrap ''submit'' e \<longrightarrow>
      (\<exists>rq att. relay_requests (db s') = relay_requests (db s) @ [rq] \<and> tx_attempts (db s') = tx_attempts (db s) @ [att] \<and>
        r_status rq = ReqPending \<and> t_request_id att = r_id rq \<and> t_status att \<in> {AttSubmitting, AttFailed} \<and>
        webhook_deliveries (db s') = webhook_deliveries (db s)))"
proof (intro conjI)
  show "\<forall>e. err = Wrap ''submit'' e \<longrightarrow>
      (\<exists>rq att. relay_requests (db s') = relay_requests (db s) @ [rq] \<and> tx_attempts (db s') = tx_attempts (db s) @ [att] \<and>
        r_status rq = ReqPending \<and> t_request_id att = r_id rq \<and> t_status att \<in> {AttSubmitting, AttFailed} \<and>
        webhook_deliveries (db s') = webhook_deliveries (db s))"
    using txmill.Submit_not_sent [OF assms(1)] assms(2) by blast
qed (use assms(2) txmill.Submit_rejected [OF assms(1)] Submit_wrong_chain [of inp "txmill_service E K" s]
    Submit_late [of inp "txmill_service E K" s] in auto)

theorem submit_rejected_witness:
  "(\<exists>e s' rq. run_state (Submit (sample_service mute_env) sample_input) sample_state = (Inl (Wrap ''suggest gas price'' e), s') \<and>
      relay_requests (db s') = [rq] \<and> tx_attempts (db s') = []) \<and>
   (\<exists>e s' rq. run_state (Submit (sample_service refusing_env) sample_input) sample_state = (Inl (Wrap ''submit'' e), s') \<and>
      relay_requests (db s') = [rq] \<and> r_status rq = ReqPending)"
proof -
  obtain e s' where run: "run_state (Submit (sample_service mute_env) sample_input) sample_state = (Inl (Wrap ''suggest gas price'' e), s')"
    using sample_rejected by blast
  obtain e2 s2 where run2: "run_state (Submit (sample_service refusing_env) sample_input) sample_state = (Inl (Wrap ''submit'' e2), s2)"
    using sample_not_sent by blast
  have e: "relay_requests (db sample_state) = []" "tx_attempts (db sample_state) = []" by (simp_all add: sample_defs)
  show ?thesis
  proof
    show "\<exists>e s' rq. run_state (Submit (sample_service mute_env) sample_input) sample_state = (Inl (Wrap ''suggest gas price'' e), s') \<and>
      relay_requests (db s') = [rq] \<and> tx_attempts (db s') = []"
      using submit_rejected [OF sample_pool_inv run] run e by auto
    show "\<exists>e s' rq. run_state (Submit (sample_service refusing_env) sample_input) sample_state = (Inl (Wrap ''submit'' e), s') \<and>
      relay_requests (db s') = [rq] \<and> r_status rq = ReqPending"
      using submit_rejected [OF sample_pool_inv run2] run2 e by auto
  qed
qed

text \<open>
  C11. The gas limit of a transaction: the caller's own when it is set; otherwise the node's
  estimate plus a fifth, rounded down, as long as twelve times the estimate fits in 64 bits.
\<close>

theorem gas_limit_bounds:
  assumes "run_state (gas_limit E inp from) s = (Inr g, s')"
  shows "(in_GasLimit inp \<noteq> 0 \<longrightarrow> g = in_GasLimit inp \<and> s' = s) \<and>
    (\<forall>est. in_GasLimit inp = 0 \<longrightarrow> fst (estimateGas E (call_msg inp from) (world s)) = Inr est \<longrightarrow>
       unat est * 12 < 2 ^ 64 \<longrightarrow> unat g = unat est * 12 div 10 \<and> unat est \<le> unat g)"
  using assms buffered_estimate
  by (auto simp: gas_limit_def run_ext run_attempt split: if_splits sum.splits)

theorem gas_limit_bounds_witness:
  "\<exists>g s'. run_state (gas_limit sample_env sample_input 2) sample_state = (Inr g, s') \<and> unat g = 25200"
proof -
  obtain g s' where run: "run_state (gas_limit sample_env sample_input 2) sample_state = (Inr g, s')"
    by (simp add: gas_limit_def run_ext run_attempt sample_input_def)
  have "unat (21000 :: uint64) = 21000" by simp
  with gas_limit_bounds [OF run] run show ?thesis by (simp add: sample_input_def)
qed

text \<open>
  C12. Requests and attempts agree: a request has at most one attempt, its status is the one its
  attempt calls for, and only pending and rejected requests have none. Every run of \<open>Submit\<close> keeps
  it so, and so does any number of ticks of the receipt watcher, which also keeps the schema and
  leaves the signer pools alone.
\<close>

theorem agreement_kept:
  fixes s :: "('w, 'z) pool_state_scheme"
  assumes "pool_inv held (pools s)" and "data_ok (db s)" and "linked (db s)"
  shows "(\<forall>out s'. run_state (Submit (txmill_service E K) inp) s = (out, s') \<longrightarrow> linked (db s')) \<and>
    (\<forall>n r s'. run_state (Watcher_Run (txmill_watcher E d b) n) s = (r, s') \<longrightarrow>
       linked (db s') \<and> data_ok (db s') \<and> pools s' = pools s)"
  using txmill.Submit_keeps_linked [OF assms(1) _ assms(3)] assms(2) Watcher_Run_linked [OF assms(2,3)]
  by (simp add: data_ok_def)

theorem agreement_kept_witness:
  "\<exists>res s' r s''. run_state (Submit (sample_service sample_env) sample_input) sample_state = (Inr res, s') \<and> linked (db s') \<and>
     run_state (Watcher_Run (txmill_watcher sample_env 1000 5) 3) flying_state = (r, s'') \<and> linked (db s'')"
proof -
  obtain res s' where run: "run_state (Submit (sample_service sample_env) sample_input) sample_state = (Inr res, s')"
    using sample_submit by blast
  obtain r s'' where runs: "run_state (Watcher_Run (txmill_watcher sample_env 1000 5) 3) flying_state = (r, s'')" by fastforce
  have "linked (db sample_state)" by (simp add: linked_def sample_defs)
  from agreement_kept [OF sample_pool_inv sample_data_ok this] run have "linked (db s')" by blast
  moreover have "pool_inv {#} (pools flying_state)" using sample_pool_inv by (simp add: flying_state_def)
  from agreement_kept [OF this flying_data flying_linked] runs have "linked (db s'')" by blast
  ultimately show ?thesis using run runs by blast
qed

end
