(* ===== verification/Worker_Properties.thy ===== *)
theory Worker_Properties
  imports Sample_World
begin

text \<open>
  The properties of the background workers of the relay: the receipt watcher, the start-up
  report and the webhook queue. The witnesses run them on a request in flight.
\<close>

section \<open>The receipt watcher\<close>

text \<open>
  C13. A tick of the watcher touches only attempts that were in flight and in its batch: each
  row of \<open>tx_attempts\<close> is as it was, or is in the batch and went from in flight to confirmed
  or reverted with its block number; identity, signer, nonce and hash never change.
\<close>

theorem watcher_tick_resolves:
  fixes s :: "('w, 'z) pool_state_scheme"
  assumes "data_ok (db s)" and "run_state (Watcher_tick E (Some (Enqueue E)) b) s = (r, s')"
  shows "list_all2 (\<lambda>t t'. t' = t \<or>
      t_id t \<in> pa_attemptID ` set (inflight_batch (nat b) (db s)) \<and> inflight t \<and>
      t_status t' \<in> {AttConfirmed, AttReverted} \<and> t_block_number t' \<noteq> None \<and> t_id t' = t_id t \<and> t_request_id t' = t_request_id t \<and>
      t_signer_address t' = t_signer_address t \<and> t_nonce t' = t_nonce t \<and> t_tx_hash t' = t_tx_hash t)
    (tx_attempts (db s)) (tx_attempts (db s'))"
  using txw.tick_moved [OF assms] unfolding moved_def
  by (rule list.rel_mono_strong) (auto elim!: resolve_stepE simp: set_receipt_def)

theorem watcher_tick_resolves_witness:
  "\<exists>r s' t'. run_state (Watcher_tick sample_env (Some (Enqueue sample_env)) 5) flying_state = (r, s') \<and>
     tx_attempts (db s') = [t'] \<and> t_tx_hash t' = t_tx_hash sample_attempt"
proof -
  obtain r s' where run: "run_state (Watcher_tick sample_env (Some (Enqueue sample_env)) 5) flying_state = (r, s')" by fastforce
  have "tx_attempts (db flying_state) = [sample_attempt]" by (simp add: flying_state_def)
  with watcher_tick_resolves [OF flying_data run] run show ?thesis by (auto simp: list_all2_Cons1)
qed

text \<open>
  The outcome of one attempt in the two tables: the columns of its row and of its request's row
  that a receipt fills, everything else as it was.
\<close>

definition outcome_recorded :: "'w env \<Rightarrow> pendingAttempt \<Rightarrow> Receipt \<Rightarrow> database \<Rightarrow> database \<Rightarrow> bool" where
  "outcome_recorded E p rc d d' \<longleftrightarrow> (\<exists>logs stored price reason now.
     marshalLogs E (rc_Logs rc) = Inr logs \<and> pgJsonb E logs = Some stored \<and>
     pgNumeric E (case rc_EffectiveGasPrice rc of None \<Rightarrow> ''0'' | Some v \<Rightarrow> big_String v) = Some price \<and>
     (rc_Status rc \<noteq> 0 \<longrightarrow> reason = None) \<and>
     tx_attempts d' = map (\<lambda>t. if t_id t = pa_attemptID p
       then t\<lparr>t_status := (if rc_Status rc = 0 then AttReverted else AttConfirmed),
              t_block_number := Some (sint (word_of_int (rc_BlockNumber rc) :: uint64)),
              t_gas_used := Some (sint (rc_GasUsed rc)), t_effective_gas_price := Some price,
              t_logs := Some stored, t_revert_reason := reason\<rparr>
       else t) (tx_attempts d) \<and>
     relay_requests d' = map (\<lambda>rq. if r_id rq = pa_requestID p
       then rq\<lparr>r_status := (if rc_Status rc = 0 then ReqReverted else ReqConfirmed), r_updated_at := now\<rparr>
       else rq) (relay_requests d))"

lemma outcome_recordedI:
  assumes "receipt_update E (fst (outcome_statuses rc)) rc logs reason (pa_attemptID p) d = Inr d1"
    and "notified (pa_requestID p) (update_request_status (snd (outcome_statuses rc)) now (pa_requestID p) d1) d2"
    and "marshalLogs E (rc_Logs rc) = Inr logs" and "rc_Status rc \<noteq> 0 \<Longrightarrow> reason = []"
  shows "outcome_recorded E p rc d d2"
  using assms(1)
proof (rule receipt_update_Inr)
  fix bn gas price stored
  assume d1: "d1 = d\<lparr>tx_attempts := update_rows t_id (pa_attemptID p)
      (set_receipt (fst (outcome_statuses rc)) bn gas price stored reason) (tx_attempts d)\<rparr>"
    and j: "pgJsonb E logs = Some stored" and n: "pgNumeric E (effectiveGasPriceString rc) = Some price"
    and bg: "bn = sint (word_of_int (rc_BlockNumber rc) :: uint64)" "gas = sint (rc_GasUsed rc)"
  have "tx_attempts d2 = tx_attempts d1"
    "relay_requests d2 = update_rows r_id (pa_requestID p) (set_request_status (snd (outcome_statuses rc)) now) (relay_requests d)"
    using notified_frame [OF assms(2)] d1 by (simp_all add: update_request_status_def)
  moreover have "fst (outcome_statuses rc) = (if rc_Status rc = 0 then AttReverted else AttConfirmed)"
    "snd (outcome_statuses rc) = (if rc_Status rc = 0 then ReqReverted else ReqConfirmed)" by (simp_all add: outcome_statuses_def)
  moreover have "rc_Status rc \<noteq> 0 \<longrightarrow> nullif_empty reason = None" using assms(4) by (simp add: nullif_empty_def)
  moreover note n [unfolded effectiveGasPriceString_def]
  ultimately show ?thesis
    unfolding outcome_recorded_def using assms(3) j
    by (intro exI [of _ logs] exI [of _ stored] exI [of _ price] exI [of _ "nullif_empty reason"] exI [of _ now])
       (simp only: d1 bg update_rows_def set_receipt_def set_request_status_def, simp)
qed

text \<open>
  C14. A mined transaction is resolved, in one transaction: whatever the database refuses, a
  \<open>process\<close> of an attempt leaves the two tables as they are or writes the whole outcome into both.
  The outcome marks the attempt and its request confirmed or reverted as the receipt says, with the
  receipt's block, gas, price and logs in their columns, and leaves every other row alone. With the
  database up and a receipt it can store, \<open>process\<close> ends without error and the outcome is written.
\<close>

theorem mined_attempt_resolved:
  fixes s :: "('w, 'z) pool_state_scheme"
  assumes "run_state (process E (Some (Enqueue E)) p) s = (r, s')"
  shows "(\<exists>w d. s' = s\<lparr>world := w, db := d\<rparr>) \<and>
    (tx_attempts (db s') = tx_attempts (db s) \<and> relay_requests (db s') = relay_requests (db s) \<or>
     (\<exists>rc w1. transactionReceipt E (hexToHash E (pa_txHash p)) (world s) = (Inr rc, w1) \<and> outcome_recorded E p rc (db s) (db s'))) \<and>
    (\<forall>rc w1. no_faults E \<longrightarrow> transactionReceipt E (hexToHash E (pa_txHash p)) (world s) = (Inr rc, w1) \<longrightarrow>
       storable_receipt E rc \<longrightarrow> r = Inr () \<and> outcome_recorded E p rc (db s) (db s'))"
proof (intro conjI allI impI)
  show "\<exists>w d. s' = s\<lparr>world := w, db := d\<rparr>"
  proof (cases rule: txw.process_run [of E p s])
    case (unresolved r1 w)
    then have "s' = s\<lparr>world := w, db := db s\<rparr>" using assms by simp
    then show ?thesis by blast
  qed (use assms in auto)
  show "tx_attempts (db s') = tx_attempts (db s) \<and> relay_requests (db s') = relay_requests (db s) \<or>
     (\<exists>rc w1. transactionReceipt E (hexToHash E (pa_txHash p)) (world s) = (Inr rc, w1) \<and> outcome_recorded E p rc (db s) (db s'))"
  proof (cases rule: txw.process_run [of E p s])
    case (resolved rc w1 logs reason now d1 d2 w)
    with outcome_recordedI [OF resolved(2,3,5,6)] assms show ?thesis by auto
  qed (use assms in auto)
next
  fix rc w1
  assume h: "no_faults E" "transactionReceipt E (hexToHash E (pa_txHash p)) (world s) = (Inr rc, w1)" "storable_receipt E rc"
  show "r = Inr ()" by (rule txw.process_resolves [OF h]) (use assms in simp)
  show "outcome_recorded E p rc (db s) (db s')"
    by (rule txw.process_resolves [OF h]) (use assms in \<open>auto intro: outcome_recordedI\<close>)
qed

theorem mined_attempt_resolved_witness:
  "\<exists>w d t. run_state (process sample_env (Some (Enqueue sample_env)) (pending_attempt sample_attempt sample_request)) flying_state =
       (Inr (), flying_state\<lparr>world := w, db := d\<rparr>) \<and> tx_attempts d = [t] \<and> t_status t = AttConfirmed \<and>
     t_block_number t = Some 90 \<and> t_gas_used t = Some 21000 \<and> t_effective_gas_price t = Some (Num 7) \<and>
     map r_status (relay_requests d) = [ReqConfirmed]"
proof -
  let ?p = "pending_attempt sample_attempt sample_request"
  obtain r s' where run: "run_state (process sample_env (Some (Enqueue sample_env)) ?p) flying_state = (r, s')" by fastforce
  have rc: "transactionReceipt sample_env (hexToHash sample_env (pa_txHash ?p)) (world flying_state) = (Inr sample_receipt, world flying_state)"
    by simp
  from mined_attempt_resolved [OF run] rc sample_no_faults sample_storable obtain w d where
    d: "s' = flying_state\<lparr>world := w, db := d\<rparr>" and r: "r = Inr ()"
    and o: "outcome_recorded sample_env ?p sample_receipt (db flying_state) (db s')" by blast
  have "tx_attempts (db flying_state) = [sample_attempt]" "relay_requests (db flying_state) = [sample_request]"
    "pa_attemptID ?p = t_id sample_attempt" "pa_requestID ?p = r_id sample_request"
    by (simp_all add: flying_defs pending_attempt_def)
  with o d have "\<exists>t. tx_attempts d = [t] \<and> t_status t = AttConfirmed \<and> t_block_number t = Some 90 \<and> t_gas_used t = Some 21000 \<and>
      t_effective_gas_price t = Some (Num 7)" "map r_status (relay_requests d) = [ReqConfirmed]"
    by (auto simp: outcome_recorded_def sample_receipt_def)
  with run show ?thesis unfolding d r by (intro exI [of _ w] exI [of _ d]) simp
qed

text \<open>
  C15. The watcher catches up: with the database up and a storable receipt for every attempt in
  flight, each tick resolves the oldest attempts of a full batch, so after \<open>n\<close> ticks \<open>n\<close> batches of
  them are resolved, none of those is younger than an attempt still in flight, nothing else happens
  to an attempt, and with enough ticks none is in flight.
  When requests and attempts agreed, no request is left submitted then.
\<close>

theorem watcher_drains:
  fixes s :: "('w, 'z) pool_state_scheme"
  assumes "no_faults E" and "0 < d" and "0 \<le> b" and "data_ok (db s)" and "all_mined E (db s)"
  shows "\<exists>s'. run_state (Watcher_Run (txmill_watcher E d b) n) s = (Inr (), s') \<and>
    length (filter inflight (tx_attempts (db s'))) = length (filter inflight (tx_attempts (db s))) - n * nat b \<and>
    list_all2 (\<lambda>t t'. t' = t \<or> inflight t \<and> t_status t' \<in> {AttConfirmed, AttReverted}) (tx_attempts (db s)) (tx_attempts (db s')) \<and>
    (\<forall>t \<in> set (tx_attempts (db s)). \<forall>u \<in> set (tx_attempts (db s')).
       inflight t \<and> t \<notin> set (tx_attempts (db s')) \<and> inflight u \<longrightarrow> t_submitted_at t \<le> t_submitted_at u) \<and>
    (linked (db s) \<longrightarrow> length (filter inflight (tx_attempts (db s))) \<le> n * nat b \<longrightarrow>
       (\<forall>rq \<in> set (relay_requests (db s')). r_status rq \<noteq> ReqSubmitted))"
proof -
  obtain s' where run: "run_state (Watcher_Run (txmill_watcher E d b) n) s = (Inr (), s')"
    and st: "settled inflight resolved_row (tx_attempts (db s)) (tx_attempts (db s'))"
    and c: "length (filter inflight (tx_attempts (db s'))) = length (filter inflight (tx_attempts (db s))) - n * nat b"
    and o: "oldest_first t_submitted_at inflight (tx_attempts (db s)) (tx_attempts (db s'))"
    using txw.run_drains [OF assms, of n] by (auto simp: Watcher_Run_txmill)
  have "r_status rq \<noteq> ReqSubmitted" if "linked (db s)" "filter inflight (tx_attempts (db s')) = []" "rq \<in> set (relay_requests (db s'))" for rq
    using linked_not_submitted [of "db s'"] Watcher_Run_linked [OF assms(4) that(1) run] that(2,3) by (simp add: filter_empty_conv)
  moreover have "filter inflight (tx_attempts (db s')) = []" if "length (filter inflight (tx_attempts (db s))) \<le> n * nat b"
    using c that by (metis diff_is_0_eq length_0_conv)
  ultimately show ?thesis using run st c o by (intro exI [of _ s']) (simp add: settled_def oldest_first_def)
qed

theorem watcher_drains_witness:
  "\<exists>s'. run_state (Watcher_Run (txmill_watcher sample_env 1000 1) 1) flying_state = (Inr (), s') \<and>
     filter inflight (tx_attempts (db s')) = [] \<and> (\<exists>rq. relay_requests (db flying_state) = [rq] \<and> r_status rq = ReqSubmitted) \<and>
     ReqSubmitted \<notin> r_status ` set (relay_requests (db s'))"
proof -
  have "mined sample_env h" for h using sample_storable by (simp add: mined_def)
  then have m: "all_mined sample_env (db flying_state)" by (simp add: all_mined_def)
  have f: "filter inflight (tx_attempts (db flying_state)) = [sample_attempt]"
    "\<exists>rq. relay_requests (db flying_state) = [rq] \<and> r_status rq = ReqSubmitted" by (simp_all add: flying_defs inflight_def)
  from watcher_drains [OF sample_no_faults _ _ flying_data m, of 1000 1 1] f(1) flying_linked obtain s' where
    "run_state (Watcher_Run (txmill_watcher sample_env 1000 1) 1) flying_state = (Inr (), s')"
    "filter inflight (tx_attempts (db s')) = []" "\<forall>rq \<in> set (relay_requests (db s')). r_status rq \<noteq> ReqSubmitted" by auto
  with f(2) show ?thesis by (metis imageE)
qed

text \<open>
  C16. The watcher can starve: as long as the oldest in-flight attempts that fill a batch are
  never mined, no number of ticks changes the database, whatever receipts newer attempts have.
\<close>

theorem watcher_starved:
  assumes "\<forall>p \<in> set (inflight_batch (nat b) (db s)). never_mined E p"
    and run: "run_state (Watcher_Run (txmill_watcher E d b) n) s = (r, s')"
  shows "db s' = db s"
proof (rule run_ticker_inv [where P = "\<lambda>x. db x = db s", OF _ _ run [unfolded Watcher_Run_txmill]])
  fix x r x' assume "db x = db s" "run_state (Watcher_tick E (Some (Enqueue E)) b) x = (r, x')"
  with tick_never_mined [of b x E "Some (Enqueue E)" r x'] assms(1) show "db x' = db s" by simp
qed simp

text \<open>A second, newer attempt in flight, and a node that has mined only that one.\<close>

definition newer_attempt :: attempt_row where
  "newer_attempt = sample_attempt\<lparr>t_id := ''att2'', t_tx_hash := hex_text 64 (6 :: hash), t_submitted_at := 3\<rparr>"

definition starved_state :: "nat pool_state" where
  "starved_state = flying_state\<lparr>db := (db flying_state)\<lparr>tx_attempts := [sample_attempt, newer_attempt]\<rparr>\<rparr>"

definition slow_env :: "nat env" where
  "slow_env = sample_env\<lparr>transactionReceipt := (\<lambda>h w. (if h = 6 then Inr sample_receipt else Inl EthereumNotFound, w))\<rparr>"

theorem watcher_starved_witness:
  "transactionReceipt slow_env (hexToHash slow_env (t_tx_hash newer_attempt)) 0 = (Inr sample_receipt, 0) \<and>
   db (snd (run_state (Watcher_Run (txmill_watcher slow_env 1000 1) 1000) starved_state)) = db starved_state"
proof
  show "transactionReceipt slow_env (hexToHash slow_env (t_tx_hash newer_attempt)) 0 = (Inr sample_receipt, 0)"
    by (simp add: slow_env_def newer_attempt_def)
  have "inflight_batch 1 (db starved_state) = [pending_attempt sample_attempt sample_request]"
    by (simp add: inflight_batch_def order_by_def starved_state_def newer_attempt_def flying_defs inflight_def
        pending_attempt_def lookup_row_def List.map_filter_simps)
  moreover have "never_mined slow_env (pending_attempt sample_attempt sample_request)"
  proof -
    have "hexToHash slow_env (t_tx_hash sample_attempt) = 5" by (simp add: slow_env_def flying_defs)
    then show ?thesis by (simp add: never_mined_def pending_attempt_def) (simp add: slow_env_def)
  qed
  ultimately show "db (snd (run_state (Watcher_Run (txmill_watcher slow_env 1000 1) 1000) starved_state)) = db starved_state"
    by (intro watcher_starved [of 1]) (simp_all add: prod_eq_iff)
qed

text \<open>
  C17. Marking a request submitted does not look at what happened since the broadcast: when the
  watcher has already resolved the attempt, the request's next action puts both rows back to
  submitted, with the receipt still in place, and the attempt counts as in flight again.
\<close>

theorem mark_after_watcher:
  fixes s :: "('w, 'z) pool_state_scheme"
  assumes "no_faults E" and "t \<in> set (tx_attempts (db s))" and "t_id t = aid" and "\<not> inflight t"
    and "rq \<in> set (relay_requests (db s))" and "r_id rq = i"
  shows "\<exists>w d now. run_state (submit_step (txmill_service E K) inp (PMark i r sg stx aid)) s =
      (PFire i r sg stx, s\<lparr>world := w, db := d\<rparr>) \<and>
    t\<lparr>t_status := AttSubmitted\<rparr> \<in> set (tx_attempts d) \<and> inflight (t\<lparr>t_status := AttSubmitted\<rparr>) \<and>
    rq\<lparr>r_status := ReqSubmitted, r_updated_at := now\<rparr> \<in> set (relay_requests d)"
proof -
  obtain now w where "run_state (markSubmitted E i aid) s =
    (Inr (), s\<lparr>world := w, db := update_request_status ReqSubmitted now i (update_attempt_status AttSubmitted aid (db s))\<rparr>)"
    using markSubmitted_ok [OF assms(1), of i aid s] by blast
  with assms show ?thesis
    by (intro exI [of _ w] exI [of _ "update_request_status ReqSubmitted now i (update_attempt_status AttSubmitted aid (db s))"]
        exI [of _ now])
       (auto simp: update_request_status_def update_attempt_status_def update_rows_def inflight_def set_attempt_status_def set_request_status_def)
qed

definition resolved_attempt :: attempt_row where
  "resolved_attempt = set_receipt AttConfirmed 90 21000 (Num 7) ''[]'' [] sample_attempt"

definition resolved_state :: "nat pool_state" where
  "resolved_state = flying_state\<lparr>db := (db flying_state)\<lparr>tx_attempts := [resolved_attempt],
     relay_requests := [set_request_status ReqConfirmed 3 sample_request]\<rparr>\<rparr>"

theorem mark_after_watcher_witness:
  "\<exists>d. resolved_attempt\<lparr>t_status := AttSubmitted\<rparr> \<in> set (tx_attempts d) \<and> t_block_number resolved_attempt = Some 90 \<and>
     (\<exists>w. snd (run_state (submit_step (sample_service sample_env) sample_input
        (PMark ''req'' 0 (heap sample_pool ! 0) \<lparr>payload_tx = relay_tx sample_input 5 25200 7, tx_signature = ''sig''\<rparr> ''att''))
        resolved_state) = resolved_state\<lparr>world := w, db := d\<rparr>)"
proof -
  let ?stx = "\<lparr>payload_tx = relay_tx sample_input 5 25200 7, tx_signature = ''sig''\<rparr>"
  have 1: "resolved_attempt \<in> set (tx_attempts (db resolved_state))" "t_id resolved_attempt = ''att''" "\<not> inflight resolved_attempt"
    "t_block_number resolved_attempt = Some 90"
    by (simp_all add: resolved_state_def resolved_attempt_def set_receipt_def inflight_def flying_defs)
  have 2: "set_request_status ReqConfirmed 3 sample_request \<in> set (relay_requests (db resolved_state))"
    "r_id (set_request_status ReqConfirmed 3 sample_request) = ''req''"
    by (simp_all add: resolved_state_def flying_defs)
  from mark_after_watcher [OF sample_no_faults 1(1-3) 2, of sample_keystore sample_input 0 "heap sample_pool ! 0" ?stx] 1(4)
  show ?thesis by fastforce
qed

section \<open>Start-up\<close>

text \<open>
  C18. The recovery report reads and changes nothing: it counts exactly the attempts in flight
  and the pending deliveries, and lists, oldest first, exactly the pending requests without
  any attempt. A request left pending by a refused broadcast has one, so it is not listed.
\<close>

theorem recovery_report:
  assumes "run_state (Recover E) s = (Inr rep, s')"
  shows "db s' = db s \<and> rp_InflightAttempts rep = length (filter inflight (tx_attempts (db s))) \<and>
    rp_PendingWebhookDeliveries rep = length (filter (\<lambda>v. d_status v = DelPending) (webhook_deliveries (db s))) \<and>
    sk_RequestID ` set (rp_StuckRequests rep) = r_id ` {rq \<in> set (relay_requests (db s)). r_status rq = ReqPending \<and>
      (\<forall>t \<in> set (tx_attempts (db s)). t_request_id t \<noteq> r_id rq)} \<and>
    sorted (map sk_CreatedAt (rp_StuckRequests rep))"
proof -
  have "sorted (map sk_CreatedAt (stuck_requests (db s)))"
    using sorted_sort_key [of r_created_at "filter (stuck (db s)) (relay_requests (db s))"]
    by (simp add: stuck_requests_def order_by_def comp_def)
  moreover have "sk_RequestID ` set (stuck_requests (db s)) = r_id ` {rq \<in> set (relay_requests (db s)). r_status rq = ReqPending \<and>
      (\<forall>t \<in> set (tx_attempts (db s)). t_request_id t \<noteq> r_id rq)}"
    by (auto simp: stuck_requests_def stuck_def list_ex_iff image_iff)
  ultimately show ?thesis
    using Recover_report [OF assms] leavesD [OF Recover_reads assms] by simp
qed

theorem recovery_report_witness:
  "\<exists>rep s'. run_state (Recover sample_env) flying_state = (Inr rep, s') \<and> rp_InflightAttempts rep = 1 \<and> rp_StuckRequests rep = []"
proof -
  obtain rep s' where run: "run_state (Recover sample_env) flying_state = (Inr rep, s')"
    by (simp add: Recover_def run_defs)
  have "filter inflight (tx_attempts (db flying_state)) = [sample_attempt]"
    "{rq \<in> set (relay_requests (db flying_state)). r_status rq = ReqPending \<and>
      (\<forall>t \<in> set (tx_attempts (db flying_state)). t_request_id t \<noteq> r_id rq)} = {}"
    by (auto simp: flying_defs inflight_def)
  with recovery_report [OF run] run show ?thesis by simp
qed

section \<open>The webhook queue\<close>

text \<open>A queued delivery of the request in flight.\<close>

definition sample_delivery :: delivery_row where
  "sample_delivery = new_delivery ''dlv'' 1 ''req'' ''http://cb'' ''body'' ''sha256=00''"

definition queued_state :: "nat pool_state" where
  "queued_state = flying_state\<lparr>db := (db flying_state)\<lparr>webhook_deliveries := [sample_delivery]\<rparr>\<rparr>"

lemma queued_data: "db_wf (db queued_state)" "deliveries_ok (db queued_state)"
  by (simp_all add: db_wf_def deliveries_ok_def delivery_ok_def queued_state_def sample_delivery_def new_delivery_def flying_defs)

text \<open>
  C19. The webhook worker implements the delivery state machine: after any number of ticks,
  whatever the endpoints answered and the database refused, only \<open>webhook_deliveries\<close> may have
  changed, no row came or went, and every row is where at most one recorded attempt per tick
  leads: pending rows to a retry, to delivered or to dead, finished rows nowhere. A delivery that
  was new has at most five attempts recorded, its attempt column is their number, request, URL,
  payload and signature stay, and with the fifth recorded attempt it is delivered or dead. A try
  that ends without error records one attempt of its delivery and touches no other; a try whose
  outcome the database refuses ends with an error and is not a recorded attempt.
\<close>

theorem webhook_run_refines:
  assumes "db_wf (db s)" and "run_state (Webhook_Run (Webhook_NewWorker E d b) n) s = (r, s')"
  shows "\<exists>w vs. s' = s\<lparr>world := w, db := (db s)\<lparr>webhook_deliveries := vs\<rparr>\<rparr> \<and> db_wf (db s') \<and>
    list_all2 (\<lambda>v v'. \<exists>k \<le> n. (delivery_step ^^ k) v v' \<and> (d_status v = DelPending \<longrightarrow> d_attempt v = 0 \<longrightarrow>
        k \<le> 5 \<and> d_attempt v' = int k \<and> (k = 5 \<longrightarrow> d_status v' \<in> {DelDelivered, DelDead}) \<and>
        d_request_id v' = d_request_id v \<and> d_url v' = d_url v \<and> d_payload v' = d_payload v \<and> d_signature v' = d_signature v))
      (webhook_deliveries (db s)) vs \<and>
    (\<forall>v \<in> set (webhook_deliveries (db s)). \<forall>t x. d_status v = DelPending \<longrightarrow> run_state (deliver E (pending_of v)) s = (t, x) \<longrightarrow>
       (if t = Inr () then \<exists>v'. delivery_step v v' \<and>
          webhook_deliveries (db x) = map (\<lambda>u. if u = v then v' else u) (webhook_deliveries (db s))
        else db x = db s))"
proof -
  from Webhook_Run_refines [OF assms] obtain w vs where
    s': "s' = s\<lparr>world := w, db := (db s)\<lparr>webhook_deliveries := vs\<rparr>\<rparr>" "db_wf (db s')" and
    steps: "list_all2 (\<lambda>v v'. \<exists>k \<le> n. (delivery_step ^^ k) v v') (webhook_deliveries (db s)) vs" by blast
  have fresh: "k \<le> 5 \<and> d_attempt v' = int k \<and> (k = 5 \<longrightarrow> d_status v' \<in> {DelDelivered, DelDead}) \<and>
      d_request_id v' = d_request_id v \<and> d_url v' = d_url v \<and> d_payload v' = d_payload v \<and> d_signature v' = d_signature v"
    if "(delivery_step ^^ k) v v'" "d_status v = DelPending" "d_attempt v = 0" for k v v'
    using delivery_chain [OF that(1,2)] that(3) by (cases "d_status v'") auto
  have d: "distinct (map d_id (webhook_deliveries (db s)))" using assms(1) by (simp add: db_wf_def)
  show ?thesis
    by (intro exI [of _ w] exI [of _ vs] conjI s' list.rel_mono_strong [OF steps])
       (use fresh deliver_records [OF d] in blast)+
qed

theorem webhook_run_refines_witness:
  "\<exists>r s' v' k. run_state (Webhook_Run (Webhook_NewWorker sample_env 1000 5) 3) queued_state = (r, s') \<and> webhook_deliveries (db s') = [v'] \<and>
     k \<le> 3 \<and> (delivery_step ^^ k) sample_delivery v' \<and> d_attempt v' = int k \<and> d_payload v' = ''body''"
proof -
  obtain r s' where run: "run_state (Webhook_Run (Webhook_NewWorker sample_env 1000 5) 3) queued_state = (r, s')" by fastforce
  have "webhook_deliveries (db queued_state) = [sample_delivery]" by (simp add: queued_state_def)
  moreover have "d_status sample_delivery = DelPending" "d_attempt sample_delivery = 0" "d_payload sample_delivery = ''body''"
    by (simp_all add: sample_delivery_def new_delivery_def)
  ultimately show ?thesis using webhook_run_refines [OF queued_data(1) run] run by (auto simp: list_all2_Cons1)
qed

text \<open>
  C21. The worker never panics: the index into the backoff schedule stays in range, so with a
  database that reports its failures as errors and a positive interval, \<open>Run\<close> survives any number
  of ticks.
\<close>

theorem webhook_run_total:
  assumes "ordinary_faults E" and "0 < d" and "db_wf (db s)" and "deliveries_ok (db s)"
  shows "\<exists>s'. run_state (Webhook_Run (Webhook_NewWorker E d b) n) s = (Inr (), s')"
  by (rule Webhook_Run_total) (simp_all add: assms)

theorem webhook_run_total_witness:
  "\<exists>s'. run_state (Webhook_Run (Webhook_NewWorker sample_env 1000 5) 1000) queued_state = (Inr (), s')"
proof -
  have "ordinary_faults sample_env" by (simp add: ordinary_faults_def)
  from webhook_run_total [OF this _ queued_data] show ?thesis by simp
qed

text \<open>
  C22. The queue empties: with the database up, and every pending delivery due and answered with a
  success by its endpoint, \<open>n\<close> ticks deliver \<open>n\<close> batches of them and nothing else happens to the
  queue; with enough ticks nothing is pending.
\<close>

theorem webhook_drains:
  assumes "no_faults E" and "0 < d" and "0 \<le> b" and "db_wf (db s)" and "deliveries_ok (db s)"
    and "\<forall>v \<in> set (webhook_deliveries (db s)). d_status v = DelPending \<longrightarrow>
      accepts E (pending_of v) \<and> (\<forall>w. d_next_attempt_at v \<le> fst (dbNow E w))"
  shows "\<exists>s'. run_state (Webhook_Run (Webhook_NewWorker E d b) n) s = (Inr (), s') \<and>
    length (filter (\<lambda>v. d_status v = DelPending) (webhook_deliveries (db s'))) =
      length (filter (\<lambda>v. d_status v = DelPending) (webhook_deliveries (db s))) - n * nat b \<and>
    list_all2 (\<lambda>v v'. v' = v \<or> d_status v = DelPending \<and> d_status v' = DelDelivered)
      (webhook_deliveries (db s)) (webhook_deliveries (db s'))"
  using Webhook_Run_drains [of "Webhook_NewWorker E d b" s n] assms by (auto simp: deliverable_def settled_def)

text \<open>A clock past every due time.\<close>

definition late_env :: "nat env" where
  "late_env = sample_env\<lparr>dbNow := (\<lambda>w. (int w + 5, Suc w))\<rparr>"

theorem webhook_drains_witness:
  "\<exists>s' v'. run_state (Webhook_Run (Webhook_NewWorker late_env 1000 5) 1) queued_state = (Inr (), s') \<and>
     webhook_deliveries (db s') = [v'] \<and> d_status v' = DelDelivered"
proof -
  have q: "webhook_deliveries (db queued_state) = [sample_delivery]" "d_status sample_delivery = DelPending"
    by (simp_all add: queued_state_def sample_delivery_def new_delivery_def)
  have nf: "no_faults late_env" by (simp add: no_faults_def late_env_def)
  have "accepts late_env (pending_of sample_delivery)" "\<forall>w. d_next_attempt_at sample_delivery \<le> fst (dbNow late_env w)"
    by (simp_all add: accepts_def late_env_def sample_env_def sample_delivery_def new_delivery_def)
  with webhook_drains [OF nf _ _ queued_data, of 1000 5 1] q show ?thesis
    by (auto simp: list_all2_Cons1 filter_empty_conv)
qed

text \<open>
  C23. A failure that cannot be written down is not counted: when an endpoint answers a
  delivery with an error body whose first 512 bytes are not storable text (a NUL byte, or a
  cut through a UTF-8 character), its row is after any number of ticks still exactly what it was,
  neither retried later nor dead. And it is sent again and again: while the delivery is pending and
  due, with the database up and room for the queue in a batch, \<open>n\<close> ticks send it exactly \<open>n\<close> times.
\<close>

theorem unstorable_reply_stuck:
  assumes "db_wf (db s)" and "v \<in> set (webhook_deliveries (db s))" and "newRequest E (d_url v) = Inr ()"
    and "\<And>w. \<exists>resp. fst (httpDo E (d_url v) (delivery_headers (pending_of v)) (d_payload v) w) = Inr resp \<and>
      resp_StatusCode resp \<ge> 300 \<and> \<not> pg_text_ok (List.take 512 (resp_Body resp))"
    and "run_state (Webhook_Run (Webhook_NewWorker E d b) n) s = (r, s')"
  shows "v \<in> set (webhook_deliveries (db s')) \<and>
    (no_faults E \<longrightarrow> 0 < d \<longrightarrow> length (webhook_deliveries (db s)) \<le> nat b \<longrightarrow> deliveries_ok (db s) \<longrightarrow>
     d_status v = DelPending \<longrightarrow> (\<forall>w. d_next_attempt_at v \<le> fst (dbNow E w)) \<longrightarrow>
     (\<forall>sends. counts_requests E (d_url v) (delivery_headers (pending_of v)) (d_payload v) sends \<longrightarrow>
        r = Inr () \<and> sends (world s') = sends (world s) + n))"
proof -
  have ref: "refuses E v" using assms(3,4) by (fastforce simp: refuses_def unstorable_reply_def)
  have "v \<in> set (webhook_deliveries (db s'))" using Webhook_Run_refused [OF _ assms(2,1,5)] ref by simp
  with Webhook_Run_resends [of "Webhook_NewWorker E d b" v _ s n] ref assms(1,2,5) show ?thesis by fastforce
qed

text \<open>An endpoint that answers with a NUL byte, in a world that counts the requests sent to it.\<close>

definition nul_env :: "nat env" where
  "nul_env = sample_env\<lparr>dbNow := Pair 5, timeNow := Pair 5,
     httpDo := (\<lambda>u h x w. (Inr \<lparr>resp_StatusCode = 500, resp_Body = [CHR 0x00]\<rparr>,
       if u = ''http://cb'' \<and> h = delivery_headers (pending_of sample_delivery) \<and> x = ''body'' then Suc w else w))\<rparr>"

theorem unstorable_reply_stuck_witness:
  "\<exists>s'. run_state (Webhook_Run (Webhook_NewWorker nul_env 1000 5) 1000) queued_state = (Inr (), s') \<and>
     sample_delivery \<in> set (webhook_deliveries (db s')) \<and> world s' = world queued_state + 1000"
proof -
  obtain r s' where run: "run_state (Webhook_Run (Webhook_NewWorker nul_env 1000 5) 1000) queued_state = (r, s')" by fastforce
  have v: "sample_delivery \<in> set (webhook_deliveries (db queued_state))" "length (webhook_deliveries (db queued_state)) \<le> nat 5"
    by (simp_all add: queued_state_def)
  have row: "d_url sample_delivery = ''http://cb''" "d_payload sample_delivery = ''body''" "d_status sample_delivery = DelPending"
    "d_next_attempt_at sample_delivery = 1" by (simp_all add: sample_delivery_def new_delivery_def)
  have e: "no_faults nul_env" "newRequest nul_env u = Inr ()" "fst (dbNow nul_env w) = 5" for u w
    by (simp_all add: no_faults_def nul_env_def sample_env_def)
  have c: "counts_requests nul_env (d_url sample_delivery) (delivery_headers (pending_of sample_delivery)) (d_payload sample_delivery) (\<lambda>w. w)"
    unfolding counts_requests_def row by (simp add: nul_env_def)
  have "\<exists>resp. fst (httpDo nul_env (d_url sample_delivery) (delivery_headers (pending_of sample_delivery)) (d_payload sample_delivery) w) =
      Inr resp \<and> resp_StatusCode resp \<ge> 300 \<and> \<not> pg_text_ok (List.take 512 (resp_Body resp))" for w
    by (simp add: nul_env_def)
  note stuck = unstorable_reply_stuck [OF queued_data(1) v(1) e(2) this run]
  have "r = Inr () \<and> world s' = world queued_state + 1000"
    by (rule stuck [THEN conjunct2, rule_format, OF e(1) _ v(2) queued_data(2) row(3) _ c]) (simp_all add: e(3) row(4))
  with stuck run show ?thesis by blast
qed

text \<open>
  C24. What \<open>Enqueue\<close> queues: at most one delivery; its payload is the JSON of the request's
  status at that moment with its newest attempt, signed with HMAC-SHA256 under the app's secret
  over exactly those bytes; its URL is the request's own callback, or else (none, or an empty one)
  the app's; it starts pending, untried. Without a URL or a secret nothing is queued.
\<close>

theorem enqueue_signed:
  assumes "run_state (Enqueue E i) s = (Inr (), s')"
  shows "\<exists>rq a att. rq \<in> set (relay_requests (db s)) \<and> r_id rq = i \<and> a \<in> set (apps (db s)) \<and> a_id a = r_app_id rq \<and>
    newest_attempt i (db s) att \<and>
    (let url = (case r_callback_url rq of
                  Some (c # cs) \<Rightarrow> c # cs
                | _ \<Rightarrow> (case a_default_callback_url a of Some u \<Rightarrow> u | None \<Rightarrow> []));
         secret = (case a_default_callback_secret a of Some k \<Rightarrow> k | None \<Rightarrow> []) in
     if url = [] \<or> secret = [] then db s' = db s
     else \<exists>v. db s' = (db s)\<lparr>webhook_deliveries := webhook_deliveries (db s) @ [v]\<rparr> \<and>
       marshalStatus E (status_document rq att) = Inr (d_payload v) \<and> d_request_id v = i \<and> d_url v = url \<and>
       d_signature v = ''sha256='' @ hex_EncodeToString (hmacSha256 E secret (d_payload v)) \<and>
       d_status v = DelPending \<and> d_attempt v = 0)"
proof -
  have url: "effective_url rq a = (case r_callback_url rq of
      Some (c # cs) \<Rightarrow> c # cs | _ \<Rightarrow> (case a_default_callback_url a of Some u \<Rightarrow> u | None \<Rightarrow> []))" for rq a
    by (auto simp: effective_url_def nullif_empty_def or_empty_def split: option.splits list.splits)
  have secret: "effective_secret a = (case a_default_callback_secret a of Some k \<Rightarrow> k | None \<Rightarrow> [])" for a
    by (simp add: effective_secret_def or_empty_def split: option.splits)
  have row: "\<exists>rq a. rq \<in> set (relay_requests (db s)) \<and> r_id rq = i \<and> a \<in> set (apps (db s)) \<and> a_id a = r_app_id rq \<and>
      st = status_document rq (latest_attempt i (db s)) \<and> url = effective_url rq a \<and> secret = effective_secret a"
    if "raw_row i (db s) = Inr (st, url, secret)" for st url secret
    using that by (auto simp: raw_row_def split: option.splits dest!: lookup_row_Some)
  note wit = exI [of _ "latest_attempt i (db s)"]
  show ?thesis
  proof (cases rule: Enqueue_run [of E i s])
    case (failed e w)
    with assms show ?thesis by simp
  next
    case (skipped st url secret w)
    from row [OF skipped(1)] obtain rq a where
      "rq \<in> set (relay_requests (db s))" "r_id rq = i" "a \<in> set (apps (db s))" "a_id a = r_app_id rq"
      "url = effective_url rq a" "secret = effective_secret a" by blast
    with assms skipped(2,3) show ?thesis
      by (intro exI [of _ rq] exI [of _ a] wit) (auto simp: Let_def latest_is_newest simp flip: url secret)
  next
    case (queued st url secret body v now d' w)
    from row [OF queued(1)] obtain rq a where
      ra: "rq \<in> set (relay_requests (db s))" "r_id rq = i" "a \<in> set (apps (db s))" "a_id a = r_app_id rq"
      "st = status_document rq (latest_attempt i (db s))" "url = effective_url rq a" "secret = effective_secret a" by blast
    let ?v = "new_delivery v now i url body (sign E secret body)"
    have "db s' = (db s)\<lparr>webhook_deliveries := webhook_deliveries (db s) @ [?v]\<rparr>"
      using queued(5,6) assms by (auto simp: insert_delivery_row_Inr)
    with ra queued(2-4) show ?thesis
      by (intro exI [of _ rq] exI [of _ a] wit)
         (auto simp: Let_def new_delivery_def sign_def latest_is_newest simp flip: url secret intro!: exI [of _ ?v])
  qed
qed

text \<open>A request with a callback of its own, of an app that has a default one too.\<close>

definition own_request :: relay_row where
  "own_request = sample_request\<lparr>r_callback_url := Some ''http://own''\<rparr>"

definition own_state :: "nat pool_state" where
  "own_state = flying_state\<lparr>db := (db flying_state)\<lparr>relay_requests := [own_request]\<rparr>\<rparr>"

theorem enqueue_signed_witness:
  "\<exists>s' v. run_state (Enqueue sample_env ''req'') own_state = (Inr (), s') \<and> a_default_callback_url sample_app = Some ''http://cb'' \<and>
     webhook_deliveries (db s') = [v] \<and> d_url v = ''http://own'' \<and>
     d_signature v = ''sha256='' @ hex_EncodeToString (hmacSha256 sample_env ''whsec_1'' (d_payload v))"
proof -
  note defs = own_state_def own_request_def flying_defs
  obtain s' where run: "run_state (Enqueue sample_env ''req'') own_state = (Inr (), s')"
    by (simp add: Enqueue_unfold GetRaw_def raw_row_def lookup_row_def run_defs defs insert_delivery_row_def
        new_delivery_def effective_url_def effective_secret_def or_empty_def nullif_empty_def status_document_def)
  have "relay_requests (db own_state) = [own_request]" "apps (db own_state) = [sample_app]"
    "webhook_deliveries (db own_state) = []" by (simp_all add: own_state_def flying_state_def sample_db_def)
  moreover have "r_callback_url own_request = Some ''http://own''" "a_default_callback_url sample_app = Some ''http://cb''"
    "a_default_callback_secret sample_app = Some ''whsec_1''"
    by (simp_all add: own_request_def sample_app_def)
  ultimately show ?thesis using enqueue_signed [OF run] run by (auto simp: Let_def)
qed

end
