(* ===== verification/Service_Properties.thy ===== *)
theory Service_Properties
  imports Sample_World
begin

text \<open>
  The properties of keys, apps, gas, alerts, sweeps, the HTTP interface and the start-up.
\<close>

section \<open>The keystore\<close>

lemma sample_fs [simp]:
  "fsPartial sample_env w = (None, w)" "randRead sample_env n w = (Inr (replicate n CHR ''r''), Suc w)"
  "argon2IDKey sample_env pw salt t m p l = replicate 32 CHR ''k''" "marshalKeyFile sample_env = put_doc"
  "gcmSeal sample_env key iv pt = pt" "generateKey sample_env w = (Inr (PrivateKey w), Suc w)"
  "pubkeyToAddress sample_env (PrivateKey n) = of_nat n" "sha256 sample_env b = b"
  by (simp_all add: sample_env_def)

lemma path_no_tmp [simp]: "path E a \<noteq> path E b @ ''.tmp''"
proof
  assume "path E a = path E b @ ''.tmp''"
  then have "last (path E a) = CHR ''p''" by simp
  then show False by (simp add: path_def)
qed

lemmas write_defs = Keystore_write_def IDKey_def newGCM_def defaultKDF_def Let_def put_doc_def replace_file_def os_defs
  run_attempt run_ext saltLen_def gcmNonceSize_def

lemma sample_write: "\<exists>s'. run_state (Keystore_write sample_env sample_keystore (of_nat k) (PrivateKey k)) sample_state = (Inr (), s')"
  by (simp add: write_defs sample_state_def fs_put_def fs_del_def)

text \<open>
  C25. A key that was written is read back: after a successful \<open>write\<close>, \<open>Load\<close> of the key's
  address, with the file system up, returns exactly that key.
\<close>

theorem keystore_roundtrip:
  assumes "keystore_laws E" and "run_state (Keystore_write E K (pubkeyToAddress E priv) priv) s = (Inr (), s')"
    and "\<And>w. fst (fsFault E w) = None"
  shows "fst (run_state (Keystore_Load E K (pubkeyToAddress E priv)) s') = Inr priv"
  by (rule write_then_load [OF assms])

theorem keystore_roundtrip_witness:
  "\<exists>s'. run_state (Keystore_write sample_env sample_keystore (pubkeyToAddress sample_env (PrivateKey 7)) (PrivateKey 7)) sample_state = (Inr (), s') \<and>
     fst (run_state (Keystore_Load sample_env sample_keystore (pubkeyToAddress sample_env (PrivateKey 7))) s') = Inr (PrivateKey 7)"
proof -
  obtain s' where run: "run_state (Keystore_write sample_env sample_keystore (pubkeyToAddress sample_env (PrivateKey 7)) (PrivateKey 7)) sample_state = (Inr (), s')"
    using sample_write [of 7] by auto
  from keystore_roundtrip [OF keystore_laws_sample run] run show ?thesis by simp
qed

text \<open>
  C26. Writing a key is atomic for readers of the directory: a failed \<open>write\<close>, even one that
  stopped half way through the file, leaves the entry of that address as it was, and no
  \<open>write\<close> touches any entry but that one and its temporary file.
\<close>

theorem keystore_write_atomic:
  assumes "run_state (Keystore_write E K addr priv) s = (r, s')"
  shows "(\<forall>n. n \<noteq> path E addr \<longrightarrow> n \<noteq> path E addr @ ''.tmp'' \<longrightarrow> map_of (files s') n = map_of (files s) n) \<and>
    (\<forall>e. r = Inl e \<longrightarrow> map_of (files s') (path E addr) = map_of (files s) (path E addr))"
  by (rule write_effect [OF assms])

text \<open>A disk that fails every call, after ten bytes of a write.\<close>

definition full_env :: "nat env" where
  "full_env = sample_env\<lparr>fsFault := Pair (Some (External ''no space left on device'')), fsPartial := Pair (Some 10)\<rparr>"

lemma full_env_sel [simp]:
  "fsFault full_env w = (Some (External ''no space left on device''), w)" "fsPartial full_env w = (Some 10, w)"
  "randRead full_env = randRead sample_env" "argon2IDKey full_env = argon2IDKey sample_env" "marshalKeyFile full_env = put_doc"
  "path full_env = path sample_env"
  by (simp_all add: full_env_def sample_env_def path_def lowerHex_def fun_eq_iff)

theorem keystore_write_atomic_witness:
  "\<exists>e s'. run_state (Keystore_write full_env sample_keystore 2 (PrivateKey 2)) sample_state = (Inl e, s') \<and>
     map_of (files s') (path full_env 2) = map_of (files sample_state) (path full_env 2)"
proof -
  have "\<exists>e s'. run_state (Keystore_write full_env sample_keystore 2 (PrivateKey 2)) sample_state = (Inl e, s')"
    by (simp add: write_defs)
  then obtain e s' where run: "run_state (Keystore_write full_env sample_keystore 2 (PrivateKey 2)) sample_state = (Inl e, s')"
    by blast
  with keystore_write_atomic [OF run] show ?thesis by metis
qed

section \<open>Apps\<close>

definition sample_create :: CreateInput where
  "sample_create = \<lparr>ci_Name = ''shop'', ci_PoolSize = 1, ci_DefaultCallbackURL = [], ci_SignerMinBalance = big_String 5,
     ci_SignerRefillAmount = big_String 9, ci_TreasuryMinBalance = big_String 0\<rparr>"

lemma TrimSpace_shop: "TrimSpace ''shop'' = ''shop''"
  by code_simp

definition fresh_state :: "nat pool_state" where
  "fresh_state = \<lparr>world = 10, db = empty_db, files = [], pools = NewPool\<rparr>"

lemmas create_defs = sample_create_def TrimSpace_shop minPoolSize_def maxPoolSize_def validateGasPolicy_def parseUintOrZero_def
  Generate_def newBearerToken_def App_insert_def insert_app_def nonEmptyOrZero_def text_param_def write_defs run_defs
  insert_app_row_def insert_signer_row_def fresh_state_def empty_db_def fs_put_def fs_del_def

lemma sample_created: "\<exists>r s'. run_state (Create sample_env sample_keystore sample_create) fresh_state = (Inr r, s')"
  by (simp add: Create_def create_defs)

lemma create_app_success:
  assumes "run_state (Create E K inp) s = (Inr r, s')"
  shows "TrimSpace (ci_Name inp) \<noteq> [] \<and> 1 \<le> ci_PoolSize inp \<and> ci_PoolSize inp \<le> 1024 \<and>
    validateGasPolicy (ci_SignerMinBalance inp) (ci_SignerRefillAmount inp) = Inr () \<and>
    length (cr_SignerAddresses r) = nat (ci_PoolSize inp) \<and> HasPrefix (cr_BearerToken r) ''tk_'' \<and>
    (cr_DefaultCallbackSecret r = [] \<longleftrightarrow> ci_DefaultCallbackURL inp = []) \<and>
    (\<exists>a now. apps (db s') = apps (db s) @ [a] \<and> a_id a = cr_AppID r \<and> a_id a \<notin> a_id ` set (apps (db s)) \<and>
       a_bearer_token_hash a = sha256 E (cr_BearerToken r) \<and>
       sha256 E (cr_BearerToken r) \<notin> a_bearer_token_hash ` set (apps (db s)) \<and>
       a_treasury_address a = lowerHex E (cr_TreasuryAddress r) \<and> a_pool_size a = ci_PoolSize inp \<and> \<not> a_disabled a \<and>
       signers (db s') = signers (db s) @ new_signer_rows E (cr_AppID r) now (cr_SignerAddresses r))"
proof (rule Create_success [OF assms])
  fix now a b c hash
  let ?row = "new_app_row E (cr_AppID r) now (TrimSpace (ci_Name inp)) (ci_PoolSize inp)
            (ci_DefaultCallbackURL inp) (cr_DefaultCallbackSecret r) (cr_TreasuryAddress r) hash a b c"
  assume "TrimSpace (ci_Name inp) \<noteq> []" "1 \<le> ci_PoolSize inp" "ci_PoolSize inp \<le> 1024"
    "validateGasPolicy (ci_SignerMinBalance inp) (ci_SignerRefillAmount inp) = Inr ()"
    "length (cr_SignerAddresses r) = nat (ci_PoolSize inp)"
    "(cr_DefaultCallbackSecret r = []) = (ci_DefaultCallbackURL inp = [])"
    "hash = sha256 E (cr_BearerToken r)" "cr_AppID r \<notin> a_id ` set (apps (db s))"
    "hash \<notin> a_bearer_token_hash ` set (apps (db s))" "HasPrefix (cr_BearerToken r) ''tk_''"
    "db s' = (db s)\<lparr>apps := apps (db s) @ [?row],
        signers := signers (db s) @ new_signer_rows E (cr_AppID r) now (cr_SignerAddresses r)\<rparr>"
  then show ?thesis
    by (intro conjI exI [of _ ?row] exI [of _ now]) (simp_all add: new_app_row_def)
qed

text \<open>
  C27. What \<open>Create\<close> leaves. When it fails, at whatever step, the database is exactly as it was.
  When it succeeds, the name is not blank, the pool size is between 1 and 1024, and the gas policy
  passed validation; the database gains exactly one app (enabled, with a fresh id and the hash of a
  token \<open>tk_...\<close> that no other app has; a callback secret exactly when there is a callback URL) and,
  in the same transaction, one signer row for each of the \<open>pool_size\<close> generated keys. Keys and
  references hold either way.
\<close>

theorem create_app:
  assumes "run_state (Create E K inp) s = (out, s')"
  shows "(\<forall>e. out = Inl e \<longrightarrow> db s' = db s) \<and> (db_wf (db s) \<longrightarrow> db_wf (db s')) \<and>
   (\<forall>r. out = Inr r \<longrightarrow>
    TrimSpace (ci_Name inp) \<noteq> [] \<and> 1 \<le> ci_PoolSize inp \<and> ci_PoolSize inp \<le> 1024 \<and>
    validateGasPolicy (ci_SignerMinBalance inp) (ci_SignerRefillAmount inp) = Inr () \<and>
    length (cr_SignerAddresses r) = nat (ci_PoolSize inp) \<and> HasPrefix (cr_BearerToken r) ''tk_'' \<and>
    (cr_DefaultCallbackSecret r = [] \<longleftrightarrow> ci_DefaultCallbackURL inp = []) \<and>
    (\<exists>a now. apps (db s') = apps (db s) @ [a] \<and> a_id a = cr_AppID r \<and> a_id a \<notin> a_id ` set (apps (db s)) \<and>
       a_bearer_token_hash a = sha256 E (cr_BearerToken r) \<and>
       sha256 E (cr_BearerToken r) \<notin> a_bearer_token_hash ` set (apps (db s)) \<and>
       a_treasury_address a = lowerHex E (cr_TreasuryAddress r) \<and> a_pool_size a = ci_PoolSize inp \<and> \<not> a_disabled a \<and>
       signers (db s') = signers (db s) @ new_signer_rows E (cr_AppID r) now (cr_SignerAddresses r)))"
  using create_app_success [of E K inp s _ s'] all_or_nothingD [OF Create_all_or_nothing, of E K inp s _ s']
    keepsD [OF Create_keeps_wf _ assms] assms by auto

theorem create_app_witness:
  "\<exists>r s' a. run_state (Create sample_env sample_keystore sample_create) fresh_state = (Inr r, s') \<and>
     apps (db s') = [a] \<and> a_pool_size a = 1 \<and> length (cr_SignerAddresses r) = 1"
proof -
  obtain r s' where run: "run_state (Create sample_env sample_keystore sample_create) fresh_state = (Inr r, s')"
    using sample_created by blast
  have "apps (db fresh_state) = []" "ci_PoolSize sample_create = 1"
    by (simp_all add: fresh_state_def empty_db_def sample_create_def)
  with create_app [OF run] run show ?thesis by auto
qed

text \<open>
  C28. A created app is usable at once: its bearer token authenticates as that app, and its
  accounts read back as the treasury and, in some order, the signers that \<open>Create\<close> returned.
\<close>

theorem create_then_read:
  assumes "run_state (Create E K inp) s = (Inr r, s')" and "no_faults E" and "hex_roundtrip E" and "db_wf (db s)"
  shows "fst (run_state (Authenticate E (cr_BearerToken r)) s') =
      Inr \<lparr>id_AppID = cr_AppID r, id_PoolSize = ci_PoolSize inp, id_Disabled = False\<rparr> \<and>
    (\<exists>acc s2. run_state (Accounts E (cr_AppID r)) s' = (Inr acc, s2) \<and> aa_Treasury acc = cr_TreasuryAddress r \<and>
       mset (map si_Address (aa_Signers acc)) = mset (cr_SignerAddresses r))"
  using Create_then_Authenticate [OF assms(1,2)] Create_then_Accounts [OF assms] by blast

lemma sample_hex_roundtrip: "hex_roundtrip sample_env"
  by (simp add: hex_roundtrip_def)

theorem create_then_read_witness:
  "\<exists>r s' idt. run_state (Create sample_env sample_keystore sample_create) fresh_state = (Inr r, s') \<and>
     fst (run_state (Authenticate sample_env (cr_BearerToken r)) s') = Inr idt \<and> id_AppID idt = cr_AppID r"
proof -
  obtain r s' where run: "run_state (Create sample_env sample_keystore sample_create) fresh_state = (Inr r, s')"
    using sample_created by blast
  have "db_wf (db fresh_state)" by (simp add: fresh_state_def)
  from create_then_read [OF run sample_no_faults sample_hex_roundtrip this] run show ?thesis by auto
qed

section \<open>Gas policies\<close>

text \<open>
  C29. Texts that Go's \<open>SetString\<close> does not read count as unset, so the validation lets any
  pair of them pass. \<open>Create\<close> then stores whatever numbers the server reads in them, and the gas
  worker manages the app with these thresholds, also when the refill is below the minimum.
\<close>

theorem gas_policy_unread:
  assumes "SetString10 (ci_SignerMinBalance inp) = None" and "SetString10 (ci_SignerRefillAmount inp) = None"
    and "ci_SignerMinBalance inp \<noteq> []" and "ci_SignerRefillAmount inp \<noteq> []"
    and "pgNumeric E (ci_SignerMinBalance inp) = Some (Num x)" and "pgNumeric E (ci_SignerRefillAmount inp) = Some (Num y)"
    and "0 < x" and "0 < y" and "run_state (Create E K inp) s = (Inr r, s')"
  shows "validateGasPolicy (ci_SignerMinBalance inp) (ci_SignerRefillAmount inp) = Inr () \<and>
    (\<exists>a. apps (db s') = apps (db s) @ [a] \<and> has_policy a \<and>
       pol_signerMinBalance (policy_of E a) = Some x \<and> pol_signerRefillAmount (policy_of E a) = Some y)"
proof (rule Create_success [OF assms(9)])
  fix now a b c hash
  let ?row = "new_app_row E (cr_AppID r) now (TrimSpace (ci_Name inp)) (ci_PoolSize inp)
            (ci_DefaultCallbackURL inp) (cr_DefaultCallbackSecret r) (cr_TreasuryAddress r) hash a b c"
  assume "pgNumeric E (nonEmptyOrZero (ci_SignerMinBalance inp)) = Some a"
      "pgNumeric E (nonEmptyOrZero (ci_SignerRefillAmount inp)) = Some b"
    and db': "db s' = (db s)\<lparr>apps := apps (db s) @ [?row],
        signers := signers (db s) @ new_signer_rows E (cr_AppID r) now (cr_SignerAddresses r)\<rparr>"
  with assms(3-6) have "a = Num x" "b = Num y" by (simp_all add: nonEmptyOrZero_def)
  with db' assms show ?thesis
    by (simp add: validateGasPolicy_def parseUintOrZero_def new_app_row_def has_policy_def policy_of_def)
qed

text \<open>A server that reads \<open>1e3\<close> and \<open>5.0\<close> as PostgreSQL does, and an app created with them.\<close>

definition lenient_env :: "nat env" where
  "lenient_env = sample_env\<lparr>pgNumeric := (\<lambda>t. if t = ''1e3'' then Some (Num 1000) else if t = ''5.0'' then Some (Num 5)
     else pgNumeric sample_env t)\<rparr>"

definition lenient_create :: CreateInput where
  "lenient_create = sample_create\<lparr>ci_SignerMinBalance := ''1e3'', ci_SignerRefillAmount := ''5.0''\<rparr>"

lemma big_String_zero: "big_String 0 = ''0''"
  by code_simp

lemma lenient_env_sel [simp]:
  "fsFault lenient_env = fsFault sample_env" "fsPartial lenient_env = fsPartial sample_env"
  "randRead lenient_env = randRead sample_env" "argon2IDKey lenient_env = argon2IDKey sample_env"
  "marshalKeyFile lenient_env = put_doc" "generateKey lenient_env = generateKey sample_env"
  "pubkeyToAddress lenient_env = pubkeyToAddress sample_env" "sha256 lenient_env = sha256 sample_env"
  "dbFault lenient_env = dbFault sample_env" "dbNow lenient_env = dbNow sample_env" "genUuid lenient_env = genUuid sample_env"
  "path lenient_env = path sample_env" "lowerHex lenient_env = lowerHex sample_env"
  "pgNumeric lenient_env ''1e3'' = Some (Num 1000)" "pgNumeric lenient_env ''5.0'' = Some (Num 5)"
  "pgNumeric lenient_env (big_String 0) = Some (Num 0)"
  by (simp_all add: lenient_env_def lowerHex_def path_def fun_eq_iff) (simp_all add: sample_env_def big_String_zero)

lemma unread_texts [simp]: "parse_digits ''1e3'' = None" "parse_digits ''5.0'' = None"
  by (simp_all add: parse_digits_def is_digit_def)

theorem gas_policy_unread_witness:
  "\<exists>r s' a. run_state (Create lenient_env sample_keystore lenient_create) fresh_state = (Inr r, s') \<and> apps (db s') = [a] \<and>
     pol_signerMinBalance (policy_of lenient_env a) = Some 1000 \<and> pol_signerRefillAmount (policy_of lenient_env a) = Some 5"
proof -
  have inp: "ci_SignerMinBalance lenient_create = ''1e3''" "ci_SignerRefillAmount lenient_create = ''5.0''"
    by (simp_all add: lenient_create_def)
  have "\<exists>r s'. run_state (Create lenient_env sample_keystore lenient_create) fresh_state = (Inr r, s')"
    by (simp add: Create_def lenient_create_def create_defs)
  then obtain r s' where run: "run_state (Create lenient_env sample_keystore lenient_create) fresh_state = (Inr r, s')" by blast
  have "apps (db fresh_state) = []" by (simp add: fresh_state_def empty_db_def)
  with gas_policy_unread [OF _ _ _ _ _ _ _ _ run, unfolded inp, of 1000 5] run show ?thesis by auto
qed

text \<open>
  C30. An app created with decimal thresholds has them stored as those numbers, so the gas worker
  can read its policy, manages it exactly when the minimum and the refill are positive, and
  then refills with more than the minimum.
\<close>

theorem create_policy_sound:
  assumes "run_state (Create E K inp) s = (Inr r, s')" and "pg_decimal E"
    and "ci_SignerMinBalance inp = big_String smin" and "ci_SignerRefillAmount inp = big_String sref"
    and "ci_TreasuryMinBalance inp = big_String tmin"
  shows "\<exists>a. apps (db s') = apps (db s) @ [a] \<and> sound_policy (policy_of E a) \<and>
    pol_signerMinBalance (policy_of E a) = Some smin \<and> pol_signerRefillAmount (policy_of E a) = Some sref \<and>
    (has_policy a \<longleftrightarrow> 0 < smin) \<and> (has_policy a \<longrightarrow> smin < sref)"
proof (rule Create_success [OF assms(1)])
  fix now a b c hash
  let ?row = "new_app_row E (cr_AppID r) now (TrimSpace (ci_Name inp)) (ci_PoolSize inp)
            (ci_DefaultCallbackURL inp) (cr_DefaultCallbackSecret r) (cr_TreasuryAddress r) hash a b c"
  assume val: "validateGasPolicy (ci_SignerMinBalance inp) (ci_SignerRefillAmount inp) = Inr ()"
    and num: "pgNumeric E (nonEmptyOrZero (ci_SignerMinBalance inp)) = Some a"
      "pgNumeric E (nonEmptyOrZero (ci_SignerRefillAmount inp)) = Some b"
      "pgNumeric E (nonEmptyOrZero (ci_TreasuryMinBalance inp)) = Some c"
    and db': "db s' = (db s)\<lparr>apps := apps (db s) @ [?row],
        signers := signers (db s) @ new_signer_rows E (cr_AppID r) now (cr_SignerAddresses r)\<rparr>"
  have n: "a = Num smin" "b = Num sref" "c = Num tmin"
    using num assms(2-5) by (auto simp: pg_decimal_def nonEmptyOrZero_def split: if_splits)
  have "smin \<le> 0 \<and> sref \<le> 0 \<or> 0 < smin \<and> smin < sref"
    using val assms(3,4) by (auto simp: validateGasPolicy_def parseUintOrZero_def Let_def split: if_splits)
  with n db' show ?thesis
    by (intro exI [of _ ?row]) (auto simp: sound_policy_def policy_of_def new_app_row_def has_policy_def)
qed

lemma sample_pg_decimal: "pg_decimal sample_env"
  by (simp add: pg_decimal_def)

theorem create_policy_sound_witness:
  "\<exists>r s' a. run_state (Create sample_env sample_keystore sample_create) fresh_state = (Inr r, s') \<and>
     apps (db s') = [a] \<and> has_policy a \<and> pol_signerMinBalance (policy_of sample_env a) = Some 5"
proof -
  obtain r s' where run: "run_state (Create sample_env sample_keystore sample_create) fresh_state = (Inr r, s')"
    using sample_created by blast
  have "ci_SignerMinBalance sample_create = big_String 5" "ci_SignerRefillAmount sample_create = big_String 9"
    "ci_TreasuryMinBalance sample_create = big_String 0" "apps (db fresh_state) = []"
    by (simp_all add: sample_create_def fresh_state_def empty_db_def)
  with create_policy_sound [OF run sample_pg_decimal this(1-3)] run show ?thesis by auto
qed

section \<open>The gas worker\<close>

text \<open>
  C31. One app whose treasury threshold was stored as \<open>NaN\<close> (which C29 lets through) ends the
  process: the threshold reads back as a nil pointer, and the first tick of the gas worker
  whose balance query of that treasury succeeds panics, whatever the other apps are.
\<close>

theorem gas_tick_NaN:
  assumes "no_faults E" and "a \<in> set (apps (db s))" and "has_policy a" and "a_treasury_min_balance a = NaN"
    and "\<And>w. \<exists>bal. fst (balanceAt E (hexToAddress E (a_treasury_address a)) w) = Inr bal"
  shows "\<exists>e s'. run_state (Gas_tick E K nt) s = (Inl e, s') \<and> is_panic e"
  by (rule Gas_tick_NaN [OF assms])

definition nan_state :: "nat alert_state" where
  "nan_state = gas_state\<lparr>db := sample_db\<lparr>apps := [sample_app, sample_app\<lparr>a_id := ''bad'', a_treasury_min_balance := NaN\<rparr>]\<rparr>\<rparr>"

theorem gas_tick_NaN_witness:
  "\<exists>e s'. run_state (Gas_tick sample_env sample_keystore Discard) nan_state = (Inl e, s') \<and> is_panic e"
  by (rule gas_tick_NaN [OF sample_no_faults, of "sample_app\<lparr>a_id := ''bad'', a_treasury_min_balance := NaN\<rparr>"])
     (simp_all add: nan_state_def has_policy_def sample_app_def)

text \<open>
  C32. With a positive interval, numeric policies and key files that decrypt without a panic, the gas worker survives
  any number of ticks, whatever fails in between, and only ever adds rows to \<open>gas_attempts\<close>:
  the rest of the database, the signer pools and the key files are as they were.
\<close>

theorem gas_run_safe:
  assumes "0 < d" and "\<forall>a \<in> set (apps (db s)). has_policy a \<longrightarrow> sound_policy (policy_of E a)" and "safe_keys E K (files s)"
  shows "\<exists>s' gs. run_state (Gas_Run (Gas_NewWorker E K nt d) n) s = (Inr (), s') \<and> pools s' = pools s \<and> files s' = files s \<and>
    db s' = (db s)\<lparr>gas_attempts := gas_attempts (db s) @ gs\<rparr> \<and> (db_wf (db s) \<longrightarrow> db_wf (db s'))"
  using Gas_Run_total [of "Gas_NewWorker E K nt d" s n] assms by (fastforce simp: gas_frame_def topped_def)

lemma gas_keys_safe: "safe_keys sample_env sample_keystore (files gas_state)"
proof -
  have "\<not> is_panic e" if "decode_key E K a dat = Inr k" "decode_key E K b dat = Inl e" for E :: "nat env" and K a b dat k e
    using that by (auto simp: decode_key_def split: sum.splits if_splits)
  with sample_decode show ?thesis by (auto simp: safe_keys_def gas_state_def split: if_splits)
qed

theorem gas_run_safe_witness:
  "\<exists>s' gs. run_state (Gas_Run (Gas_NewWorker sample_env sample_keystore None 1000) 1000) gas_state = (Inr (), s') \<and>
     gas_attempts (db s') = gs \<and> files s' = files gas_state \<and> db_wf (db s')"
proof -
  have "\<forall>a \<in> set (apps (db gas_state)). has_policy a \<longrightarrow> sound_policy (policy_of sample_env a)"
    by (simp add: gas_state_def sample_db_def sound_policy_of sample_app_def)
  moreover have "db_wf (db gas_state)" by (simp add: gas_state_def db_wf_def sample_defs)
  ultimately show ?thesis using gas_run_safe [OF _ _ gas_keys_safe, of 1000 None 1000] by simp blast
qed

text \<open>
  C33. The top-ups of one app in one tick: each is a transaction of the refill amount to a signer,
  signed with the treasury's key at the reported gas price and accepted by the node; each signer
  gets at most one, in the order of the query; the treasury nonces are consecutive from the
  pending nonce the chain reported, so a top-up that could not be sent does not use one up.
\<close>

theorem gas_topup_nonces:
  assumes "run_state (processApp E K nt p) s = (Inr ups, s')" and "ups \<noteq> []"
  shows "(\<exists>n. answers (pendingNonceAt E (pol_treasury p)) n \<and> consecutive n (map snd ups)) \<and>
    subseq (map fst ups) (map (\<lambda>r. hexToAddress E (s_address r)) (signers_of (pol_id p) (db s))) \<and>
    (\<exists>priv gasPrice. pubkeyToAddress E priv = pol_treasury p \<and> answers (suggestGasPrice E) gasPrice \<and>
      (\<forall>(a, m) \<in> set ups. \<exists>signed.
         SignTx E (NewTransaction m a (pol_signerRefillAmount p) topupGasLimit gasPrice []) priv = Inr signed \<and>
         answers (sendTransaction E signed) ()))"
  using processApp_run [OF assms(1)] processApp_sent [OF assms] assms(2)
  by (simp add: gas_run_def topups_ok_def answers_def)

lemma sample_topup: "\<exists>s'. run_state (processApp sample_env sample_keystore Discard (policy_of sample_env sample_app)) gas_state = (Inr [(2, 5)], s')"
  by (simp add: processApp_def policy_of_def gas_listSigners_def hasRecentTopup_def recent_topup_def refill_def topup_insert_def
      insert_gas_row_def new_topup_def SignTx_def amount_text_def gas_state_def run_defs load_defs sample_defs del: One_nat_def)

theorem gas_topup_nonces_witness:
  "\<exists>s' n. run_state (processApp sample_env sample_keystore Discard (policy_of sample_env sample_app)) gas_state = (Inr [(2, 5)], s') \<and>
     consecutive n [5]"
proof -
  obtain s' where run: "run_state (processApp sample_env sample_keystore Discard (policy_of sample_env sample_app)) gas_state = (Inr [(2, 5)], s')"
    using sample_topup by blast
  from gas_topup_nonces [OF run] run show ?thesis by auto
qed

text \<open>
  C34. A signer with a recorded top-up is left alone for a minute: while the table has a submitted
  or confirmed top-up of it younger than 60 seconds, the loop over the signers passes it by, also
  when the database fails to answer, and no run of the loop tops it up or adds a row for it.
  (The loop goes by the table: a top-up that was sent but could not be inserted silences nothing.)
  The minute is exact: with the database up, a signer whose top-ups are all 60 seconds old or older
  and whose balance is below the minimum is topped up again when the node accepts the transaction.
\<close>

theorem recent_topup_skipped:
  assumes "g \<in> set (gas_attempts (db s))" and "g_signer_address g = lowerHex E a"
    and "g_status g \<in> {GasSubmitted, GasConfirmed}" and "\<forall>w. fst (dbNow E w) - g_submitted_at g < 60 * 10 ^ 6"
  shows "(\<forall>p k n price rest. \<exists>w. run_state (refill_signers E p k n price (a # rest)) s =
       run_state (refill_signers E p k n price rest) (s\<lparr>world := w\<rparr>)) \<and>
    (\<forall>p k n price ss r s'. run_state (refill_signers E p k n price ss) s = (r, s') \<longrightarrow>
       (\<forall>ups. r = Inr ups \<longrightarrow> a \<notin> fst ` set ups) \<and>
       filter (\<lambda>h. g_signer_address h = lowerHex E a) (gas_attempts (db s')) =
         filter (\<lambda>h. g_signer_address h = lowerHex E a) (gas_attempts (db s))) \<and>
    (\<forall>b p k n price rest mn stx ups s'. no_faults E \<longrightarrow>
       (\<forall>h \<in> set (gas_attempts (db s)). \<forall>w. g_signer_address h = lowerHex E b \<longrightarrow> 60 * 10 ^ 6 \<le> fst (dbNow E w) - g_submitted_at h) \<longrightarrow>
       pol_signerMinBalance p = Some mn \<longrightarrow> (\<forall>w. \<exists>bal. fst (balanceAt E b w) = Inr bal \<and> bal < mn) \<longrightarrow>
       SignTx E (NewTransaction n b (pol_signerRefillAmount p) 21000 price []) k = Inr stx \<longrightarrow>
       (\<forall>w. fst (sendTransaction E stx w) = Inr ()) \<longrightarrow>
       run_state (refill_signers E p k n price (b # rest)) s = (Inr ups, s') \<longrightarrow> (b, n) \<in> set ups)"
proof -
  have sil: "silenced E (lowerHex E a) (db s)"
    by (rule silencedI [OF assms(1,2)]) (use assms(3,4) in \<open>auto simp: recentTopupWindow_def algebra_simps\<close>)
  have old: "\<not> recent_topup (lowerHex E b) (fst (dbNow E w)) (db s)"
    if "\<forall>h \<in> set (gas_attempts (db s)). \<forall>w. g_signer_address h = lowerHex E b \<longrightarrow> 60 * 10 ^ 6 \<le> fst (dbNow E w) - g_submitted_at h" for b w
  proof
    assume "recent_topup (lowerHex E b) (fst (dbNow E w)) (db s)"
    then obtain h where "h \<in> set (gas_attempts (db s))" "g_signer_address h = lowerHex E b"
      "fst (dbNow E w) - 60 * 10 ^ 6 < g_submitted_at h" by (auto simp: recent_topup_def list_ex_iff recentTopupWindow_def)
    with that show False by (metis diff_less_eq linorder_not_le add.commute)
  qed
  have due: "(b, n) \<in> set ups"
    if "no_faults E"
      "\<forall>h \<in> set (gas_attempts (db s)). \<forall>w. g_signer_address h = lowerHex E b \<longrightarrow> 60 * 10 ^ 6 \<le> fst (dbNow E w) - g_submitted_at h"
      "pol_signerMinBalance p = Some mn" "\<forall>w. \<exists>bal. fst (balanceAt E b w) = Inr bal \<and> bal < mn"
      "SignTx E (NewTransaction n b (pol_signerRefillAmount p) 21000 price []) k = Inr stx"
      "\<forall>w. fst (sendTransaction E stx w) = Inr ()" "run_state (refill_signers E p k n price (b # rest)) s = (Inr ups, s')"
    for b p k n price rest mn stx ups s'
    by (rule refill_signers_due [OF that(1) _ that(3,4) _ that(6,7)]) (use old [OF that(2)] that(5) in \<open>simp_all add: topupGasLimit_def\<close>)
  note kept = refill_signers_silenced [OF sil]
  show ?thesis
  proof (intro conjI allI impI, goal_cases)
    case (1 p k n price rest)
    show ?case by (rule silenced_skipped [OF sil])
  next
    case (2 p k n price ss r s' ups)
    with kept [OF 2(1)] show ?case by blast
  next
    case (3 p k n price ss r s')
    with kept [OF 3] show ?case by blast
  next
    case (4 b p k n price rest mn stx ups s')
    then show ?case by (rule due)
  qed
qed

text \<open>A clock that stands still, 59 seconds after the signer's last top-up.\<close>

definition still_env :: "nat env" where
  "still_env = sample_env\<lparr>dbNow := Pair 63000000\<rparr>"

definition topped_state :: "nat alert_state" where
  "topped_state = gas_state\<lparr>db := sample_db\<lparr>gas_attempts :=
     [new_topup sample_env (policy_of sample_env sample_app) 5 2 5 ''gas'' 4000000 (Num 900) (Num 7)]\<rparr>\<rparr>"

theorem recent_topup_skipped_witness:
  "\<exists>w. run_state (refill_signers still_env (policy_of still_env sample_app) (PrivateKey 1) 6 7 [2]) topped_state =
     (Inr [], topped_state\<lparr>world := w\<rparr>)"
proof -
  let ?g = "new_topup sample_env (policy_of sample_env sample_app) 5 2 5 ''gas'' 4000000 (Num 900) (Num 7)"
  have hyps: "?g \<in> set (gas_attempts (db topped_state))" "g_signer_address ?g = lowerHex still_env 2"
    "g_status ?g \<in> {GasSubmitted, GasConfirmed}" "\<forall>w. fst (dbNow still_env w) - g_submitted_at ?g < 60 * 10 ^ 6"
    by (simp_all add: topped_state_def new_topup_def lowerHex_def still_env_def)
  have "\<exists>w. run_state (refill_signers still_env (policy_of still_env sample_app) (PrivateKey 1) 6 7 (2 # [])) topped_state =
      run_state (refill_signers still_env (policy_of still_env sample_app) (PrivateKey 1) 6 7 []) (topped_state\<lparr>world := w\<rparr>)"
    by (rule recent_topup_skipped [OF hyps, THEN conjunct1, rule_format])
  then show ?thesis by simp
qed

section \<open>The HTTP interface\<close>

text \<open>
  C35. What the bearer-token middleware lets through: the handler runs only for the app whose
  stored hash is that of the presented token, and only while the app is enabled; every other
  request is answered 401, 403 or 500 and changes neither database nor pools nor key files.
\<close>

theorem bearer_admits:
  assumes "run_state (bearerAuth E hdr nxt) s = (x, s')"
  shows "(\<exists>w. s' = s\<lparr>world := w\<rparr> \<and> reply_status x \<in> {401, 403, 500}) \<or>
    (\<exists>a tok w. hdr = ''Bearer '' @ tok \<and> a \<in> set (apps (db s)) \<and> a_bearer_token_hash a = sha256 E tok \<and>
       \<not> a_disabled a \<and> run_state (nxt (a_id a)) (s\<lparr>world := w\<rparr>) = (x, s'))"
proof (cases rule: bearerAuth_run [of E hdr nxt s])
  case (refused y w)
  with assms show ?thesis by auto
next
  case (admitted a tok w)
  with assms show ?thesis by metis
qed

theorem bearer_admits_witness:
  "\<exists>x s'. run_state (bearerAuth sample_env ''Basic dXNlcg=='' (getRelay sample_env ''req'')) sample_state = (x, s') \<and>
     (\<exists>w. s' = sample_state\<lparr>world := w\<rparr>) \<and> reply_status x \<in> {401, 403, 500}"
proof -
  obtain x s' where run: "run_state (bearerAuth sample_env ''Basic dXNlcg=='' (getRelay sample_env ''req'')) sample_state = (x, s')"
    by fastforce
  have "\<nexists>tok. ''Basic dXNlcg=='' = ''Bearer '' @ tok" by simp
  with bearer_admits [OF run] run show ?thesis by blast
qed

text \<open>
  C36. From the HTTP request to the database: a relay request answered 202 came with the token
  of an enabled app; exactly one request of that app and one attempt of it were added, both
  marked submitted, with the call data of the body; the reply's id is the request's, and
  its hash is, up to letter case, the attempt's.
\<close>

theorem relay_accepted:
  fixes s :: "('w, 'z) pool_state_scheme"
  assumes "pool_inv held (pools s)"
    and "run_state (serve (txmill_service E K) K hdr (PostRelay (Some req))) s = (JSON c (JRelay rsp), s')"
  shows "\<exists>a tok rq att. c = 202 \<and> hdr = ''Bearer '' @ tok \<and> a \<in> set (apps (db s)) \<and> a_bearer_token_hash a = sha256 E tok \<and>
    \<not> a_disabled a \<and>
    relay_requests (db s') = relay_requests (db s) @ [rq] \<and> r_app_id rq = a_id a \<and> r_id rq = rr_RequestID rsp \<and>
    r_status rq = ReqSubmitted \<and> decodeHexBytes (rq_Data req) = Inr (r_call_data rq) \<and>
    tx_attempts (db s') = tx_attempts (db s) @ [att] \<and> t_request_id att = r_id rq \<and> t_status att = AttSubmitted \<and>
    t_tx_hash att = ToLower (rr_TxHash rsp)"
proof -
  let ?svc = "txmill_service E K :: ('w, 'z) Service"
  have run: "run_state (bearerAuth E hdr (postRelay ?svc (Some req))) s = (JSON c (JRelay rsp), s')"
    using assms(2) by (simp add: serve_routes)
  show ?thesis
  proof (cases rule: bearerAuth_run [of E hdr "postRelay ?svc (Some req)" s])
    case (refused x w)
    with run show ?thesis by auto
  next
    case (admitted a tok w)
    with run have "run_state (postRelay ?svc (Some req) (a_id a)) (s\<lparr>world := w\<rparr>) = (JSON c (JRelay rsp), s')" by simp
    then show ?thesis
    proof (rule postRelay_accepted)
      fix dat v res
      let ?inp = "relay_input (svc_env ?svc) (a_id a) req dat v" and ?s = "s\<lparr>world := w\<rparr>"
      assume dat: "decodeHexBytes (rq_Data req) = Inr dat" and sub: "run_state (Submit ?svc ?inp) ?s = (Inr res, s')"
        and rsp: "c = 202" "JRelay rsp = JRelay \<lparr>rr_RequestID = sr_RequestID res, rr_TxHash = hashHex (svc_env ?svc) (sr_TxHash res),
                rr_Signer = addrHex (svc_env ?svc) (sr_Signer res)\<rparr>"
      have inv: "pool_inv held (pools ?s)" using assms(1) by simp
      from txmill.Submit_success_rows [OF inv sub] dat rsp admitted(1-4) show ?thesis
        by (auto simp: relay_input_def lowerHash_def)
    qed
  qed
qed

definition sample_post :: relayRequest where
  "sample_post = \<lparr>rq_ChainID = 146, rq_To = hex_text 40 (9 :: address), rq_Data = ''0x'', rq_Value = [], rq_GasLimit = 0,
     rq_Deadline = 0, rq_CallbackURL = [], rq_CallbackMetadata = []\<rparr>"

lemma TrimSpace_Nil [simp]: "TrimSpace [] = []"
  by code_simp

lemma sample_posted:
  "\<exists>rsp s'. run_state (serve (sample_service sample_env) sample_keystore ''Bearer tk_1'' (PostRelay (Some sample_post))) sample_state =
     (JSON 202 (JRelay rsp), s')"
proof -
  have "isHexAddress sample_env (hex_text 40 (9 :: address))" by (simp add: sample_env_def)
  then show ?thesis
    by (simp add: serve_routes bearerAuth_def extractBearerToken_def HasPrefix_def TrimPrefix_def Authenticate_def lookup_row_def
        postRelay_def sample_post_def decodeHexBytes_def relay_input_def sample_defs run_defs submit_defs maxCallbackMetadataLen_def)
qed

theorem relay_accepted_witness:
  "\<exists>rsp s' rq. run_state (serve (sample_service sample_env) sample_keystore ''Bearer tk_1'' (PostRelay (Some sample_post))) sample_state =
       (JSON 202 (JRelay rsp), s') \<and> relay_requests (db s') = [rq] \<and> r_status rq = ReqSubmitted \<and> r_id rq = rr_RequestID rsp"
proof -
  obtain rsp s' where run: "run_state (serve (sample_service sample_env) sample_keystore ''Bearer tk_1'' (PostRelay (Some sample_post)))
      sample_state = (JSON 202 (JRelay rsp), s')" using sample_posted by blast
  have "relay_requests (db sample_state) = []" by (simp add: sample_defs)
  with relay_accepted [OF sample_pool_inv run] run show ?thesis by auto
qed

text \<open>
  C37. The status endpoint shows an app only its own requests: a 200 carries the status of a
  request of the caller's app, with the newest of its attempts, and reading changes nothing.
\<close>

theorem status_own_app:
  assumes "run_state (getRelay E i appID) s = (JSON c (JStatus st), s')"
  shows "c = 200 \<and> db s' = db s \<and> (\<exists>rq \<in> set (relay_requests (db s)). r_app_id rq = appID \<and> pgUuid E i = Some (r_id rq) \<and>
    st = status_document rq (latest_attempt (r_id rq) (db s)) \<and> st_Status st = r_status rq \<and>
    newest_attempt (r_id rq) (db s) (latest_attempt (r_id rq) (db s)) \<and>
    (\<forall>t. latest_attempt (r_id rq) (db s) = Some t \<longrightarrow> st_TxHash st = t_tx_hash t \<and>
       (\<forall>u \<in> set (tx_attempts (db s)). t_request_id u = r_id rq \<longrightarrow> t_submitted_at u \<le> t_submitted_at t)))"
proof (rule getRelay_own [OF assms])
  fix rq
  assume rq: "rq \<in> set (relay_requests (db s))" "pgUuid E i = Some (r_id rq)" "r_app_id rq = appID"
    "st = status_document rq (latest_attempt (r_id rq) (db s))"
  have "c = 200" using assms by (auto simp: getRelay_def run_attempt split: prod.splits sum.splits if_splits)
  moreover have "db s' = db s" using leavesD [OF read_handlers_leave_db(3) assms] .
  ultimately show ?thesis
    using rq latest_attempt_Some [of "r_id rq" "db s"] latest_is_newest [of "r_id rq" "db s"] by (auto simp: status_document_def)
qed

definition status_state :: "nat pool_state" where
  "status_state = sample_state\<lparr>db := sample_db\<lparr>relay_requests := [new_request sample_env ''req'' 1 sample_input ''abc'' (Num 3)]\<rparr>\<rparr>"

theorem status_own_app_witness:
  "\<exists>st s'. run_state (getRelay sample_env ''req'' ''app'') status_state = (JSON 200 (JStatus st), s') \<and> st_Status st = ReqPending"
proof -
  obtain st s' where run: "run_state (getRelay sample_env ''req'' ''app'') status_state = (JSON 200 (JStatus st), s')"
    by (simp add: getRelay_def Get_def own_row_def run_defs status_state_def new_request_def sample_defs)
  from status_own_app [OF run] run show ?thesis
    by (auto simp: status_state_def new_request_def)
qed

section \<open>Alerts\<close>

text \<open>
  C38. Throttling: once an alert was let through, every alert with the same key that comes within
  the interval returns without reaching a transport, whatever alerts of this or other keys were
  sent in between and whatever else ran, as long as nothing takes the monotonic clock back. This
  holds whatever the transports made of the first one: an alert they all failed to send is not tried
  again within the interval.
\<close>

theorem throttle_window:
  assumes "clock_mono E" and "i \<notin> throttles inner"
    and "\<not> suppressed interval (fst (timeNow E (world s))) (sent s i (al_Key a))"
    and "run_state (Notify E (Throttled i inner interval) a) s = (r, s1)"
    and "rtranclp (alert_step E (Throttled i inner interval)) s1 s2"
    and "fst (timeNow E (world s2)) - fst (timeNow E (world s)) < interval" and "al_Key b = al_Key a"
  shows "run_state (Notify E (Throttled i inner interval) b) s2 = (Inr (), s2\<lparr>world := snd (timeNow E (world s2))\<rparr>)"
  by (rule Throttled_window [OF assms])

definition sample_alert :: Alert where
  "sample_alert = \<lparr>al_Key = ''k'', al_Level = LevelWarn, al_Title = ''t'', al_Message = ''m'', al_Tags = []\<rparr>"

text \<open>
  A transport that fails: the first alert is an error; an alert with another key is tried and fails
  too; the first one again is silent.
\<close>

definition down_env :: "nat env" where
  "down_env = sample_env\<lparr>httpDo := (\<lambda>_ _ _. Pair (Inl (External ''connection refused'')))\<rparr>"

definition other_alert :: Alert where
  "other_alert = sample_alert\<lparr>al_Key := ''other''\<rparr>"

abbreviation down_notifier :: Notifier where
  "down_notifier \<equiv> Throttled 0 (AlertWebhook ''u'') (60 * 10 ^ 9)"

theorem throttle_window_witness:
  "\<exists>e s1 e' s2. run_state (Notify down_env down_notifier sample_alert) gas_state = (Inl e, s1) \<and>
     run_state (Notify down_env down_notifier other_alert) s1 = (Inl e', s2) \<and>
     run_state (Notify down_env down_notifier sample_alert) s2 = (Inr (), s2\<lparr>world := snd (timeNow down_env (world s2))\<rparr>)"
proof -
  have t: "timeNow down_env w = (int w * 10 ^ 9, Suc w)" for w by (simp add: down_env_def)
  have mono: "clock_mono down_env" by (simp add: clock_mono_def t) (simp add: down_env_def)
  have fails: "\<exists>e. run_state (Notify down_env down_notifier a) s = (Inl e, s\<lparr>world := Suc (Suc (world s)),
      sent := mark_sent 0 (al_Key a) (int (world s) * 10 ^ 9) (sent s)\<rparr>)" if "sent s 0 (al_Key a) = None" for a s
    using that by (simp add: Webhook_Notify_def run_ext run_attempt suppressed_def t) (simp add: down_env_def sample_env_def run_ext run_attempt)
  obtain e s1 where run: "run_state (Notify down_env down_notifier sample_alert) gas_state = (Inl e, s1)"
    and s1: "world s1 = 12" "sent s1 0 (al_Key other_alert) = None"
    using fails [of gas_state sample_alert] by (auto simp: gas_state_def sample_alert_def other_alert_def mark_sent_def)
  obtain e' s2 where run': "run_state (Notify down_env down_notifier other_alert) s1 = (Inl e', s2)" and s2: "world s2 = 14"
    using fails [of s1 other_alert] s1 by auto
  have between: "rtranclp (alert_step down_env down_notifier) s1 s2" using alert_step.alerted [OF run'] by blast
  have "run_state (Notify down_env down_notifier sample_alert) s2 = (Inr (), s2\<lparr>world := snd (timeNow down_env (world s2))\<rparr>)"
    by (rule throttle_window [OF mono _ _ run between]) (simp_all add: t s2 gas_state_def suppressed_def)
  with run run' show ?thesis by blast
qed

section \<open>Start-up\<close>

text \<open>
  C39. What \<open>main\<close> starts: the database as it was, no signer loaded and nothing in flight, the
  relay service, the three workers and the routes on the node of the configured chain, and a
  keystore with a password. An interval of \<open>ms\<close> milliseconds is ticked at exactly \<open>ms * 10^6\<close>
  nanoseconds as long as that fits in 63 bits. A gas interval of 0 is not refused: before its first
  tick the gas worker panics in \<open>time.NewTicker\<close>, which ends the process. Neither is a batch size of \<open>2^63\<close> or more, a negative \<open>LIMIT\<close>: every tick
  of the watcher then fails and resolves nothing.
\<close>

theorem startup_wiring:
  fixes t :: "('w, 'z) alert_state_scheme"
  assumes "run_state (main os pgxNew ping mkdirAll conn rpcChainID E) s = (Inr sys, s')"
  shows "let cfg = Config_Load os; K = sys_Keystore sys; E' = E\<lparr>chainID := uint (c_ChainID cfg)\<rparr> in
    db s' = db s \<and> initial \<lparr>threads = [], shared = s', accepted = []\<rparr> \<and> rpcChainID = Inr (uint (c_ChainID cfg)) \<and>
    ks_password K \<noteq> [] \<and> sys_Service sys = txmill_service E' K \<and> wt_env (sys_Watcher sys) = E' \<and>
    wt_webhooks (sys_Watcher sys) = Some (Enqueue E') \<and> ww_env (sys_WebhookWorker sys) = E' \<and>
    gw_env (sys_GasWorker sys) = E' \<and> gw_keystore (sys_GasWorker sys) = K \<and>
    NewRouter (sys_Handlers sys) = serve (sys_Service sys) K \<and>
    (unat (c_WatcherIntervalMs cfg) * 1000000 < 2 ^ 63 \<longrightarrow>
      wt_interval (sys_Watcher sys) = int (unat (c_WatcherIntervalMs cfg)) * 1000000 \<and>
      ww_interval (sys_WebhookWorker sys) = int (unat (c_WatcherIntervalMs cfg)) * 1000000) \<and>
    (unat (c_GasIntervalMs cfg) * 1000000 < 2 ^ 63 \<longrightarrow>
      gw_interval (sys_GasWorker sys) = int (unat (c_GasIntervalMs cfg)) * 1000000) \<and>
    (c_GasIntervalMs cfg = 0 \<longrightarrow> (\<exists>m. run_state (Gas_Run (sys_GasWorker sys) n) t = (Inl (Panic m), t))) \<and>
    (2 ^ 63 \<le> unat (c_WatcherBatchSize cfg) \<longrightarrow>
      (\<exists>e w. run_state (Watcher_Tick (sys_Watcher sys)) t = (Inl e, t\<lparr>world := w\<rparr>)))"
proof (rule main_started [OF assms])
  fix K E' cfg
  assume up: "E' = E\<lparr>chainID := uint (c_ChainID cfg)\<rparr>" "cfg = Config_Load os" "rpcChainID = Inr (uint (c_ChainID cfg))"
    "sys_Keystore sys = K" "ks_password K \<noteq> []" "sys_Service sys = txmill_service E' K"
    "sys_Watcher sys = txmill_watcher E' (millis (c_WatcherIntervalMs cfg)) (sint (c_WatcherBatchSize cfg))"
    "sys_WebhookWorker sys = Webhook_NewWorker E' (millis (c_WatcherIntervalMs cfg)) (sint (c_WatcherBatchSize cfg))"
    "sys_GasWorker sys = Gas_NewWorker E' K (Some (buildNotifier cfg)) (millis (c_GasIntervalMs cfg))"
    "sys_Handlers sys = main_handlers (txmill_service E' K) K"
    "db s' = db s" "initial \<lparr>threads = [], shared = s', accepted = []\<rparr>"
  have panic: "\<exists>m. run_state (Gas_Run (sys_GasWorker sys) n) t = (Inl (Panic m), t)" if "c_GasIntervalMs cfg = 0"
    using that up(9) by (simp add: Gas_Run_def run_ticker_def NewTicker_def)
  have limit: "\<exists>e w. run_state (Watcher_Tick (sys_Watcher sys)) t = (Inl e, t\<lparr>world := w\<rparr>)" if "2 ^ 63 \<le> unat (c_WatcherBatchSize cfg)"
    unfolding up(7) Watcher_Tick_txmill by (rule Watcher_tick_negative [OF sint_negative [OF that]])
  show ?thesis
    unfolding Let_def up(2) [symmetric] up(4) up(1) [symmetric]
    by (intro conjI allI impI panic limit; simp add: up(3,5-12) millis_exact serve_def)
qed

theorem startup_wiring_witness:
  "\<exists>sys s'. run_state (main sample_os (Inr ()) (Inr ()) (Inr ()) (Inr ()) (Inr 146) sample_env) gas_state = (Inr sys, s') \<and>
     chainID (svc_env (sys_Service sys)) = 146 \<and> wt_interval (sys_Watcher sys) = 1000000000"
proof -
  have cfg: "c_ChainID (Config_Load sample_os) = 146" "c_WatcherIntervalMs (Config_Load sample_os) = 1000"
    by (simp_all add: Config_Load_def getenvUint64_def sample_os_def)
  have "\<exists>wr. startup sample_os (Inr ()) (Inr ()) (Inr ()) (Inr 146) = Inr wr"
    by (simp add: startup_def Let_def New_def Dial_def cfg) (simp add: Config_Load_def sample_os_def)
  then have "\<exists>sys s'. run_state (main sample_os (Inr ()) (Inr ()) (Inr ()) (Inr ()) (Inr 146) sample_env) gas_state = (Inr sys, s')"
    by (auto simp: main_def store_NewPool_def Let_def case_prod_beta)
  then obtain sys s' where run:
    "run_state (main sample_os (Inr ()) (Inr ()) (Inr ()) (Inr ()) (Inr 146) sample_env) gas_state = (Inr sys, s')" by blast
  note w = startup_wiring [OF run, of 0 gas_state, unfolded Let_def cfg]
  then have "chainID (svc_env (sys_Service sys)) = 146" by simp
  moreover from w have "wt_interval (sys_Watcher sys) = 1000000000" by simp
  ultimately show ?thesis using run by blast
qed




section \<open>Sweeps\<close>

text \<open>
  C40. A successful sweep sends from the app's own treasury to the given address, with the
  transaction the result names, signed with the treasury's key and accepted by the node, under the
  nonce and the gas price the node reported: the amount asked for, or, without one, the whole reported balance less
  exactly the gas the transaction may use, which is then positive. It writes nothing to the
  database.
\<close>

theorem sweep_accounting:
  assumes "run_state (Sweep E K appID to amt) s = (Inr res, s')"
  shows "db s' = db s \<and> (\<exists>a nonce gasPrice priv signed.
    a \<in> set (apps (db s)) \<and> a_id a = appID \<and> sw_From res = hexToAddress E (a_treasury_address a) \<and> sw_To res = to \<and>
    answers (pendingNonceAt E (sw_From res)) nonce \<and> answers (suggestGasPrice E) gasPrice \<and>
    (amt = Some (sw_ValueWei res) \<or> amt = None \<and> 0 < sw_ValueWei res \<and>
       answers (balanceAt E (sw_From res)) (sw_ValueWei res + gasPrice * uint sweepGasLimit)) \<and>
    SignTx E (NewTransaction nonce to (Some (sw_ValueWei res)) sweepGasLimit gasPrice []) priv = Inr signed \<and>
    pubkeyToAddress E priv = sw_From res \<and> answers (sendTransaction E signed) () \<and> sw_TxHash res = txHash E signed)"
  by (rule Sweep_success [OF assms]) (use leavesD [OF Sweep_leaves_db assms] in blast)

theorem sweep_accounting_witness:
  "\<exists>res s'. run_state (Sweep sample_env sample_keystore ''app'' 9 (Some 42)) sample_state = (Inr res, s') \<and>
     sw_ValueWei res = 42 \<and> sw_To res = 9"
proof -
  have "\<exists>res s'. run_state (Sweep sample_env sample_keystore ''app'' 9 (Some 42)) sample_state = (Inr res, s')"
    by (simp add: Sweep_def treasury_address_def lookup_row_def SignTx_def run_defs load_defs sample_defs del: One_nat_def)
  then obtain res s' where run: "run_state (Sweep sample_env sample_keystore ''app'' 9 (Some 42)) sample_state = (Inr res, s')" by blast
  from sweep_accounting [OF run] run show ?thesis by auto
qed

end
