(* ===== verification/Dbtest.thy ===== *)
theory Dbtest
  imports Schema
begin

text \<open>
  \<open>internal/store/dbtest\<close>: the database that the integration tests share. The migrations run once
  per test process, under an advisory lock that keeps parallel test binaries apart, and every
  test starts from empty tables. What the driver and \<open>goose\<close> answer is a parameter.
\<close>

section \<open>Migrations\<close>

datatype test_call =
    SqlOpen | ConnOpen | AdvisoryLock int | SetBaseFS | SetDialect | GooseUp
  | AdvisoryUnlock int | ConnClose | DBClose

definition lock_key :: int where "lock_key = 8675309"

definition deferring :: "test_call \<Rightarrow> 'a \<times> test_call list \<Rightarrow> 'a \<times> test_call list" where
  "deferring c out = (fst out, snd out @ [c])"

text \<open>The result, and the calls in order, the deferred ones at the end.\<close>

definition applyMigrations :: "(test_call \<Rightarrow> unit res) \<Rightarrow> unit res \<times> test_call list" where
  "applyMigrations ans =
     (case ans SqlOpen of
        Inl e \<Rightarrow> (Inl e, [SqlOpen])
      | Inr _ \<Rightarrow> deferring DBClose (case ans ConnOpen of
          Inl e \<Rightarrow> (Inl e, [SqlOpen, ConnOpen])
        | Inr _ \<Rightarrow> deferring ConnClose (case ans (AdvisoryLock lock_key) of
            Inl e \<Rightarrow> (Inl e, [SqlOpen, ConnOpen, AdvisoryLock lock_key])
          | Inr _ \<Rightarrow> deferring (AdvisoryUnlock lock_key) (case ans SetDialect of
              Inl e \<Rightarrow> (Inl e, [SqlOpen, ConnOpen, AdvisoryLock lock_key, SetBaseFS, SetDialect])
            | Inr _ \<Rightarrow> (ans GooseUp, [SqlOpen, ConnOpen, AdvisoryLock lock_key, SetBaseFS, SetDialect, GooseUp])))))"

section \<open>A database for a test\<close>

record test_db =
  tb_db :: database
  tb_migrateOnce :: bool
  tb_migrateErr :: "error option"
  tb_calls :: "test_call list"

text \<open>The \<open>DO\<close> block is one statement: it truncates every table of the schema or none.\<close>

definition truncateAll :: "unit res \<Rightarrow> test_db \<Rightarrow> unit res \<times> test_db" where
  "truncateAll exec st = (case exec of Inl e \<Rightarrow> (Inl e, st) | Inr _ \<Rightarrow> (Inr (), st\<lparr>tb_db := empty_db\<rparr>))"

definition once_Do :: "(test_call \<Rightarrow> unit res) \<Rightarrow> test_db \<Rightarrow> test_db" where
  "once_Do ans st =
     (if tb_migrateOnce st then st
      else st\<lparr>tb_migrateOnce := True,
              tb_migrateErr := (case fst (applyMigrations ans) of Inl e \<Rightarrow> Some e | Inr _ \<Rightarrow> None),
              tb_calls := tb_calls st @ snd (applyMigrations ans)\<rparr>)"

datatype test_result = Skip string | Fatalf string | Ready

definition dbtest_New ::
  "string \<Rightarrow> (test_call \<Rightarrow> unit res) \<Rightarrow> unit res \<Rightarrow> unit res \<Rightarrow> unit res \<Rightarrow> test_db \<Rightarrow> test_result \<times> test_db" where
  "dbtest_New url ans pgxNew ping exec st =
     (if url = [] then (Skip ''TXMILL_TEST_DB_URL not set; skipping integration test'', st)
      else (let st = once_Do ans st in
        (case tb_migrateErr st of
           Some e \<Rightarrow> (Fatalf (''apply migrations: '' @ Error e), st)
         | None \<Rightarrow> (case pgxNew of
             Inl e \<Rightarrow> (Fatalf (''pgxpool new: '' @ Error e), st)
           | Inr _ \<Rightarrow> (case ping of
               Inl e \<Rightarrow> (Fatalf (''pgxpool ping: '' @ Error e), st)
             | Inr _ \<Rightarrow> (case truncateAll exec st of
                 (Inl e, st) \<Rightarrow> (Fatalf (''truncate: '' @ Error e), st)
               | (Inr _, st) \<Rightarrow> (Ready, st)))))))"

section \<open>What a test can rely on\<close>

text \<open>The migrations run only while the lock is held, and a lock that was taken is released.\<close>

lemma applyMigrations_locked:
  assumes "applyMigrations ans = (r, cs)"
  shows "(r = Inr () \<longrightarrow> GooseUp \<in> set cs) \<and>
    (AdvisoryLock lock_key \<in> set cs \<and> ans (AdvisoryLock lock_key) = Inr () \<longleftrightarrow> AdvisoryUnlock lock_key \<in> set cs) \<and>
    (GooseUp \<in> set cs \<longrightarrow> (\<exists>a b. cs = a @ [AdvisoryLock lock_key] @ b @ [GooseUp, AdvisoryUnlock lock_key, ConnClose, DBClose]))"
proof -
  have "cs = [SqlOpen, ConnOpen] @ [AdvisoryLock lock_key] @ [SetBaseFS, SetDialect] @ [GooseUp, AdvisoryUnlock lock_key, ConnClose, DBClose]"
    if "GooseUp \<in> set cs"
    using assms that by (auto simp: applyMigrations_def deferring_def split: sum.splits)
  moreover have "(r = Inr () \<longrightarrow> GooseUp \<in> set cs) \<and>
    (AdvisoryLock lock_key \<in> set cs \<and> ans (AdvisoryLock lock_key) = Inr () \<longleftrightarrow> AdvisoryUnlock lock_key \<in> set cs)"
    using assms by (auto simp: applyMigrations_def deferring_def split: sum.splits)
  ultimately show ?thesis by blast
qed

lemma applyMigrations_once: "count_list (snd (applyMigrations ans)) GooseUp \<le> 1"
  by (auto simp: applyMigrations_def deferring_def split: sum.split)

definition test_inv :: "test_db \<Rightarrow> bool" where
  "test_inv st \<longleftrightarrow> (if tb_migrateOnce st then count_list (tb_calls st) GooseUp \<le> 1 else tb_migrateErr st = None \<and> tb_calls st = [])"

text \<open>A test gets a database only with migrated, empty tables; the migrations run at most once.\<close>

lemma dbtest_New_run:
  assumes "dbtest_New url ans pgxNew ping exec st = (out, st')" and "test_inv st"
  shows "test_inv st' \<and> (out = Ready \<longrightarrow> tb_db st' = empty_db \<and> tb_migrateOnce st' \<and> tb_migrateErr st' = None) \<and>
    (out \<noteq> Ready \<longrightarrow> tb_db st' = tb_db st)"
  using assms applyMigrations_once [of ans]
  by (auto simp: dbtest_New_def once_Do_def truncateAll_def test_inv_def Let_def split: if_splits option.splits sum.splits)

text \<open>Failed migrations are not tried again: no later test of the process gets a database.\<close>

lemma dbtest_New_failed:
  assumes "tb_migrateOnce st" and "tb_migrateErr st = Some e" and "url \<noteq> []"
  shows "dbtest_New url ans pgxNew ping exec st = (Fatalf (''apply migrations: '' @ Error e), st)"
  using assms by (simp add: dbtest_New_def once_Do_def)

end
