(* ===== verification/Spec2Isabelle.thy ===== *)
theory Spec2Isabelle
  imports Relay_Properties Worker_Properties Service_Properties Dbtest
begin

text \<open>
  A verification development of txmill, a transaction relayer for EVM chains.

  \<^bold>\<open>The program.\<close> An app is created over HTTP with a pool of signer keys (\<open>internal/app\<close>,
  \<open>internal/keystore\<close>). A relay request (\<open>internal/api\<close>, \<open>internal/relay/service.go\<close>) borrows an
  idle signer of the app (\<open>internal/signer\<close>), writes the request and the signed transaction to
  PostgreSQL (\<open>migrations/\<close>), broadcasts it (\<open>internal/chain\<close>) and marks it submitted. Three
  workers run beside the requests: the receipt watcher (\<open>internal/relay/watcher.go\<close>) resolves
  attempts from their receipts, the webhook worker (\<open>internal/webhook\<close>) delivers signed status
  callbacks with backoff, and the gas worker (\<open>internal/gas\<close>) refills signers from the app's
  treasury and alerts the operator (\<open>internal/alert\<close>) when it runs low. \<open>internal/treasury\<close> sweeps
  a treasury, \<open>internal/relay/get.go\<close> and \<open>recovery.go\<close> read statuses, \<open>internal/config\<close> and
  \<open>cmd/txmill\<close> start everything.

  \<^bold>\<open>How the code is modelled.\<close> A Go operation is a value of \<open>State_Monad\<close> over a record of the
  mutable state, returning \<open>error + 'a\<close>: every error return is a branch, and a panic is the error
  \<open>Panic\<close>, which is never wrapped and never handled. What lies outside the repository (the node,
  the cryptography, the JSON and hex codecs, the clock, the random source, the HTTP client, the
  faults of database and disk) is a field of the record \<open>env\<close>, a function on a world of its own;
  what the code relies on there is a named hypothesis (\<open>hex_roundtrip\<close>, \<open>keystore_laws\<close>,
  \<open>pg_decimal\<close>, \<open>no_faults\<close>, \<open>ordinary_faults\<close>, \<open>clock_mono\<close>) of the properties that need it;
  \<open>counts_requests\<close> is a count of the HTTP requests the outside has seen. 64-bit counters
  and gas are 64-bit words; \<open>*big.Int\<close> is \<open>int\<close>. SQL statements are functions on the tables, and
  fail where a constraint of the schema, a refused text or an injected fault makes them fail.

  \<^item> \<open>Prelude\<close>: errors and their texts, the state operations, frame and invariant rules
    (\<open>valid\<close>, \<open>keeps\<close>, \<open>leaves\<close>), updates of keyed rows, and the locales \<open>row_update\<close>,
    \<open>row_steps\<close> and \<open>batch_worker\<close> that the workers instantiate.
  \<^item> \<open>GoLib\<close>: the functions of Go's \<open>strings\<close>, \<open>strconv\<close>, \<open>math/big\<close>, \<open>hex\<close> and \<open>base64\<close> the
    code uses, with their round trips.
  \<^item> \<open>Schema\<close>: the tables, statuses, constraints and the \<open>updated_at\<close> trigger; \<open>db_wf\<close>.
  \<^item> \<open>Runtime\<close>: \<open>env\<close>, the state \<open>base\<close>, the methods of the chain client, single statements
    and transactions. \<open>Workers\<close>: the ticker loop of the background workers, and the locale
    \<open>finishing_worker\<close> of a batch whose items leave the queue for good, from which it follows that
    the queue drains, the oldest first.
  \<^item> \<open>Keystore\<close>, \<open>App\<close>, \<open>Signer_Pool\<close>, \<open>Relay_Status\<close>, \<open>Webhook\<close>, \<open>Relay_Service\<close>, \<open>Watcher\<close>
    (with the recovery scan), \<open>Alert\<close>, \<open>Gas\<close>, \<open>Treasury\<close>, \<open>Config\<close> and \<open>Api\<close>: one theory per
    package, its operations under their names in the code (with the type in front where two share
    one) and its lemmas. The structs of the services and workers are records (\<open>Service\<close>,
    \<open>Watcher\<close>, \<open>Webhook_Service\<close>, \<open>Webhook_Worker\<close>, \<open>Gas_Worker\<close>, \<open>App_Service\<close>,
    \<open>Treasury_Service\<close>, \<open>Client\<close>, \<open>Handlers\<close>) with their constructors. The state grows along the
    imports: \<open>base\<close> (world, database), \<open>ks_state\<close> (key files), \<open>pool_state\<close> (signer pools), \<open>alert_state\<close> (throttle times).
  \<^item> \<open>Relay_Steps\<close>: \<open>Submit\<close> as atomic actions \<open>pc\<close>, and the step relation of any number of
    requests beside the workers; \<open>Pool.Load\<close> is two of the actions, the reading of the keys and
    nonces and the installation under the lock, so that first requests of one app race.
    \<open>Relay_Guarantee\<close>: relations on the database that all these actions stay within.
    \<open>Relay_Safety\<close>: ownership, nonces and write-ahead. \<open>Relay_Ledger\<close>: the attempt of an accepted
    broadcast is never marked failed. \<open>Relay_Consistency\<close>: agreement of requests and attempts.
  \<^item> \<open>Programs\<close>: the commands, \<open>cmd/txmill\<close> with its wiring, \<open>cmd/alert-test\<close> and \<open>cmd/migrate\<close>,
    and \<open>internal/store/db.go\<close>; \<open>main_exit\<close> is \<open>main\<close> to the end of the process, over the events that
    can end it: the server returns, a worker returns or panics, a signal arrives, the shutdown goes
    on. \<open>System\<close>: the step relation of the whole program, the relay of
    \<open>Relay_Steps\<close> beside every other HTTP request and the gas worker, its invariants, and
    the link from \<open>main\<close> to its initial configurations. \<open>Progress\<close>: requests
    come to their end and give their signers back, and the next process resolves what the last one
    broadcast.
  \<^item> \<open>Dbtest\<close>: the test database of \<open>internal/store/dbtest\<close>; its lemmas show that the migrations run
    once and under the lock, and that a test starts from empty tables.
  \<^item> \<open>Sample_World\<close>: a concrete environment in which the witnesses run.
  \<^item> \<open>Relay_Properties\<close>, \<open>Worker_Properties\<close>, \<open>Service_Properties\<close>: the properties C1 to C40.

  The interfaces of the code are locales: \<open>nonce_source\<close> and \<open>signer_pool\<close> (the pool and its
  nonces), \<open>pool_loader\<close>, \<open>webhook_enqueuer\<close> and \<open>relay_service\<close> (what \<open>Submit\<close> relies on),
  \<open>status_fetcher\<close> (what \<open>Enqueue\<close> relies on), \<open>watcher\<close>, \<open>db_guarantee\<close> and \<open>relay_guarantee\<close> (what
  a relation on the database needs to survive the program), and the locales of rows and workers
  above; each is interpreted on the model's own definitions.

  \<^bold>\<open>What is shown.\<close> C1 to C7: exclusive ownership of signers, consecutive nonces, recording
  before broadcast, no broadcast lost in a crash, pools installed once and no request stuck for a
  signer, in every configuration of the whole program, and that the actions are \<open>Submit\<close>. C8 to
  C12: what \<open>Submit\<close> does on success and on each failure, its invariants, and the agreement of
  requests and attempts. C13 to C19 and C21 to C24: the watcher, recovery and the webhook worker as
  state machines, that their queues drain, and where progress fails. C20: how the process ends, by a
  failed start, a crash or a completed shutdown.
  C25 to C30: the keystore and the creation of apps. C31 to C34: the gas worker. C35 to C40: the
  API, throttling, start-up and sweeps. Several properties record behaviour a reader of the code
  would not expect (the last part of C10, C16, C17, the worker panic of C20, C23, C29, C31, the last part of C38 and of C39).

  \<^bold>\<open>Bounds.\<close> The loops \<open>Run\<close> of the workers take the number of ticks as an argument, and the
  properties hold for every number. A thread of \<open>Relay_Steps\<close> takes at most thirteen actions, which
  C7 shows to be enough. Nothing else has fuel.

  \<^bold>\<open>Abstractions.\<close> \<open>Checkout\<close> on an empty channel is modelled as giving up with the context; a
  request that waits is one that is not scheduled. A statement or commit that reports a failure has
  not been applied. The watcher commits a receipt and queues its webhook in one step or in two, and a webhook may be queued at any time
  (\<open>notify\<close>), which covers every later moment at which the code queues it. Times are microseconds in
  the database and nanoseconds from the clock. Rows that an \<open>ORDER BY\<close> leaves equal come in the order
  of their insertion, where PostgreSQL may choose: this concerns the batches of the two workers and
  the newest attempt of a request when two rows have the same time, and only C16 looks at such a
  batch itself. Signals are those that arrive once \<open>signal.Notify\<close> has run. The tags of an alert are a list, in the order the map
  is ranged over. Within the whole program a request other than a relay, and the handling of one
  app by the gas worker, is one step: they share only the database with the relay, and write only
  rows the relay does not. How the server stores a \<open>NUMERIC\<close>, a \<open>UUID\<close> or a \<open>JSONB\<close> text is a field of
  \<open>env\<close>, and so are the ids and the time it supplies. The formatting of \<open>last_used_at\<close> is left out.

  \<^bold>\<open>Not modelled.\<close> Path matching, JSON binding, request logging and panic recovery of the web
  framework; what its server does while it listens and drains; the pgx driver and pool; the
  connection of the chain client, beyond \<open>Dial\<close>; logging; indexes of the schema;
  \<open>migrations/migrations.go\<close>, which only embeds the SQL files.
\<close>

end
